(* ===== verification/Prelude.thy ===== *)
theory Prelude
  imports
    Complex_Main
    "HOL-Library.AList"
    "HOL-Library.Char_ord"
    "HOL-Library.List_Lexorder"
    "HOL-Library.Multiset"
begin

text \<open>
  What every component shares: the collections of automation facts, Python's
  strings (\<open>str.strip\<close>, \<open>str.lower\<close>, \<open>str.upper\<close>, \<open>in\<close>,
  \<open>startswith\<close>), Python's insertion-ordered dictionaries as association
  lists, and the sum type of fallible operations with its sequencing.

  A Python string is a \<open>string\<close>: each \<open>char\<close> is the code point of the
  same number, so the model covers the code points 0 to 255, and strips and folds
  the case of exactly the characters that Python strips and folds in that range.
  A dictionary is an association list with distinct keys: \<open>AList.update\<close>
  replaces a value in place and appends a new key at the end, as \<open>d[k] = v\<close>
  does.
\<close>

section \<open>Collections of facts\<close>

named_theorems model_defs \<open>definitions of the model that symbolic evaluation unfolds\<close>
named_theorems inv_intros \<open>operations preserve the invariant of their component\<close>

section \<open>Fallible operations\<close>

text \<open>\<open>Inl\<close> is a raised exception, \<open>Inr\<close> a returned value.\<close>

definition rbind :: "'e + 'a \<Rightarrow> ('a \<Rightarrow> 'e + 'b) \<Rightarrow> 'e + 'b" where
  "rbind m f = (case m of Inl e \<Rightarrow> Inl e | Inr a \<Rightarrow> f a)"

lemma rbind_simps [simp]:
  "rbind (Inl e) f = Inl e"
  "rbind (Inr a) f = f a"
  by (simp_all add: rbind_def)

lemma rbind_Inr_iff: "rbind m f = Inr b \<longleftrightarrow> (\<exists>a. m = Inr a \<and> f a = Inr b)"
  by (cases m) simp_all

lemma rbind_Inl_iff: "rbind m f = Inl e \<longleftrightarrow> m = Inl e \<or> (\<exists>a. m = Inr a \<and> f a = Inl e)"
  by (cases m) simp_all

text \<open>\<open>guard_that c e\<close> is \<open>if not c: raise e\<close>.\<close>

definition guard_that :: "bool \<Rightarrow> 'e \<Rightarrow> 'e + unit" where
  "guard_that c e = (if c then Inr () else Inl e)"

lemma guard_that_iff [simp]:
  "guard_that c e = Inr u \<longleftrightarrow> c"
  "guard_that c e = Inl e' \<longleftrightarrow> \<not> c \<and> e' = e"
  by (auto simp: guard_that_def)

lemma guard_that_simps [simp]:
  "guard_that True e = Inr ()"
  "guard_that False e = Inl e"
  by (simp_all add: guard_that_def)

text \<open>A comprehension whose body may raise, from left to right.\<close>

fun rmap :: "('a \<Rightarrow> 'e + 'b) \<Rightarrow> 'a list \<Rightarrow> 'e + 'b list" where
  "rmap f [] = Inr []"
| "rmap f (x # xs) = rbind (f x) (\<lambda>y. rbind (rmap f xs) (\<lambda>ys. Inr (y # ys)))"

lemma rmap_cong [fundef_cong]:
  "xs = ys \<Longrightarrow> (\<And>x. x \<in> set ys \<Longrightarrow> f x = g x) \<Longrightarrow> rmap f xs = rmap g ys"
  by (induction xs arbitrary: ys) auto

lemma rmap_Inr_length: "rmap f xs = Inr ys \<Longrightarrow> length ys = length xs"
  by (induction xs arbitrary: ys) (auto simp: rbind_Inr_iff)

lemma rmap_Inr_iff: "rmap f xs = Inr ys \<longleftrightarrow> list_all2 (\<lambda>x y. f x = Inr y) xs ys"
  by (induction xs arbitrary: ys) (auto simp: rbind_Inr_iff list_all2_Cons1)

text \<open>A loop whose body only checks, and stops at the first check that raises.\<close>

fun rall :: "('a \<Rightarrow> 'e + unit) \<Rightarrow> 'a list \<Rightarrow> 'e + unit" where
  "rall f [] = Inr ()"
| "rall f (x # xs) = rbind (f x) (\<lambda>_. rall f xs)"

lemma rall_cong [fundef_cong]:
  "xs = ys \<Longrightarrow> (\<And>x. x \<in> set ys \<Longrightarrow> f x = g x) \<Longrightarrow> rall f xs = rall g ys"
  by (induction xs arbitrary: ys) auto

lemma rall_Inr_iff: "rall f xs = Inr u \<longleftrightarrow> (\<forall>x \<in> set xs. f x = Inr ())"
  by (induction xs) (auto simp: rbind_Inr_iff)

lemma rall_Inl: "rall f xs = Inl e \<Longrightarrow> \<exists>x \<in> set xs. f x = Inl e"
  by (induction xs) (auto simp: rbind_Inl_iff)

text \<open>\<open>x or d\<close> on an optional string, where the empty string counts as absent, and
  \<open>d if x is None else x\<close>.\<close>

definition str_or :: "string option \<Rightarrow> string \<Rightarrow> string" where
  "str_or x d = (case x of None \<Rightarrow> d | Some s \<Rightarrow> if s = [] then d else s)"

definition opt_or :: "'a option \<Rightarrow> 'a \<Rightarrow> 'a" where
  "opt_or x d = (case x of None \<Rightarrow> d | Some v \<Rightarrow> v)"

lemma str_or_simps [simp]:
  "str_or None d = d"
  "s \<noteq> [] \<Longrightarrow> str_or (Some s) d = s"
  by (simp_all add: str_or_def)

lemma opt_or_simps [simp]:
  "opt_or None d = d"
  "opt_or (Some v) d = v"
  by (simp_all add: opt_or_def)

section \<open>Python strings\<close>

definition is_space :: "char \<Rightarrow> bool" where
  "is_space c =
     (let n = (of_char c :: nat)
      in (9 \<le> n \<and> n \<le> 13) \<or> (28 \<le> n \<and> n \<le> 32) \<or> n = 133 \<or> n = 160)"

definition lower_char :: "char \<Rightarrow> char" where
  "lower_char c =
     (let n = (of_char c :: nat)
      in if (65 \<le> n \<and> n \<le> 90) \<or> (192 \<le> n \<and> n \<le> 222 \<and> n \<noteq> 215) then char_of (n + 32) else c)"

text \<open>
  \<open>str.upper\<close> maps the sharp s to two letters. The characters 181 and 255 have
  their capitals beyond 255; they are left as they are.
\<close>

definition upper_char :: "char \<Rightarrow> char list" where
  "upper_char c =
     (let n = (of_char c :: nat)
      in if (97 \<le> n \<and> n \<le> 122) \<or> (224 \<le> n \<and> n \<le> 254 \<and> n \<noteq> 247) then [char_of (n - 32)]
         else if n = 223 then ''SS'' else [c])"

definition lower :: "string \<Rightarrow> string" where
  "lower s = map lower_char s"

definition upper :: "string \<Rightarrow> string" where
  "upper s = concat (map upper_char s)"

definition strip_with :: "(char \<Rightarrow> bool) \<Rightarrow> string \<Rightarrow> string" where
  "strip_with p s = rev (dropWhile p (rev (dropWhile p s)))"

definition rstrip_with :: "(char \<Rightarrow> bool) \<Rightarrow> string \<Rightarrow> string" where
  "rstrip_with p s = rev (dropWhile p (rev s))"

definition strip :: "string \<Rightarrow> string" where
  "strip s = strip_with is_space s"

text \<open>\<open>value.strip().lower()\<close>, the normal form of every name in Gate.\<close>

definition canon :: "string \<Rightarrow> string" where
  "canon s = lower (strip s)"

fun startswith :: "string \<Rightarrow> string \<Rightarrow> bool" where
  "startswith s [] = True"
| "startswith [] (p # ps) = False"
| "startswith (c # s) (p # ps) = (c = p \<and> startswith s ps)"

text \<open>\<open>sub in s\<close>\<close>

fun substr_in :: "string \<Rightarrow> string \<Rightarrow> bool" where
  "substr_in sub [] = (sub = [])"
| "substr_in sub (c # s) = (startswith (c # s) sub \<or> substr_in sub s)"

definition replace_char :: "char \<Rightarrow> char \<Rightarrow> string \<Rightarrow> string" where
  "replace_char a b s = map (\<lambda>c. if c = a then b else c) s"

subsection \<open>Normal forms\<close>

lemma char_code_cases: obtains n :: nat where "n < 256" and "c = char_of n"
  by (rule that [of "of_char c"]) simp_all

lemma of_char_of_small [simp]: "n < 256 \<Longrightarrow> of_char (char_of n :: char) = (n :: nat)"
  by simp

lemma is_space_char_of:
  fixes n :: nat
  shows "n < 256 \<Longrightarrow> is_space (char_of n) \<longleftrightarrow>
     (9 \<le> n \<and> n \<le> 13) \<or> (28 \<le> n \<and> n \<le> 32) \<or> n = 133 \<or> n = 160"
  by (simp only: is_space_def Let_def of_char_of_small)

lemma lower_char_char_of:
  fixes n :: nat
  shows "n < 256 \<Longrightarrow> lower_char (char_of n) =
     char_of (if (65 \<le> n \<and> n \<le> 90) \<or> (192 \<le> n \<and> n \<le> 222 \<and> n \<noteq> 215) then n + 32 else n)"
  by (simp only: lower_char_def Let_def of_char_of_small if_distrib[of char_of])

lemma is_space_lower_char [simp]: "is_space (lower_char c) = is_space c"
proof -
  obtain n :: nat where n: "n < 256" "c = char_of n" by (rule char_code_cases)
  show ?thesis
  proof (cases "(65 \<le> n \<and> n \<le> 90) \<or> (192 \<le> n \<and> n \<le> 222 \<and> n \<noteq> 215)")
    case True
    then have m: "n + 32 < 256" by linarith
    from True show ?thesis
      unfolding n(2) lower_char_char_of[OF n(1)] if_P[OF True] is_space_char_of[OF m]
        is_space_char_of[OF n(1)] by linarith
  next
    case False
    show ?thesis unfolding n(2) lower_char_char_of[OF n(1)] if_not_P[OF False] ..
  qed
qed

lemma lower_char_idem [simp]: "lower_char (lower_char c) = lower_char c"
proof -
  obtain n :: nat where n: "n < 256" "c = char_of n" by (rule char_code_cases)
  show ?thesis
  proof (cases "(65 \<le> n \<and> n \<le> 90) \<or> (192 \<le> n \<and> n \<le> 222 \<and> n \<noteq> 215)")
    case True
    then have m: "n + 32 < 256" by linarith
    from True have "\<not> ((65 \<le> n + 32 \<and> n + 32 \<le> 90) \<or> (192 \<le> n + 32 \<and> n + 32 \<le> 222 \<and> n + 32 \<noteq> 215))"
      by linarith
    then show ?thesis
      unfolding n(2) lower_char_char_of[OF n(1)] if_P[OF True] lower_char_char_of[OF m]
      by (simp only: if_False)
  next
    case False
    show ?thesis
      unfolding n(2) lower_char_char_of[OF n(1)] if_not_P[OF False]
        lower_char_char_of[OF n(1)] ..
  qed
qed

lemma lower_idem [simp]: "lower (lower s) = lower s"
  by (simp add: lower_def)

lemma lower_Nil_iff [simp]: "lower s = [] \<longleftrightarrow> s = []"
  by (simp add: lower_def)

lemma dropWhile_lower: "dropWhile is_space (lower s) = lower (dropWhile is_space s)"
  by (induction s) (simp_all add: lower_def)

lemma rev_lower: "rev (lower s) = lower (rev s)"
  by (simp add: lower_def rev_map)

lemma strip_of_lower: "strip (lower s) = lower (strip s)"
  by (simp add: strip_def strip_with_def dropWhile_lower rev_lower)

lemma dropWhile_idem: "dropWhile P (dropWhile P xs) = dropWhile P xs"
  by (induction xs) simp_all

lemma dropWhile_fixed_snoc:
  "dropWhile P xs = xs \<Longrightarrow> dropWhile P (rev (dropWhile P (rev xs))) = rev (dropWhile P (rev xs))"
proof (cases xs)
  case Nil
  then show ?thesis by simp
next
  case (Cons x ys)
  moreover assume "dropWhile P xs = xs"
  ultimately have "\<not> P x" by (metis dropWhile_eq_Cons_conv)
  then show ?thesis by (simp add: Cons dropWhile_append3)
qed

lemma strip_with_idem: "strip_with P (strip_with P s) = strip_with P s"
  by (simp add: strip_with_def dropWhile_fixed_snoc dropWhile_idem)

lemma strip_idem [simp]: "strip (strip s) = strip s"
  by (simp add: strip_def strip_with_idem)

lemma canon_idem [simp]: "canon (canon s) = canon s"
  by (simp add: canon_def strip_of_lower)

lemma canon_strip [simp]: "canon (strip s) = canon s"
  by (simp add: canon_def)

lemma strip_canon [simp]: "strip (canon s) = canon s"
  by (simp add: canon_def strip_of_lower)

lemma lower_canon [simp]: "lower (canon s) = canon s"
  by (simp add: canon_def)

text \<open>A literal without white space at its ends and without capitals is its own normal form.\<close>

definition plain :: "string \<Rightarrow> bool" where
  "plain s = list_all (\<lambda>c. \<not> is_space c \<and> lower_char c = c) s"

lemma dropWhile_none: "list_all (\<lambda>c. \<not> P c) s \<Longrightarrow> dropWhile P s = s"
  by (cases s) simp_all

lemma canon_plain: "plain s \<Longrightarrow> canon s = s"
proof -
  assume p: "plain s"
  then have ns: "list_all (\<lambda>c. \<not> is_space c) s" and "map lower_char s = s"
    by (auto simp: plain_def list_all_iff map_idI)
  moreover from ns have "list_all (\<lambda>c. \<not> is_space c) (rev s)" by simp
  ultimately show ?thesis
    by (simp add: canon_def strip_def strip_with_def dropWhile_none lower_def)
qed

lemma set_dropWhile_subset: "set (dropWhile P s) \<subseteq> set s"
  by (auto dest: set_dropWhileD)

lemma set_strip: "set (strip s) \<subseteq> set s"
  unfolding strip_def strip_with_def by (auto dest!: set_dropWhileD)

section \<open>Dictionaries\<close>

abbreviation dget :: "('k \<times> 'v) list \<Rightarrow> 'k \<Rightarrow> 'v option" where
  "dget d k \<equiv> map_of d k"

abbreviation dset :: "('k \<times> 'v) list \<Rightarrow> 'k \<Rightarrow> 'v \<Rightarrow> ('k \<times> 'v) list" where
  "dset d k v \<equiv> AList.update k v d"

abbreviation dkeys :: "('k \<times> 'v) list \<Rightarrow> 'k list" where
  "dkeys d \<equiv> map fst d"

definition dhas :: "('k \<times> 'v) list \<Rightarrow> 'k \<Rightarrow> bool" where
  "dhas d k = (dget d k \<noteq> None)"

definition dwf :: "('k \<times> 'v) list \<Rightarrow> bool" where
  "dwf d = distinct (dkeys d)"

text \<open>\<open>d.update(e)\<close>\<close>

fun dupdate :: "('k \<times> 'v) list \<Rightarrow> ('k \<times> 'v) list \<Rightarrow> ('k \<times> 'v) list" where
  "dupdate d [] = d"
| "dupdate d ((k, v) # e) = dupdate (dset d k v) e"

text \<open>\<open>d.setdefault(k, v)\<close>\<close>

definition dsetdefault :: "('k \<times> 'v) list \<Rightarrow> 'k \<Rightarrow> 'v \<Rightarrow> ('k \<times> 'v) list" where
  "dsetdefault d k v = (case dget d k of None \<Rightarrow> dset d k v | Some _ \<Rightarrow> d)"

lemma dget_dset: "dget (dset d k v) = (dget d)(k \<mapsto> v)"
  by (rule AList.update_conv')

lemma dget_dset_apply [simp]: "dget (dset d k v) k' = (if k' = k then Some v else dget d k')"
  by (simp add: dget_dset)

lemma dhas_iff: "dhas d k \<longleftrightarrow> k \<in> set (dkeys d)"
  by (simp add: dhas_def map_of_eq_None_iff)

lemma dget_dkeys: "dget d k = Some v \<Longrightarrow> k \<in> set (dkeys d)"
  by (metis dhas_def dhas_iff option.distinct(1))

lemma dwf_Nil [simp]: "dwf []"
  by (simp add: dwf_def)

lemma dwf_dset [simp, intro]: "dwf d \<Longrightarrow> dwf (dset d k v)"
  unfolding dwf_def by (rule AList.distinct_update)

lemma dkeys_dset: "set (dkeys (dset d k v)) = insert k (set (dkeys d))"
  by (induction d) auto

lemma dkeys_dset_present: "k \<in> set (dkeys d) \<Longrightarrow> dkeys (dset d k v) = dkeys d"
  by (induction d) auto

lemma length_dset_present: "k \<in> set (dkeys d) \<Longrightarrow> length (dset d k v) = length d"
  by (induction d) auto

lemma dwf_dupdate [intro]: "dwf d \<Longrightarrow> dwf (dupdate d e)"
  by (induction d e rule: dupdate.induct) auto

lemma dget_dupdate:
  "dwf e \<Longrightarrow> dget (dupdate d e) k = (case dget e k of None \<Rightarrow> dget d k | Some v \<Rightarrow> Some v)"
proof (induction d e rule: dupdate.induct)
  case (1 d)
  then show ?case by simp
next
  case (2 d k' v e)
  then have "dwf e" and nk: "dget e k' = None"
    by (auto simp: dwf_def map_of_eq_None_iff)
  with 2 show ?case by (auto split: option.splits)
qed

lemma dget_in_set: "dwf d \<Longrightarrow> (k, v) \<in> set d \<longleftrightarrow> dget d k = Some v"
  unfolding dwf_def by (auto dest: map_of_SomeD)

lemma set_dset_subset: "set (dset d k v) \<subseteq> insert (k, v) (set d)"
  by (induction d) auto

lemma in_dset_iff:
  "dwf d \<Longrightarrow> (k', v') \<in> set (dset d k v) \<longleftrightarrow> (if k' = k then v' = v else (k', v') \<in> set d)"
  by (auto simp: dget_in_set[symmetric] dget_in_set[OF dwf_dset])

lemma dwf_filter [intro]: "dwf d \<Longrightarrow> dwf (filter P d)"
  unfolding dwf_def by (rule distinct_map_filter)

lemma dget_filter:
  "dwf d \<Longrightarrow> dget (filter (\<lambda>(k, v). P k v) d) k =
     (case dget d k of None \<Rightarrow> None | Some v \<Rightarrow> if P k v then Some v else None)"
proof (induction d)
  case Nil
  then show ?case by simp
next
  case (Cons kv d)
  obtain k' v' where kv: "kv = (k', v')" by (cases kv)
  from Cons.prems have "dwf d" and "dget d k' = None"
    by (auto simp: dwf_def kv map_of_eq_None_iff)
  with Cons.IH show ?case by (auto simp: kv split: option.splits)
qed

end
