(* ===== verification/Exceptions.thy ===== *)
theory Exceptions
  imports Prelude
begin

text \<open>
  Exceptions as values. An exception carries its class, the fixed text of its
  message (the values a message interpolates are left out), and the attributes
  Gate reads or sets: \<open>node_name\<close>, which the dispatcher attaches, and
  \<open>direction\<close> of a security failure.

  \<open>supers\<close> lists the classes an exception of a class is an instance of. For
  Python's classes it is the language's hierarchy, for Gate's own the base class
  of each declaration, and for the classes of the node SDK and of pydantic the
  bases that the comments in \<open>api/errors.py\<close> and \<open>resilience/deadline.py\<close>
  rely on.
\<close>

datatype pyclass =
    BaseException
  | CancelledError
  | PyException
  | ValueError
  | TypeError
  | AssertionError
  | ZeroDivisionError
  | LookupError
  | KeyError
  | IndexError
  | RuntimeError
  | PermissionError
  | TimeoutError
  | SyntaxError
  | ValidationError
  | DeadlineExceeded
  | ActionOwnershipError
  | NoHealthyNodeError
  | NodeLimitExceededError
  | RateLimitExceededError
  | LoadShedError
  | BackpressureExceededError
  | CircuitBreakerOpenError
  | IngressValidationError
  | IngressAuthorizationError
  | RoutingPolicyError
  | CapabilityAuthorizationError
  | GateDispatchError
  | GateDispatchAuthorityError
  | GateDispatchConfigurationError
  | GateDispatchSecurityError
  | WorkerConnectionError
  | WorkerTimeoutError
  | WorkerResponseError
  | OtherException

fun supers :: "pyclass \<Rightarrow> pyclass list" where
  "supers BaseException = [BaseException]"
| "supers CancelledError = [CancelledError, BaseException]"
| "supers PyException = [PyException, BaseException]"
| "supers KeyError = [KeyError, LookupError, PyException, BaseException]"
| "supers IndexError = [IndexError, LookupError, PyException, BaseException]"
| "supers NoHealthyNodeError = [NoHealthyNodeError, LookupError, PyException, BaseException]"
| "supers ValidationError = [ValidationError, ValueError, PyException, BaseException]"
| "supers ActionOwnershipError = [ActionOwnershipError, ValueError, PyException, BaseException]"
| "supers DeadlineExceeded = [DeadlineExceeded, TimeoutError, PyException, BaseException]"
| "supers CapabilityAuthorizationError =
     [CapabilityAuthorizationError, PermissionError, PyException, BaseException]"
| "supers NodeLimitExceededError = [NodeLimitExceededError, RuntimeError, PyException, BaseException]"
| "supers RateLimitExceededError = [RateLimitExceededError, RuntimeError, PyException, BaseException]"
| "supers LoadShedError = [LoadShedError, RuntimeError, PyException, BaseException]"
| "supers BackpressureExceededError =
     [BackpressureExceededError, RuntimeError, PyException, BaseException]"
| "supers CircuitBreakerOpenError =
     [CircuitBreakerOpenError, RuntimeError, PyException, BaseException]"
| "supers GateDispatchAuthorityError =
     [GateDispatchAuthorityError, GateDispatchError, ValueError, PyException, BaseException]"
| "supers GateDispatchConfigurationError =
     [GateDispatchConfigurationError, GateDispatchError, ValueError, PyException, BaseException]"
| "supers GateDispatchSecurityError =
     [GateDispatchSecurityError, GateDispatchError, PyException, BaseException]"
| "supers WorkerConnectionError =
     [WorkerConnectionError, GateDispatchError, PyException, BaseException]"
| "supers WorkerTimeoutError =
     [WorkerTimeoutError, GateDispatchError, TimeoutError, PyException, BaseException]"
| "supers WorkerResponseError = [WorkerResponseError, GateDispatchError, PyException, BaseException]"
| "supers c = [c, PyException, BaseException]"

text \<open>\<open>exc.__class__.__name__\<close>; an unknown class is called \<open>Exception\<close>.\<close>

fun class_name :: "pyclass \<Rightarrow> string" where
  "class_name BaseException = ''BaseException''"
| "class_name CancelledError = ''CancelledError''"
| "class_name PyException = ''Exception''"
| "class_name ValueError = ''ValueError''"
| "class_name TypeError = ''TypeError''"
| "class_name AssertionError = ''AssertionError''"
| "class_name ZeroDivisionError = ''ZeroDivisionError''"
| "class_name LookupError = ''LookupError''"
| "class_name KeyError = ''KeyError''"
| "class_name IndexError = ''IndexError''"
| "class_name RuntimeError = ''RuntimeError''"
| "class_name PermissionError = ''PermissionError''"
| "class_name TimeoutError = ''TimeoutError''"
| "class_name SyntaxError = ''SyntaxError''"
| "class_name ValidationError = ''ValidationError''"
| "class_name DeadlineExceeded = ''DeadlineExceeded''"
| "class_name ActionOwnershipError = ''ActionOwnershipError''"
| "class_name NoHealthyNodeError = ''NoHealthyNodeError''"
| "class_name NodeLimitExceededError = ''NodeLimitExceededError''"
| "class_name RateLimitExceededError = ''RateLimitExceededError''"
| "class_name LoadShedError = ''LoadShedError''"
| "class_name BackpressureExceededError = ''BackpressureExceededError''"
| "class_name CircuitBreakerOpenError = ''CircuitBreakerOpenError''"
| "class_name IngressValidationError = ''IngressValidationError''"
| "class_name IngressAuthorizationError = ''IngressAuthorizationError''"
| "class_name RoutingPolicyError = ''RoutingPolicyError''"
| "class_name CapabilityAuthorizationError = ''CapabilityAuthorizationError''"
| "class_name GateDispatchError = ''GateDispatchError''"
| "class_name GateDispatchAuthorityError = ''GateDispatchAuthorityError''"
| "class_name GateDispatchConfigurationError = ''GateDispatchConfigurationError''"
| "class_name GateDispatchSecurityError = ''GateDispatchSecurityError''"
| "class_name WorkerConnectionError = ''WorkerConnectionError''"
| "class_name WorkerTimeoutError = ''WorkerTimeoutError''"
| "class_name WorkerResponseError = ''WorkerResponseError''"
| "class_name OtherException = ''Exception''"

record exn =
  exn_class :: pyclass
  exn_msg :: string
  exn_node :: "string option"
  exn_direction :: string

type_synonym 'a res = "exn + 'a"

definition mk_exn :: "pyclass \<Rightarrow> string \<Rightarrow> exn" where
  "mk_exn c m = \<lparr>exn_class = c, exn_msg = m, exn_node = None, exn_direction = []\<rparr>"

abbreviation raise :: "pyclass \<Rightarrow> string \<Rightarrow> 'a res" where
  "raise c m \<equiv> Inl (mk_exn c m)"

definition isinstance :: "exn \<Rightarrow> pyclass \<Rightarrow> bool" where
  "isinstance e c = List.member (supers (exn_class e)) c"

text \<open>\<open>except Exception\<close> catches everything but what derives from \<open>BaseException\<close> alone.\<close>

abbreviation is_exception :: "exn \<Rightarrow> bool" where
  "is_exception e \<equiv> isinstance e PyException"

lemma exn_class_mk [simp]: "exn_class (mk_exn c m) = c"
  by (simp add: mk_exn_def)

lemma exn_msg_mk [simp]: "exn_msg (mk_exn c m) = m"
  by (simp add: mk_exn_def)

lemma mk_exn_eq_iff [simp]: "mk_exn c m = mk_exn c' m' \<longleftrightarrow> c = c' \<and> m = m'"
  by (auto simp: mk_exn_def)

lemma isinstance_mk [simp]: "isinstance (mk_exn c m) d \<longleftrightarrow> d \<in> set (supers c)"
  by (simp add: isinstance_def)

lemma isinstance_self [simp]: "isinstance e (exn_class e)"
  by (cases "exn_class e") (simp_all add: isinstance_def)

lemma is_exception_iff:
  "is_exception e \<longleftrightarrow> exn_class e \<noteq> BaseException \<and> exn_class e \<noteq> CancelledError"
  by (cases "exn_class e") (simp_all add: isinstance_def)

text \<open>The listed bases are closed: an instance of a class is an instance of the class's bases.\<close>

lemma supers_trans: "d \<in> set (supers c) \<Longrightarrow> b \<in> set (supers d) \<Longrightarrow> b \<in> set (supers c)"
  by (cases c) auto

lemma isinstance_trans: "isinstance e d \<Longrightarrow> b \<in> set (supers d) \<Longrightarrow> isinstance e b"
  by (auto simp: isinstance_def dest: supers_trans)

end
