(* ===== verification/Ownership.thy ===== *)
theory Ownership
  imports Exceptions
begin

text \<open>
  Canonical action ownership, \<open>routing/action_ownership.py\<close>: the owner table, the
  aliases in the order the code scans them, and the check that registration runs.
\<close>

definition CANONICAL_ACTION_OWNERS :: "(string \<times> string) list" where
  "CANONICAL_ACTION_OWNERS =
     [(''match'', ''ceg''), (''sync'', ''ceg''), (''outcomes'', ''ceg''), (''resolve'', ''ceg''),
      (''converge'', ''eie''), (''graph-inference-result'', ''eie''), (''enrich'', ''eie''),
      (''enrich-and-sync'', ''eie'')]"

definition SEAM_ACTIONS :: "string list" where
  "SEAM_ACTIONS =
     [''converge'', ''enrich'', ''enrich-and-sync'', ''graph-inference-result'', ''match'', ''sync'',
      ''outcomes'']"

definition OWNER_ALIASES :: "(string \<times> string) list" where
  "OWNER_ALIASES =
     [(''ceg'', ''ceg''), (''cognitive'', ''ceg''), (''cognitive_engine_graphs'', ''ceg''),
      (''cognitive-engine-graphs'', ''ceg''), (''graph'', ''ceg''), (''graph-engine'', ''ceg''),
      (''eie'', ''eie''), (''enrich'', ''eie''), (''enrichment'', ''eie''),
      (''enrichment_inference_engine'', ''eie''), (''enrichment-inference-engine'', ''eie'')]"

text \<open>The loop over the aliases: the first one that occurs in the key.\<close>

fun alias_in :: "(string \<times> string) list \<Rightarrow> string \<Rightarrow> string option" where
  "alias_in [] key = None"
| "alias_in ((alias, owner) # rest) key = (if substr_in alias key then Some owner else alias_in rest key)"

definition normalize_owner :: "string option \<Rightarrow> bool \<Rightarrow> string option" where
  "normalize_owner value allow_unknown =
     (case value of
        None \<Rightarrow> None
      | Some v \<Rightarrow>
          let key = replace_char (CHR '' '') (CHR ''_'') (canon v)
          in if key = [] then None
             else (case dget OWNER_ALIASES key of
                     Some owner \<Rightarrow> Some owner
                   | None \<Rightarrow>
                       (case alias_in OWNER_ALIASES key of
                          Some owner \<Rightarrow> Some owner
                        | None \<Rightarrow> if allow_unknown then Some key else None)))"

definition owner_for_registration :: "string \<Rightarrow> (string \<times> string) list \<Rightarrow> string option" where
  "owner_for_registration node_name metadata =
     (if dhas metadata ''owner'' \<and> strip (opt_or (dget metadata ''owner'') []) \<noteq> []
      then normalize_owner (dget metadata ''owner'') True
      else normalize_owner (Some node_name) False)"

definition required_owner_for_action :: "string \<Rightarrow> string option" where
  "required_owner_for_action a = dget CANONICAL_ACTION_OWNERS (canon a)"

text \<open>The body of the inner loop: one action against one registered node.\<close>

definition check_against ::
  "string option \<Rightarrow> string option \<Rightarrow> string \<Rightarrow> string \<Rightarrow> (string \<times> string option) list \<Rightarrow>
     string \<times> string list \<Rightarrow> unit res" where
  "check_against claimant required normalized_node normalized_action existing_owners entry =
     (case entry of
        (other_node, other_actions) \<Rightarrow>
          if other_node = normalized_node then Inr ()
          else if normalized_action \<notin> set other_actions then Inr ()
          else
            (let other_owner = opt_or (dget existing_owners other_node) None
             in if required = None \<and> (claimant = None \<or> other_owner = None) then Inr ()
                else if claimant \<noteq> None \<and> other_owner \<noteq> None \<and> claimant \<noteq> other_owner
                then raise ActionOwnershipError ''action ownership collision''
                else if required \<noteq> None \<and> other_owner \<noteq> None \<and> other_owner \<noteq> required
                then raise ActionOwnershipError ''action ownership collision: not canonical owner''
                else Inr ()))"

definition check_action ::
  "string option \<Rightarrow> string \<Rightarrow> (string \<times> string list) list \<Rightarrow> (string \<times> string option) list \<Rightarrow>
     string \<Rightarrow> unit res" where
  "check_action claimant normalized_node existing existing_owners a =
     (let normalized_action = canon a; required = required_owner_for_action normalized_action
      in rbind
           (if required \<noteq> None
            then if claimant = None
                 then raise ActionOwnershipError ''canonical action requires metadata.owner''
                 else if claimant \<noteq> required
                 then raise ActionOwnershipError ''action is owned by another owner''
                 else Inr ()
            else Inr ())
           (\<lambda>_. rall (check_against claimant required normalized_node normalized_action existing_owners)
                  existing))"

definition assert_registration_ownership ::
  "string \<Rightarrow> string list \<Rightarrow> (string \<times> string) list \<Rightarrow> (string \<times> string list) list \<Rightarrow>
     (string \<times> string option) list \<Rightarrow> unit res" where
  "assert_registration_ownership node_name supported_actions metadata existing existing_owners =
     (let claimant = owner_for_registration node_name metadata; normalized_node = canon node_name
      in rall (check_action claimant normalized_node existing existing_owners) supported_actions)"

section \<open>When the check passes\<close>

lemma required_owner_canon [simp]:
  "required_owner_for_action (canon a) = required_owner_for_action a"
  by (simp add: required_owner_for_action_def)

lemma check_against_iff:
  assumes "required \<noteq> None \<Longrightarrow> claimant = required"
  shows "check_against claimant required nn na owners x = Inr () \<longleftrightarrow>
     fst x = nn \<or> na \<notin> set (snd x) \<or> claimant = None \<or> opt_or (dget owners (fst x)) None = None
       \<or> claimant = opt_or (dget owners (fst x)) None"
  using assms by (auto simp: check_against_def Let_def split_beta)

lemma check_action_iff:
  "check_action claimant nn existing owners a = Inr () \<longleftrightarrow>
     (required_owner_for_action a = None \<or> claimant = required_owner_for_action a) \<and>
     (\<forall>(other, acts) \<in> set existing. other = nn \<or> canon a \<notin> set acts \<or> claimant = None \<or>
        opt_or (dget owners other) None = None \<or> claimant = opt_or (dget owners other) None)"
proof (cases "required_owner_for_action a = None \<or> claimant = required_owner_for_action a")
  case True
  then have r: "required_owner_for_action a \<noteq> None \<Longrightarrow> claimant = required_owner_for_action a" by auto
  have "check_action claimant nn existing owners a = Inr () \<longleftrightarrow>
      rall (check_against claimant (required_owner_for_action a) nn (canon a) owners) existing = Inr ()"
    using True by (auto simp: check_action_def Let_def)
  with True show ?thesis by (simp add: rall_Inr_iff check_against_iff[OF r] split_beta)
next
  case False
  then show ?thesis by (auto simp: check_action_def Let_def rbind_Inr_iff)
qed

lemma ownership_check_iff:
  "assert_registration_ownership n acts md existing owners = Inr () \<longleftrightarrow>
     (\<forall>a \<in> set acts.
        (required_owner_for_action a = None \<or>
           owner_for_registration n md = required_owner_for_action a) \<and>
        (\<forall>(other, acts) \<in> set existing. other = canon n \<or> canon a \<notin> set acts \<or>
           owner_for_registration n md = None \<or> opt_or (dget owners other) None = None \<or>
           owner_for_registration n md = opt_or (dget owners other) None))"
  by (simp add: assert_registration_ownership_def Let_def rall_Inr_iff check_action_iff)

lemma ownership_check_class:
  assumes "assert_registration_ownership n acts md existing owners = Inl e"
  shows "exn_class e = ActionOwnershipError"
  using assms
  by (auto simp: assert_registration_ownership_def check_action_def check_against_def Let_def
      rbind_Inl_iff mk_exn_def dest!: rall_Inl split: if_splits)

end
