(* ===== verification/Py_Float.thy ===== *)
theory Py_Float
  imports Prelude
begin

text \<open>
  Python's \<open>float\<close>. A float is the rational number it denotes, and each
  arithmetic operation of the source is the exact operation followed by the
  rounding of IEEE 754 binary64: 53 significant bits, to nearest, ties to even.
  The exponent is unbounded: overflow, infinities, subnormal numbers and NaN are
  not modelled, and the seconds and milliseconds that Gate computes with stay
  far from them.

  The lemmas say what the components use of the rounding: it is monotone, it
  leaves integers up to \<open>2 ^ 53\<close> and its own results alone, and it moves a
  number by at most one part in \<open>2 ^ 53\<close>.
\<close>

type_synonym pyfloat = rat

section \<open>Definition\<close>

text \<open>The number of binary digits.\<close>

function nbits :: "int \<Rightarrow> int" where
  "nbits n = (if n \<le> 0 then 0 else 1 + nbits (n div 2))"
  by pat_completeness auto
termination
  by (relation "measure nat") auto

declare nbits.simps [simp del]

text \<open>The exponent of the leading binary digit of a positive rational.\<close>

definition binexp :: "rat \<Rightarrow> int" where
  "binexp x =
     (case quotient_of x of (n, d) \<Rightarrow>
        let k = nbits n - nbits d
        in if 2 powi k \<le> x then k else k - 1)"

text \<open>Round half to even.\<close>

definition rne :: "rat \<Rightarrow> int" where
  "rne y =
     (let f = \<lfloor>y\<rfloor>; r = y - of_int f
      in if r < 1 / 2 then f else if 1 / 2 < r then f + 1 else if even f then f else f + 1)"

definition rnd_pos :: "rat \<Rightarrow> rat" where
  "rnd_pos x = (let u = 2 powi (binexp x - 52) in of_int (rne (x / u)) * u)"

definition rnd :: "rat \<Rightarrow> pyfloat" where
  "rnd x = (if x = 0 then 0 else if 0 < x then rnd_pos x else - rnd_pos (- x))"

definition is_float :: "rat \<Rightarrow> bool" where
  "is_float x = (rnd x = x)"

definition fadd :: "pyfloat \<Rightarrow> pyfloat \<Rightarrow> pyfloat" where
  "fadd a b = rnd (a + b)"

definition fsub :: "pyfloat \<Rightarrow> pyfloat \<Rightarrow> pyfloat" where
  "fsub a b = rnd (a - b)"

definition fmul :: "pyfloat \<Rightarrow> pyfloat \<Rightarrow> pyfloat" where
  "fmul a b = rnd (a * b)"

definition fdiv :: "pyfloat \<Rightarrow> pyfloat \<Rightarrow> pyfloat" where
  "fdiv a b = rnd (a / b)"

text \<open>\<open>float(n)\<close>, and \<open>m / n\<close> on integers, which rounds the exact quotient once.\<close>

definition float_of_int :: "int \<Rightarrow> pyfloat" where
  "float_of_int n = rnd (of_int n)"

definition int_truediv :: "int \<Rightarrow> int \<Rightarrow> pyfloat" where
  "int_truediv m n = rnd (of_int m / of_int n)"

text \<open>\<open>int(x)\<close> truncates towards zero.\<close>

definition int_of_float :: "pyfloat \<Rightarrow> int" where
  "int_of_float x = (if 0 \<le> x then \<lfloor>x\<rfloor> else \<lceil>x\<rceil>)"

section \<open>The leading exponent\<close>

lemma nbits_nonneg: "0 \<le> nbits n"
proof (induction n rule: nbits.induct)
  case (1 n)
  then show ?case by (subst nbits.simps) auto
qed

lemma powi_pos [simp]: "0 < (2::rat) powi k"
  by (simp add: zero_less_power_int)

lemma powi_mono: "j \<le> k \<Longrightarrow> (2::rat) powi j \<le> 2 powi k"
  by (rule power_int_increasing) simp_all

lemma powi_add: "(2::rat) powi (j + k) = 2 powi j * 2 powi k"
  by (simp add: power_int_add)

lemma powi_diff: "(2::rat) powi (j - k) = 2 powi j / 2 powi k"
  by (simp add: power_int_diff)

lemma nbits_bounds:
  "0 < n \<Longrightarrow> (2::rat) powi (nbits n - 1) \<le> of_int n \<and> of_int n < (2::rat) powi nbits n"
proof (induction n rule: nbits.induct)
  case (1 n)
  then have eq: "nbits n = 1 + nbits (n div 2)" by (subst nbits.simps) simp
  show ?case
  proof (cases "n div 2 \<le> 0")
    case True
    with "1.prems" have "n = 1" by simp
    with eq True show ?thesis by (simp add: nbits.simps[of 0])
  next
    case False
    with "1.IH" "1.prems" have ih: "(2::rat) powi (nbits (n div 2) - 1) \<le> of_int (n div 2)"
        "of_int (n div 2) < (2::rat) powi nbits (n div 2)"
      by simp_all
    have nn: "0 \<le> nbits (n div 2)"
      using nbits_nonneg by blast
    have "(2::rat) powi nbits (n div 2) = of_int (2 ^ nat (nbits (n div 2)))"
      using nn by (simp add: power_int_def)
    with ih(2) have "n div 2 < 2 ^ nat (nbits (n div 2))"
      by (simp only: of_int_less_iff)
    then have "n < 2 * 2 ^ nat (nbits (n div 2))" by linarith
    then have "(of_int n :: rat) < of_int (2 * 2 ^ nat (nbits (n div 2)))"
      by (simp only: of_int_less_iff)
    moreover have "(2::rat) powi (1 + nbits (n div 2)) = of_int (2 * 2 ^ nat (nbits (n div 2)))"
      using nn by (simp add: power_int_def nat_add_distrib)
    moreover have "2 * of_int (n div 2) \<le> (of_int n :: rat)"
      by (metis of_int_le_iff of_int_mult of_int_numeral linorder_not_less mult.commute
          mult_div_mod_eq le_add_same_cancel1 pos_mod_sign zero_less_numeral)
    moreover have "(2::rat) powi nbits (n div 2) = 2 * 2 powi (nbits (n div 2) - 1)"
      using powi_add[of 1 "nbits (n div 2) - 1"] by simp
    ultimately show ?thesis using ih(1) by (simp add: eq)
  qed
qed

lemma binexp_bounds:
  assumes "0 < x"
  shows "2 powi binexp x \<le> x" and "x < 2 powi (binexp x + 1)"
proof -
  obtain n d where q: "quotient_of x = (n, d)" by (cases "quotient_of x")
  have d: "0 < d" by (rule quotient_of_denom_pos[OF q])
  have x: "x = of_int n / of_int d" by (rule quotient_of_div[OF q])
  with assms d have n: "0 < n" by (simp add: zero_less_divide_iff)
  define k where "k = nbits n - nbits d"
  have e: "binexp x = (if 2 powi k \<le> x then k else k - 1)"
    by (simp add: binexp_def q k_def Let_def)
  note N = nbits_bounds[OF n] and D = nbits_bounds[OF d]
  have "x < 2 powi nbits n / 2 powi (nbits d - 1)"
    unfolding x by (rule frac_less) (use N D n in simp_all)
  also have "\<dots> = 2 powi (k + 1)"
    unfolding k_def powi_diff[symmetric] by (simp add: algebra_simps)
  finally have up: "x < 2 powi (k + 1)" .
  have "2 powi (nbits n - 1) / 2 powi nbits d \<le> x"
    unfolding x by (rule frac_le) (use N D n d in simp_all)
  moreover have "(2::rat) powi (nbits n - 1) / 2 powi nbits d = 2 powi (k - 1)"
    unfolding k_def powi_diff[symmetric] by (simp add: algebra_simps)
  ultimately have lo: "2 powi (k - 1) \<le> x" by simp
  show "2 powi binexp x \<le> x" using lo by (simp add: e)
  show "x < 2 powi (binexp x + 1)" using up by (auto simp: e)
qed

lemma powi_less_cancel: "(2::rat) powi j < 2 powi k \<Longrightarrow> j < k"
  by (metis linorder_not_less powi_mono)

lemma binexp_unique:
  assumes "2 powi e \<le> x" "x < 2 powi (e + 1)"
  shows "binexp x = e"
proof -
  have x: "0 < x" using assms(1) powi_pos[of e] by linarith
  have "2 powi e < (2::rat) powi (binexp x + 1)" "2 powi binexp x < (2::rat) powi (e + 1)"
    using assms binexp_bounds[OF x] by linarith+
  then have "e < binexp x + 1" "binexp x < e + 1" by (auto dest: powi_less_cancel)
  then show ?thesis by simp
qed

lemma binexp_mono: "0 < x \<Longrightarrow> x \<le> y \<Longrightarrow> binexp x \<le> binexp y"
proof -
  assume "0 < x" "x \<le> y"
  then have "2 powi binexp x < (2::rat) powi (binexp y + 1)"
    using binexp_bounds[of x] binexp_bounds[of y] by linarith
  then show ?thesis by (auto dest: powi_less_cancel)
qed

section \<open>Round half to even\<close>

lemma rne_of_int [simp]: "rne (of_int n) = n"
  by (simp add: rne_def)

lemma rne_bounds: "\<lfloor>y\<rfloor> \<le> rne y" "rne y \<le> \<lfloor>y\<rfloor> + 1"
  by (auto simp: rne_def Let_def)

lemma rne_error: "\<bar>of_int (rne y) - y\<bar> \<le> 1 / 2"
proof -
  have "of_int \<lfloor>y\<rfloor> \<le> y" "y < of_int \<lfloor>y\<rfloor> + 1" by linarith+
  then show ?thesis
    unfolding abs_le_iff by (simp add: rne_def Let_def) linarith
qed

lemma rne_mono: "y \<le> z \<Longrightarrow> rne y \<le> rne z"
proof -
  assume le: "y \<le> z"
  show ?thesis
  proof (cases "\<lfloor>y\<rfloor> = \<lfloor>z\<rfloor>")
    case True
    with le show ?thesis by (auto simp: rne_def Let_def)
  next
    case False
    with floor_mono[OF le] have "\<lfloor>y\<rfloor> + 1 \<le> \<lfloor>z\<rfloor>" by linarith
    with rne_bounds(2)[of y] rne_bounds(1)[of z] show ?thesis by linarith
  qed
qed

section \<open>The rounding of positive numbers\<close>

lemma scaled_bounds:
  assumes "0 < x"
  shows "2 ^ 52 \<le> x / 2 powi (binexp x - 52)" and "x / 2 powi (binexp x - 52) < 2 ^ 53"
proof -
  have p: "(2::rat) powi binexp x = 2 ^ 52 * 2 powi (binexp x - 52)"
    using powi_add[of 52 "binexp x - 52"] by simp
  have q: "(2::rat) powi (binexp x + 1) = 2 ^ 53 * 2 powi (binexp x - 52)"
    using powi_add[of 53 "binexp x - 52"] by (simp add: algebra_simps)
  show "2 ^ 52 \<le> x / 2 powi (binexp x - 52)"
    using binexp_bounds(1)[OF assms] by (simp only: pos_le_divide_eq[OF powi_pos] p)
  show "x / 2 powi (binexp x - 52) < 2 ^ 53"
    using binexp_bounds(2)[OF assms] by (simp only: pos_divide_less_eq[OF powi_pos] q)
qed

lemma rnd_pos_bounds:
  assumes "0 < x"
  shows "2 powi binexp x \<le> rnd_pos x" and "rnd_pos x \<le> 2 powi (binexp x + 1)"
proof -
  let ?u = "(2::rat) powi (binexp x - 52)" and ?y = "x / 2 powi (binexp x - 52)"
  have "of_int (2 ^ 52) \<le> ?y" "?y \<le> of_int (2 ^ 53)"
    using scaled_bounds[OF assms] by simp_all
  then have "rne (of_int (2 ^ 52)) \<le> rne ?y" "rne ?y \<le> rne (of_int (2 ^ 53))"
    by (simp_all only: rne_mono)
  then have m: "2 ^ 52 \<le> rne ?y" "rne ?y \<le> 2 ^ 53" by (simp_all only: rne_of_int)
  have "of_int (2 ^ 52) * ?u \<le> of_int (rne ?y) * ?u" "of_int (rne ?y) * ?u \<le> of_int (2 ^ 53) * ?u"
    using m by (simp_all only: of_int_le_iff mult_le_cancel_right_pos[OF powi_pos])
  moreover have "(2::rat) powi binexp x = 2 ^ 52 * ?u" "(2::rat) powi (binexp x + 1) = 2 ^ 53 * ?u"
    using powi_add[of 52 "binexp x - 52"] powi_add[of 53 "binexp x - 52"]
    by (simp_all add: algebra_simps)
  ultimately show "2 powi binexp x \<le> rnd_pos x" "rnd_pos x \<le> 2 powi (binexp x + 1)"
    by (simp_all add: rnd_pos_def Let_def)
qed

lemma rnd_pos_mono:
  assumes "0 < x" "x \<le> y"
  shows "rnd_pos x \<le> rnd_pos y"
proof (cases "binexp x = binexp y")
  case True
  let ?u = "(2::rat) powi (binexp y - 52)"
  have "rne (x / ?u) \<le> rne (y / ?u)"
    using assms by (intro rne_mono divide_right_mono) simp_all
  then show ?thesis
    by (simp add: rnd_pos_def True Let_def mult_right_mono)
next
  case False
  with binexp_mono[OF assms] have "binexp x + 1 \<le> binexp y" by simp
  then have "(2::rat) powi (binexp x + 1) \<le> 2 powi binexp y" by (rule powi_mono)
  with rnd_pos_bounds(2)[OF assms(1)] rnd_pos_bounds(1)[of y] assms show ?thesis by linarith
qed

lemma rnd_pos_pos: "0 < x \<Longrightarrow> 0 < rnd_pos x"
  using rnd_pos_bounds(1)[of x] powi_pos[of "binexp x"] by linarith

lemma rnd_pos_error:
  assumes "0 < x"
  shows "\<bar>rnd_pos x - x\<bar> \<le> x / 2 ^ 53"
proof -
  let ?u = "(2::rat) powi (binexp x - 52)" and ?y = "x / 2 powi (binexp x - 52)"
  have xu: "x = ?y * ?u" by simp
  have "rnd_pos x - x = (of_int (rne ?y) - ?y) * ?u"
    by (simp add: rnd_pos_def Let_def left_diff_distrib)
  then have "\<bar>rnd_pos x - x\<bar> = \<bar>of_int (rne ?y) - ?y\<bar> * ?u"
    by (simp add: abs_mult)
  also have "\<dots> \<le> 1 / 2 * ?u"
    using rne_error[of ?y] by (intro mult_right_mono) (auto intro: less_imp_le)
  also have "\<dots> = 2 ^ 52 * ?u / 2 ^ 53" by simp
  also have "\<dots> \<le> x / 2 ^ 53"
    using mult_right_mono[OF scaled_bounds(1)[OF assms], of ?u]
    by (intro divide_right_mono) (auto intro: less_imp_le)
  finally show ?thesis .
qed

lemma rnd_pos_exact:
  assumes "x = of_int m * 2 powi k" "0 < m" "m \<le> 2 ^ 53"
  shows "rnd_pos x = x"
proof -
  have x: "0 < x" using assms(1,2) by simp
  have "x \<le> 2 powi (k + 53)"
    using assms(3) powi_add[of k 53] unfolding assms(1)
    by (simp add: mult.commute)
  then have "(2::rat) powi binexp x \<le> 2 powi (k + 53)"
    using binexp_bounds(1)[OF x] by linarith
  then have le: "binexp x \<le> k + 53"
    by (metis leI power_int_strict_increasing one_less_numeral_iff semiring_norm(76) not_le)
  obtain z :: int where z: "x / 2 powi (binexp x - 52) = of_int z"
  proof (cases "binexp x = k + 53")
    case True
    with \<open>x \<le> 2 powi (k + 53)\<close> binexp_bounds(1)[OF x] have "x = 2 powi (k + 53)" by simp
    moreover have "(2::rat) powi (k + 53) = 2 ^ 52 * 2 powi (k + 53 - 52)"
      using powi_add[of 52 "k + 53 - 52"] by (simp add: add.commute)
    ultimately have "x / 2 powi (binexp x - 52) = of_int (2 ^ 52)" using True by simp
    then show ?thesis by (rule that)
  next
    case False
    with le have "0 \<le> k - (binexp x - 52)" by simp
    then obtain j where j: "k = (binexp x - 52) + int j"
      by (metis add_diff_cancel_left' nonneg_int_cases diff_add_cancel add.commute)
    have "x / 2 powi (binexp x - 52) = of_int (m * 2 ^ j)"
      unfolding assms(1)[symmetric] by (subst assms(1), subst j) (simp add: powi_add)
    then show ?thesis by (rule that)
  qed
  have "rnd_pos x = of_int z * 2 powi (binexp x - 52)"
    by (simp add: rnd_pos_def Let_def z)
  also have "\<dots> = x" unfolding z[symmetric] by simp
  finally show ?thesis .
qed

section \<open>The rounding\<close>

lemma rnd_0 [simp]: "rnd 0 = 0"
  by (simp add: rnd_def)

lemma rnd_minus: "rnd (- x) = - rnd x"
  by (simp add: rnd_def)

lemma rnd_nonneg [intro]: "0 \<le> x \<Longrightarrow> 0 \<le> rnd x"
  using rnd_pos_pos[of x] by (auto simp: rnd_def)

lemma rnd_pos_iff [simp]: "0 < rnd x \<longleftrightarrow> 0 < x"
  using rnd_pos_pos[of x] rnd_pos_pos[of "- x"] by (auto simp: rnd_def)

lemma rnd_mono: "x \<le> y \<Longrightarrow> rnd x \<le> rnd y"
proof -
  assume le: "x \<le> y"
  consider "0 < x" | "x \<le> 0" "0 \<le> y" | "y < 0" by linarith
  then show ?thesis
  proof cases
    case 1
    with le show ?thesis by (simp add: rnd_def rnd_pos_mono)
  next
    case 2
    then have "rnd x \<le> 0" "0 \<le> rnd y"
      using rnd_nonneg[of "- x"] by (auto simp: rnd_minus)
    then show ?thesis by linarith
  next
    case 3
    with le show ?thesis by (simp add: rnd_def rnd_pos_mono)
  qed
qed

lemma rnd_error: "\<bar>rnd x - x\<bar> \<le> \<bar>x\<bar> / 2 ^ 53"
proof (cases "0 \<le> x")
  case True
  then show ?thesis using rnd_pos_error[of x] by (cases "x = 0") (auto simp: rnd_def)
next
  case False
  then have "\<bar>rnd_pos (- x) - (- x)\<bar> \<le> - x / 2 ^ 53" using rnd_pos_error[of "- x"] by simp
  with False show ?thesis by (simp add: rnd_def abs_minus_commute)
qed

lemma is_float_of_int: "\<bar>n\<bar> \<le> 2 ^ 53 \<Longrightarrow> is_float (of_int n)"
  unfolding is_float_def rnd_def
  using rnd_pos_exact[of "of_int n" n 0] rnd_pos_exact[of "- of_int n" "- n" 0] by auto

lemma rnd_of_int [simp]: "\<bar>n\<bar> \<le> 2 ^ 53 \<Longrightarrow> rnd (of_int n) = of_int n"
  using is_float_of_int[of n] by (simp add: is_float_def)

lemma rnd_numeral [simp]: "(numeral k :: int) \<le> 2 ^ 53 \<Longrightarrow> rnd (numeral k) = numeral k"
  using rnd_of_int[of "numeral k"] by simp

lemma rnd_1 [simp]: "rnd 1 = 1"
  using rnd_of_int[of 1] by simp

lemma rnd_pos_float: "0 < x \<Longrightarrow> rnd_pos (rnd_pos x) = rnd_pos x"
proof -
  assume x: "0 < x"
  let ?y = "x / 2 powi (binexp x - 52)"
  have "?y \<le> of_int (2 ^ 53)" using scaled_bounds(2)[OF x] by simp
  then have "rne ?y \<le> 2 ^ 53" by (metis rne_mono rne_of_int)
  moreover have "of_int (2 ^ 52) \<le> ?y" using scaled_bounds(1)[OF x] by simp
  then have "2 ^ 52 \<le> rne ?y" by (metis rne_mono rne_of_int)
  ultimately show ?thesis
    by (intro rnd_pos_exact[of _ "rne ?y" "binexp x - 52"]) (simp_all add: rnd_pos_def Let_def)
qed

lemma rnd_idem [simp]: "rnd (rnd x) = rnd x"
  using rnd_pos_pos[of x] rnd_pos_pos[of "- x"]
  by (auto simp: rnd_def rnd_pos_float)

lemma is_float_rnd [simp]: "is_float (rnd x)"
  by (simp add: is_float_def)

lemma rnd_le_float: "is_float y \<Longrightarrow> x \<le> y \<Longrightarrow> rnd x \<le> y"
  using rnd_mono[of x y] by (simp add: is_float_def)

lemma float_le_rnd: "is_float x \<Longrightarrow> x \<le> y \<Longrightarrow> x \<le> rnd y"
  using rnd_mono[of x y] by (simp add: is_float_def)

lemma is_float_0 [simp]: "is_float 0"
  by (simp add: is_float_def)

lemma is_float_max [simp]: "is_float a \<Longrightarrow> is_float b \<Longrightarrow> is_float (max a b)"
  by (simp add: max_def)

lemma is_float_min [simp]: "is_float a \<Longrightarrow> is_float b \<Longrightarrow> is_float (min a b)"
  by (simp add: min_def)

lemma is_float_ops [simp]:
  "is_float (fadd a b)" "is_float (fsub a b)" "is_float (fmul a b)" "is_float (fdiv a b)"
  "is_float (float_of_int n)" "is_float (int_truediv m n)"
  by (simp_all add: fadd_def fsub_def fmul_def fdiv_def float_of_int_def int_truediv_def)

lemma fsub_nonneg_iff [simp]: "0 \<le> fsub a b \<longleftrightarrow> b \<le> a"
proof
  assume "0 \<le> fsub a b"
  then show "b \<le> a" using rnd_pos_iff[of "b - a"] rnd_minus[of "a - b"] by (fastforce simp: fsub_def)
next
  assume "b \<le> a"
  then show "0 \<le> fsub a b" by (auto simp: fsub_def)
qed

lemma fsub_pos_iff [simp]: "0 < fsub a b \<longleftrightarrow> b < a"
  by (simp add: fsub_def)

lemma fsub_mono: "a \<le> a' \<Longrightarrow> b' \<le> b \<Longrightarrow> fsub a b \<le> fsub a' b'"
  unfolding fsub_def by (rule rnd_mono) linarith

end
