(* ===== verification/Packet.thy ===== *)
theory Packet
  imports Exceptions Py_Float
begin

text \<open>
  The data Gate routes. \<open>TransportPacket\<close> belongs to the node SDK; the records
  here have the fields of \<open>contracts/transport-packet.schema.json\<close> that Gate's
  source reads or writes, and carry the rest as opaque values. What the SDK does
  with a packet (deriving a child, appending a hop, validating, signing) is not
  under \<open>src/\<close>: it is the record \<open>sdk\<close> of functions, a parameter of every
  definition that calls it, and \<open>derives_ok\<close> and \<open>hops_ok\<close> state the
  documented behaviour that some properties rely on.
\<close>

section \<open>Python values\<close>

datatype pyval =
    PyNone
  | PyBool bool
  | PyInt int
  | PyFloat rat
  | PyStr string
  | PyList "pyval list"
  | PyTuple "pyval list"
  | PyDict "(pyval \<times> pyval) list"

type_synonym payload = "(string \<times> pyval) list"

section \<open>Packets\<close>

record header =
  packet_id :: string
  packet_type :: string
  action :: string
  priority :: int
  created_at :: string
  timeout_ms :: "int option"
  idempotency_key :: "string option"
  trace_id :: "string option"
  correlation_id :: "string option"
  replay_mode :: bool

record address =
  source_node :: string
  destination_node :: string
  reply_to :: string

record tenant =
  org_id :: string
  tenant_rest :: pyval

record security =
  payload_hash :: string
  transport_hash :: string
  signature :: "string option"
  signature_algorithm :: "string option"
  signing_key_id :: "string option"

record provenance =
  origin_kind :: string
  requested_action :: string
  resolved_by_gate :: bool
  original_source_node :: "string option"
  route_kind :: "string option"

record hop =
  hop_node :: string
  hop_action :: string
  direction :: string
  status :: string
  hop_target :: "string option"

record lineage =
  root_id :: string
  parent_id :: "string option"
  generation :: int

record packet =
  header :: header
  address :: address
  tenant :: tenant
  payload :: payload
  security :: security
  governance :: pyval
  provenance :: provenance
  delegation_chain :: pyval
  hop_trace :: "hop list"
  lineage :: lineage
  attachments :: pyval

text \<open>The keyword arguments of \<open>TransportPacket.derive\<close> that Gate passes.\<close>

record derive_args =
  da_packet_type :: "string option"
  da_action :: "string option"
  da_source_node :: "string option"
  da_destination_node :: "string option"
  da_reply_to :: "string option"
  da_payload :: "payload option"
  da_timeout_ms :: "int option"
  da_provenance :: "provenance option"

definition no_args :: derive_args where
  "no_args = \<lparr>da_packet_type = None, da_action = None, da_source_node = None,
     da_destination_node = None, da_reply_to = None, da_payload = None,
     da_timeout_ms = None, da_provenance = None\<rparr>"

section \<open>The node SDK\<close>

record sdk =
  sdk_model_validate :: "pyval \<Rightarrow> packet res"
  sdk_dump :: "packet \<Rightarrow> pyval"
  sdk_construct :: "packet \<Rightarrow> packet res"
  sdk_derive :: "packet \<Rightarrow> derive_args \<Rightarrow> packet res"
  sdk_with_hop :: "packet \<Rightarrow> hop \<Rightarrow> packet res"
  sdk_make_ingress_hop :: "packet \<Rightarrow> string \<Rightarrow> string \<Rightarrow> string \<Rightarrow> hop"
  sdk_make_dispatch_hop :: "packet \<Rightarrow> string \<Rightarrow> string \<Rightarrow> string \<Rightarrow> string \<Rightarrow> hop"
  sdk_compute_transport_hash :: "packet \<Rightarrow> string"
  sdk_sign :: "packet \<Rightarrow> string \<Rightarrow> string \<Rightarrow> string \<Rightarrow> packet res"

text \<open>
  What \<open>derive\<close> documents: the arguments given replace the parent's values, the
  rest is inherited; node names are normalized; the tenant and the idempotency
  key are the parent's; the child starts an empty hop trace, is unsigned, and
  continues the lineage of its parent.
\<close>

definition derived_from :: "packet \<Rightarrow> derive_args \<Rightarrow> packet \<Rightarrow> bool" where
  "derived_from p a q =
     (address q = \<lparr>source_node = canon (str_or (da_source_node a) (source_node (address p))),
        destination_node = canon (str_or (da_destination_node a) (destination_node (address p))),
        reply_to = canon (str_or (da_reply_to a) (reply_to (address p)))\<rparr> \<and>
      action (header q) = str_or (da_action a) (action (header p)) \<and>
      packet_type (header q) = str_or (da_packet_type a) (packet_type (header p)) \<and>
      timeout_ms (header q) =
        (case da_timeout_ms a of None \<Rightarrow> timeout_ms (header p) | Some t \<Rightarrow> Some t) \<and>
      idempotency_key (header q) = idempotency_key (header p) \<and>
      replay_mode (header q) = replay_mode (header p) \<and>
      payload q = opt_or (da_payload a) (payload p) \<and>
      provenance q = opt_or (da_provenance a) (provenance p) \<and>
      tenant q = tenant p \<and> hop_trace q = [] \<and> signature (security q) = None \<and>
      root_id (lineage q) = root_id (lineage p) \<and>
      parent_id (lineage q) = Some (packet_id (header p)) \<and>
      generation (lineage q) = generation (lineage p) + 1)"

definition derives_ok :: "sdk \<Rightarrow> bool" where
  "derives_ok S = (\<forall>p a q. sdk_derive S p a = Inr q \<longrightarrow> derived_from p a q)"

text \<open>\<open>with_hop\<close> appends to the journal and renews the hashes; nothing else changes.\<close>

definition same_core :: "packet \<Rightarrow> packet \<Rightarrow> bool" where
  "same_core p q =
     (header q = header p \<and> address q = address p \<and> tenant q = tenant p \<and>
      payload q = payload p \<and> provenance q = provenance p \<and> lineage q = lineage p)"

definition hops_ok :: "sdk \<Rightarrow> bool" where
  "hops_ok S = (\<forall>p h q. sdk_with_hop S p h = Inr q \<longrightarrow>
     same_core p q \<and> hop_trace q = hop_trace p @ [h])"

text \<open>Constructing a packet validates its fields and keeps them.\<close>

definition constructs_ok :: "sdk \<Rightarrow> bool" where
  "constructs_ok S = (\<forall>p q. sdk_construct S p = Inr q \<longrightarrow> q = p)"

text \<open>
  A derived packet carries the transport hash of its own content, and the hash
  covers the header, its \<open>replay_mode\<close> included.
\<close>

definition hash_covers_replay_mode :: "sdk \<Rightarrow> bool" where
  "hash_covers_replay_mode S =
     ((\<forall>p a q. sdk_derive S p a = Inr q \<longrightarrow>
         transport_hash (security q) = sdk_compute_transport_hash S q) \<and>
      (\<forall>p q. replay_mode (header p) \<noteq> replay_mode (header q) \<longrightarrow>
         sdk_compute_transport_hash S p \<noteq> sdk_compute_transport_hash S q))"

lemma derives_okD: "derives_ok S \<Longrightarrow> sdk_derive S p a = Inr q \<Longrightarrow> derived_from p a q"
  by (simp add: derives_ok_def)

lemma constructs_okD: "constructs_ok S \<Longrightarrow> sdk_construct S p = Inr q \<Longrightarrow> q = p"
  by (simp add: constructs_ok_def)

lemma hops_okD:
  "hops_ok S \<Longrightarrow> sdk_with_hop S p h = Inr q \<Longrightarrow> same_core p q"
  "hops_ok S \<Longrightarrow> sdk_with_hop S p h = Inr q \<Longrightarrow> hop_trace q = hop_trace p @ [h]"
  by (simp_all add: hops_ok_def)

section \<open>A reference SDK\<close>

text \<open>
  A concrete instance of the parameter that has the documented behaviour, for
  the examples that evaluate the model: the packet ids are a counter in unary,
  the hash is one bit of the header.
\<close>

definition ref_hash :: "packet \<Rightarrow> string" where
  "ref_hash p = (if replay_mode (header p) then ''1'' else ''0'')"

definition ref_derive :: "packet \<Rightarrow> derive_args \<Rightarrow> packet res" where
  "ref_derive p a = Inr (p\<lparr>
     header := (header p)\<lparr>packet_id := packet_id (header p) @ ''i'',
       packet_type := str_or (da_packet_type a) (packet_type (header p)),
       action := str_or (da_action a) (action (header p)),
       timeout_ms := (case da_timeout_ms a of None \<Rightarrow> timeout_ms (header p) | Some t \<Rightarrow> Some t)\<rparr>,
     address := \<lparr>source_node = canon (str_or (da_source_node a) (source_node (address p))),
       destination_node = canon (str_or (da_destination_node a) (destination_node (address p))),
       reply_to = canon (str_or (da_reply_to a) (reply_to (address p)))\<rparr>,
     payload := opt_or (da_payload a) (payload p),
     security := (security p)\<lparr>transport_hash := ref_hash p, signature := None,
       signature_algorithm := None, signing_key_id := None\<rparr>,
     provenance := opt_or (da_provenance a) (provenance p),
     hop_trace := [],
     lineage := \<lparr>root_id = root_id (lineage p), parent_id = Some (packet_id (header p)),
       generation = generation (lineage p) + 1\<rparr>\<rparr>)"

definition ref_sdk :: "(pyval \<Rightarrow> packet res) \<Rightarrow> sdk" where
  "ref_sdk decode =
     \<lparr>sdk_model_validate = decode,
      sdk_dump = (\<lambda>p. PyStr (packet_id (header p))),
      sdk_construct = Inr,
      sdk_derive = ref_derive,
      sdk_with_hop = (\<lambda>p h. Inr (p\<lparr>hop_trace := hop_trace p @ [h]\<rparr>)),
      sdk_make_ingress_hop = (\<lambda>p n a s. \<lparr>hop_node = n, hop_action = a,
        direction = ''ingress'', status = s, hop_target = None\<rparr>),
      sdk_make_dispatch_hop = (\<lambda>p n a t s. \<lparr>hop_node = n, hop_action = a,
        direction = ''dispatch'', status = s, hop_target = Some t\<rparr>),
      sdk_compute_transport_hash = ref_hash,
      sdk_sign = (\<lambda>p k i al. Inr (p\<lparr>security := (security p)\<lparr>signature := Some k,
        signature_algorithm := Some al, signing_key_id := Some i\<rparr>\<rparr>))\<rparr>"

lemma ref_sdk_sel [simp]:
  "sdk_model_validate (ref_sdk f) = f"
  "sdk_derive (ref_sdk f) = ref_derive"
  "sdk_construct (ref_sdk f) = Inr"
  by (simp_all add: ref_sdk_def)

lemma ref_sdk_derives_ok [simp]: "derives_ok (ref_sdk f)"
  by (auto simp: derives_ok_def derived_from_def ref_derive_def)

lemma ref_sdk_hops_ok [simp]: "hops_ok (ref_sdk f)"
  by (auto simp: hops_ok_def same_core_def ref_sdk_def)

lemma ref_sdk_hash [simp]: "hash_covers_replay_mode (ref_sdk f)"
  by (auto simp: hash_covers_replay_mode_def ref_derive_def ref_sdk_def ref_hash_def)

lemma ref_sdk_constructs_ok [simp]: "constructs_ok (ref_sdk f)"
  by (simp add: constructs_ok_def)

text \<open>A client's request for an action, for the examples.\<close>

definition example_packet :: "string \<Rightarrow> packet" where
  "example_packet a =
     \<lparr>header = \<lparr>packet_id = ''p'', packet_type = ''request'', action = a, priority = 2,
        created_at = ''t0'', timeout_ms = Some 30000, idempotency_key = Some ''k'',
        trace_id = None, correlation_id = None, replay_mode = False\<rparr>,
      address = \<lparr>source_node = ''client'', destination_node = ''gate'', reply_to = ''client''\<rparr>,
      tenant = \<lparr>org_id = ''acme'', tenant_rest = PyNone\<rparr>,
      payload = [(''x'', PyInt 1)],
      security = \<lparr>payload_hash = ''h'', transport_hash = ''h'', signature = None,
        signature_algorithm = None, signing_key_id = None\<rparr>,
      governance = PyNone,
      provenance = \<lparr>origin_kind = ''client'', requested_action = a, resolved_by_gate = False,
        original_source_node = None, route_kind = None\<rparr>,
      delegation_chain = PyNone, hop_trace = [],
      lineage = \<lparr>root_id = ''p'', parent_id = None, generation = 0\<rparr>,
      attachments = PyNone\<rparr>"

end
