(* ===== verification/Concurrency_Limit.thy ===== *)
theory Concurrency_Limit
  imports Exceptions
begin

text \<open>
  The interface of a counter per node with a cap, which the node registry
  (\<open>increment_active\<close>, \<open>decrement_active\<close>) and the per-node limiter (\<open>acquire\<close>,
  \<open>release\<close>) both provide to the dispatcher: taking a permit below the cap counts
  it, taking one at the cap raises and changes nothing, giving one back subtracts
  it and never goes below zero.
\<close>

datatype 'k permit_op = Acquire 'k | Release 'k

locale concurrency_limit =
  fixes inuse :: "'s \<Rightarrow> 'k \<Rightarrow> int option"
    and cap :: "'s \<Rightarrow> 'k \<Rightarrow> int option"
    and key :: "'k \<Rightarrow> 'k"
    and acquire :: "'s \<Rightarrow> 'k \<Rightarrow> 's \<times> unit res"
    and release :: "'s \<Rightarrow> 'k \<Rightarrow> 's \<times> unit res"
  assumes acquire_ok: "inuse s (key k) = Some n \<Longrightarrow> cap s (key k) = Some c \<Longrightarrow> n < c \<Longrightarrow>
      snd (acquire s k) = Inr () \<and> inuse (fst (acquire s k)) = (inuse s)(key k \<mapsto> n + 1)
        \<and> cap (fst (acquire s k)) = cap s"
    and acquire_full: "inuse s (key k) = Some n \<Longrightarrow> cap s (key k) = Some c \<Longrightarrow> c \<le> n \<Longrightarrow>
      fst (acquire s k) = s \<and> snd (acquire s k) \<noteq> Inr ()"
    and acquire_unknown: "inuse s (key k) = None \<or> cap s (key k) = None \<Longrightarrow>
      fst (acquire s k) = s \<and> snd (acquire s k) \<noteq> Inr ()"
    and release_ok: "inuse s (key k) = Some n \<Longrightarrow>
      snd (release s k) = Inr () \<and> inuse (fst (release s k)) = (inuse s)(key k \<mapsto> max 0 (n - 1))
        \<and> cap (fst (release s k)) = cap s"
    and release_unknown: "inuse s (key k) = None \<Longrightarrow>
      fst (release s k) = s \<and> snd (release s k) \<noteq> Inr ()"
begin

fun apply_op :: "'s \<Rightarrow> 'k permit_op \<Rightarrow> 's \<times> unit res" where
  "apply_op s (Acquire k) = acquire s k"
| "apply_op s (Release k) = release s k"

definition within_cap :: "'s \<Rightarrow> bool" where
  "within_cap s \<longleftrightarrow> (\<forall>k n c. inuse s k = Some n \<longrightarrow> cap s k = Some c \<longrightarrow> 0 \<le> n \<and> n \<le> c)"

lemma acquire_cases:
  obtains (granted) n c where "inuse s (key k) = Some n" "cap s (key k) = Some c" "n < c"
      "snd (acquire s k) = Inr ()" "inuse (fst (acquire s k)) = (inuse s)(key k \<mapsto> n + 1)"
      "cap (fst (acquire s k)) = cap s"
    | (refused) "fst (acquire s k) = s" "snd (acquire s k) \<noteq> Inr ()"
proof (cases "inuse s (key k)")
  case None
  then show ?thesis using refused acquire_unknown by blast
next
  case (Some n)
  show ?thesis
  proof (cases "cap s (key k)")
    case None
    then show ?thesis using refused acquire_unknown by blast
  next
    case (Some c)
    then show ?thesis
      using granted refused acquire_ok acquire_full \<open>inuse s (key k) = Some n\<close> by (meson not_le)
  qed
qed

lemma release_cases:
  obtains (known) n where "inuse s (key k) = Some n" "snd (release s k) = Inr ()"
      "inuse (fst (release s k)) = (inuse s)(key k \<mapsto> max 0 (n - 1))" "cap (fst (release s k)) = cap s"
    | (refused) "inuse s (key k) = None" "fst (release s k) = s" "snd (release s k) \<noteq> Inr ()"
  using release_ok release_unknown by (cases "inuse s (key k)") blast+

lemma within_cap_acquire: "within_cap s \<Longrightarrow> within_cap (fst (acquire s k))"
  by (cases rule: acquire_cases[of s k]) (auto simp: within_cap_def)

lemma within_cap_release: "within_cap s \<Longrightarrow> within_cap (fst (release s k))"
  by (cases rule: release_cases[of s k]) (fastforce simp: within_cap_def)+

lemma within_cap_step: "within_cap s \<Longrightarrow> within_cap (fst (apply_op s x))"
  by (cases x) (simp_all add: within_cap_acquire within_cap_release)

text \<open>No history of takings and givings back leaves the range from zero to the cap.\<close>

lemma within_cap_run: "within_cap s \<Longrightarrow> within_cap (foldl (\<lambda>s x. fst (apply_op s x)) s ops)"
  by (induction ops arbitrary: s) (simp_all add: within_cap_step)

lemma cap_step: "cap (fst (apply_op s x)) = cap s"
proof (cases x)
  case (Acquire k)
  then show ?thesis by (cases rule: acquire_cases[of s k]) simp_all
next
  case (Release k)
  then show ?thesis by (cases rule: release_cases[of s k]) simp_all
qed

text \<open>Giving back what was just taken restores the counters.\<close>

lemma acquire_release:
  assumes "snd (acquire s k) = Inr ()" and "\<forall>n. inuse s (key k) = Some n \<longrightarrow> 0 \<le> n"
  shows "inuse (fst (release (fst (acquire s k)) k)) = inuse s"
proof (cases rule: acquire_cases[of s k])
  case (granted n c)
  then have "inuse (fst (acquire s k)) (key k) = Some (n + 1)" by simp
  from release_ok[OF this] granted assms(2) show ?thesis by (auto intro!: ext)
next
  case refused
  with assms(1) show ?thesis by simp
qed

end

end
