(* ===== verification/Registry.thy ===== *)
theory Registry
  imports Ownership Packet Concurrency_Limit "HOL-Library.Product_Lexorder"
begin

text \<open>
  The node registry, \<open>routing/node_registry.py\<close> and \<open>schemas/registry.py\<close>: the
  validated registration of a worker node, the table of nodes by name, its
  registration and loading, the resolution of an action or a destination to a
  healthy node, and the health and load of every node.
\<close>

section \<open>Registrations\<close>

definition ADMISSION_ACTION :: string where
  "ADMISSION_ACTION = ''gate.admission''"

record node =
  node_name :: string
  internal_url :: string
  supported_actions :: "string list"
  priority_class :: string
  max_concurrent :: int
  health_endpoint :: string
  node_timeout_ms :: int
  node_metadata :: "(string \<times> string) list"
  healthy :: bool
  active_requests :: int

definition validate_node_name :: "string \<Rightarrow> string res" where
  "validate_node_name v =
     (let normalized = canon v
      in if normalized = [] then raise ValueError ''node_name must not be empty'' else Inr normalized)"

definition validate_internal_url :: "string \<Rightarrow> string res" where
  "validate_internal_url v =
     (let normalized = rstrip_with (\<lambda>c. c = CHR ''/'') (strip v)
      in if normalized = [] then raise ValueError ''internal_url must not be empty''
         else if \<not> (startswith normalized ''http://'' \<or> startswith normalized ''https://'')
         then raise ValueError ''internal_url must start with http:// or https://''
         else Inr normalized)"

definition validate_supported_actions :: "string list \<Rightarrow> string list res" where
  "validate_supported_actions v =
     (let normalized = map canon (filter (\<lambda>item. strip item \<noteq> []) v)
      in if normalized = [] then raise ValueError ''supported_actions must not be empty''
         else if \<not> distinct normalized
         then raise ValueError ''supported_actions must not contain duplicates''
         else if ADMISSION_ACTION \<in> set normalized
         then raise ValueError ''reserved by Gate and cannot be registered''
         else Inr normalized)"

definition validate_priority_class :: "string \<Rightarrow> string res" where
  "validate_priority_class v =
     (let normalized = upper (strip v)
      in if normalized \<notin> {''P0'', ''P1'', ''P2'', ''P3''}
         then raise ValueError ''priority_class must be one of P0, P1, P2, P3''
         else Inr normalized)"

definition validate_health_endpoint :: "string \<Rightarrow> string res" where
  "validate_health_endpoint v =
     (let normalized = strip v
      in if \<not> startswith normalized ''/'' then raise ValueError ''health_endpoint must start with /''
         else Inr normalized)"

definition at_least :: "int \<Rightarrow> int \<Rightarrow> int res" where
  "at_least m v = (if m \<le> v then Inr v else raise ValueError ''greater_than_equal'')"

text \<open>
  \<open>NodeRegistration(...)\<close> on fields that have their declared types: pydantic runs
  the validators of all fields and raises one \<open>ValidationError\<close> for all failures.
\<close>

definition as_validation_error :: "'a res \<Rightarrow> 'a res" where
  "as_validation_error r = (case r of Inl e \<Rightarrow> raise ValidationError (exn_msg e) | Inr v \<Rightarrow> Inr v)"

definition node_registration :: "node \<Rightarrow> node res" where
  "node_registration r = as_validation_error
     (rbind (validate_node_name (node_name r)) (\<lambda>name.
      rbind (validate_internal_url (internal_url r)) (\<lambda>url.
      rbind (validate_supported_actions (supported_actions r)) (\<lambda>acts.
      rbind (validate_priority_class (priority_class r)) (\<lambda>prio.
      rbind (at_least 1 (max_concurrent r)) (\<lambda>mc.
      rbind (validate_health_endpoint (health_endpoint r)) (\<lambda>hep.
      rbind (at_least 1 (node_timeout_ms r)) (\<lambda>tmo.
      rbind (at_least 0 (active_requests r)) (\<lambda>act.
        Inr \<lparr>node_name = name, internal_url = url, supported_actions = acts, priority_class = prio,
             max_concurrent = mc, health_endpoint = hep, node_timeout_ms = tmo,
             node_metadata = node_metadata r, healthy = healthy r, active_requests = act\<rparr>)))))))))"

section \<open>The input model of the admin API\<close>

record node_input =
  in_internal_url :: string
  in_supported_actions :: "string list"
  in_priority_class :: string
  in_max_concurrent :: int
  in_health_endpoint :: string
  in_timeout_ms :: int
  in_metadata :: "(string \<times> string) list"

definition input_internal_url :: "string \<Rightarrow> string res" where
  "input_internal_url v =
     (let normalized = rstrip_with (\<lambda>c. c = CHR ''/'') (strip v)
      in if normalized = [] then raise ValueError ''internal_url must not be empty''
         else if \<not> (startswith normalized ''http://'' \<or> startswith normalized ''https://'')
         then raise ValueError ''internal_url must start with http:// or https://''
         else Inr normalized)"

definition input_supported_actions :: "string list \<Rightarrow> string list res" where
  "input_supported_actions v =
     (let normalized = map canon (filter (\<lambda>item. strip item \<noteq> []) v)
      in if normalized = [] then raise ValueError ''supported_actions must not be empty''
         else if \<not> distinct normalized
         then raise ValueError ''supported_actions must not contain duplicates''
         else Inr normalized)"

definition input_priority_class :: "string \<Rightarrow> string res" where
  "input_priority_class v =
     (let normalized = upper (strip v)
      in if normalized \<notin> {''P0'', ''P1'', ''P2'', ''P3''}
         then raise ValueError ''priority_class must be one of P0, P1, P2, P3''
         else Inr normalized)"

definition input_health_endpoint :: "string \<Rightarrow> string res" where
  "input_health_endpoint v =
     (let normalized = strip v
      in if \<not> startswith normalized ''/'' then raise ValueError ''health_endpoint must start with /''
         else Inr normalized)"

definition node_registration_input :: "node_input \<Rightarrow> node_input res" where
  "node_registration_input r = as_validation_error
     (rbind (input_internal_url (in_internal_url r)) (\<lambda>url.
      rbind (input_supported_actions (in_supported_actions r)) (\<lambda>acts.
      rbind (input_priority_class (in_priority_class r)) (\<lambda>prio.
      rbind (at_least 1 (in_max_concurrent r)) (\<lambda>mc.
      rbind (input_health_endpoint (in_health_endpoint r)) (\<lambda>hep.
      rbind (at_least 1 (in_timeout_ms r)) (\<lambda>tmo.
        Inr (r\<lparr>in_internal_url := url, in_supported_actions := acts, in_priority_class := prio,
               in_max_concurrent := mc, in_health_endpoint := hep, in_timeout_ms := tmo\<rparr>))))))))"

section \<open>The registry\<close>

type_synonym registry = "(string \<times> node) list"

definition registry_init :: registry where
  "registry_init = []"

text \<open>
  \<open>load_from_yaml\<close> on the parsed document. \<open>typed\<close> is pydantic's conversion of the
  entries of one mapping to the declared field types, with the defaults; it answers
  \<open>None\<close> when a field is unknown, is missing or does not convert.
\<close>

fun payload_of :: "(pyval \<times> pyval) list \<Rightarrow> payload option" where
  "payload_of [] = Some []"
| "payload_of ((PyStr k, v) # d) = map_option (\<lambda>p. (k, v) # p) (payload_of d)"
| "payload_of ((k, v) # d) = None"

definition load_entry :: "(string \<Rightarrow> payload \<Rightarrow> node option) \<Rightarrow> pyval \<times> pyval \<Rightarrow> (string \<times> node) res" where
  "load_entry typed entry =
     (case entry of
        (name, PyDict d) \<Rightarrow>
          (case payload_of d of
             None \<Rightarrow> raise TypeError ''keywords must be strings''
           | Some p \<Rightarrow>
               if dhas p ''node_name''
               then raise TypeError ''got multiple values for keyword argument node_name''
               else (case name of
                       PyStr n \<Rightarrow>
                         (case typed n p of
                            None \<Rightarrow> raise ValidationError ''NodeRegistration''
                          | Some r \<Rightarrow> rbind (node_registration r) (\<lambda>r'. Inr (canon n, r')))
                     | _ \<Rightarrow> raise ValidationError ''NodeRegistration''))
      | _ \<Rightarrow> raise ValueError ''node registry entry must be a mapping'')"

fun load_entries ::
  "(string \<Rightarrow> payload \<Rightarrow> node option) \<Rightarrow> registry \<Rightarrow> (pyval \<times> pyval) list \<Rightarrow> registry res" where
  "load_entries typed loaded [] = Inr loaded"
| "load_entries typed loaded (e # es) =
     rbind (load_entry typed e) (\<lambda>(k, r). load_entries typed (dset loaded k r) es)"

definition load_from_yaml ::
  "(string \<Rightarrow> payload \<Rightarrow> node option) \<Rightarrow> registry \<Rightarrow> pyval \<Rightarrow> registry \<times> unit res" where
  "load_from_yaml typed nodes raw =
     (case raw of
        PyDict entries \<Rightarrow>
          (case load_entries typed [] entries of
             Inl e \<Rightarrow> (nodes, Inl e)
           | Inr loaded \<Rightarrow> (loaded, Inr ()))
      | _ \<Rightarrow> (nodes, raise ValueError ''node registry YAML must be a mapping''))"

text \<open>The tables handed to the ownership check: every other node, its actions and its owner.\<close>

definition others :: "registry \<Rightarrow> string \<Rightarrow> bool \<Rightarrow> registry" where
  "others nodes normalized_name overwrite =
     [(n, r). (n, r) \<leftarrow> nodes, \<not> (overwrite \<and> n = normalized_name)]"

definition register_node :: "registry \<Rightarrow> string \<Rightarrow> node \<Rightarrow> bool \<Rightarrow> registry \<times> unit res" where
  "register_node nodes name registration overwrite =
     (let normalized_name = canon name
      in if normalized_name = [] then (nodes, raise ValueError ''name must not be empty'')
         else if dhas nodes normalized_name \<and> \<not> overwrite
         then (nodes, raise ValueError ''node already registered'')
         else
           (let registration =
                  (if normalized_name \<noteq> node_name registration
                   then registration\<lparr>node_name := normalized_name\<rparr> else registration);
                existing = map (\<lambda>(n, r). (n, supported_actions r)) (others nodes normalized_name overwrite);
                existing_owners = map (\<lambda>(n, r). (n, owner_for_registration n (node_metadata r)))
                  (others nodes normalized_name overwrite)
            in case assert_registration_ownership normalized_name (supported_actions registration)
                      (node_metadata registration) existing existing_owners of
                 Inl e \<Rightarrow> (nodes, Inl e)
               | Inr u \<Rightarrow> (dset nodes normalized_name registration, Inr ())))"

definition all_supported_actions :: "registry \<Rightarrow> string set" where
  "all_supported_actions nodes = \<Union> (set (map (\<lambda>(n, r). set (supported_actions r)) nodes))"

definition known_for :: "registry \<Rightarrow> string \<Rightarrow> node list" where
  "known_for nodes normalized_action =
     filter (\<lambda>r. normalized_action \<in> set (supported_actions r)) (map snd nodes)"

definition load_key :: "node \<Rightarrow> int \<times> int \<times> string" where
  "load_key r = (active_requests r, max_concurrent r, node_name r)"

definition resolve_action :: "registry \<Rightarrow> string \<Rightarrow> node res" where
  "resolve_action nodes a =
     (let normalized_action = canon a
      in if normalized_action = [] then raise ValueError ''action must not be empty''
         else
           (let known = known_for nodes normalized_action; candidates = filter healthy known
            in if candidates = [] then
                 if known \<noteq> [] then raise NoHealthyNodeError ''no healthy node for action''
                 else raise LookupError ''no node registered for action''
               else Inr (sort_key load_key candidates ! 0)))"

definition resolve_destination :: "registry \<Rightarrow> string \<Rightarrow> node res" where
  "resolve_destination nodes name =
     (let normalized_name = canon name
      in if normalized_name = [] then raise ValueError ''node_name must not be empty''
         else case dget nodes normalized_name of
                None \<Rightarrow> raise LookupError ''unknown destination node''
              | Some registration \<Rightarrow>
                  if \<not> healthy registration then raise LookupError ''destination node is unhealthy''
                  else Inr registration)"

definition set_health :: "registry \<Rightarrow> string \<Rightarrow> bool \<Rightarrow> registry \<times> unit res" where
  "set_health nodes name h =
     (let normalized_name = canon name
      in case dget nodes normalized_name of
           None \<Rightarrow> (nodes, raise LookupError ''unknown node'')
         | Some r \<Rightarrow> (dset nodes normalized_name (r\<lparr>healthy := h\<rparr>), Inr ()))"

definition mark_healthy :: "registry \<Rightarrow> string \<Rightarrow> registry \<times> unit res" where
  "mark_healthy nodes name = set_health nodes name True"

definition mark_unhealthy :: "registry \<Rightarrow> string \<Rightarrow> registry \<times> unit res" where
  "mark_unhealthy nodes name = set_health nodes name False"

definition increment_active :: "registry \<Rightarrow> string \<Rightarrow> registry \<times> unit res" where
  "increment_active nodes name =
     (let normalized_name = canon name
      in case dget nodes normalized_name of
           None \<Rightarrow> (nodes, raise LookupError ''unknown node'')
         | Some current \<Rightarrow>
             if max_concurrent current \<le> active_requests current
             then (nodes, raise RuntimeError ''node concurrency limit reached'')
             else (dset nodes normalized_name
                     (current\<lparr>active_requests := active_requests current + 1\<rparr>), Inr ()))"

definition decrement_active :: "registry \<Rightarrow> string \<Rightarrow> registry \<times> unit res" where
  "decrement_active nodes name =
     (let normalized_name = canon name
      in case dget nodes normalized_name of
           None \<Rightarrow> (nodes, raise LookupError ''unknown node'')
         | Some current \<Rightarrow>
             (dset nodes normalized_name
                (current\<lparr>active_requests := max 0 (active_requests current - 1)\<rparr>), Inr ()))"

definition known_nodes :: "registry \<Rightarrow> string set" where
  "known_nodes nodes = set (dkeys nodes)"

definition registry_snapshot :: "registry \<Rightarrow> registry" where
  "registry_snapshot nodes = nodes"

section \<open>The registry as a bounded counter per node\<close>

definition node_load :: "registry \<Rightarrow> string \<Rightarrow> int option" where
  "node_load nodes k = map_option active_requests (dget nodes k)"

definition node_cap :: "registry \<Rightarrow> string \<Rightarrow> int option" where
  "node_cap nodes k = map_option max_concurrent (dget nodes k)"

interpretation node_slots: concurrency_limit node_load node_cap canon increment_active decrement_active
proof unfold_locales
qed (auto simp: node_load_def node_cap_def increment_active_def decrement_active_def Let_def fun_eq_iff
    split: option.splits)

section \<open>Well-formed registries\<close>

definition wf_node :: "string \<Rightarrow> node \<Rightarrow> bool" where
  "wf_node k r \<longleftrightarrow> node_name r = k \<and> k \<noteq> [] \<and> canon k = k
     \<and> (startswith (internal_url r) ''http://'' \<or> startswith (internal_url r) ''https://'')
     \<and> supported_actions r \<noteq> [] \<and> distinct (supported_actions r)
     \<and> ADMISSION_ACTION \<notin> set (supported_actions r)
     \<and> list_all (\<lambda>a. canon a = a \<and> a \<noteq> []) (supported_actions r)
     \<and> priority_class r \<in> {''P0'', ''P1'', ''P2'', ''P3''} \<and> 1 \<le> max_concurrent r
     \<and> startswith (health_endpoint r) ''/'' \<and> 1 \<le> node_timeout_ms r \<and> 0 \<le> active_requests r"

definition registry_wf :: "registry \<Rightarrow> bool" where
  "registry_wf nodes \<longleftrightarrow> dwf nodes \<and> (\<forall>(k, r) \<in> set nodes. wf_node k r)"

lemma as_validation_error_Inr [simp]: "as_validation_error r = Inr v \<longleftrightarrow> r = Inr v"
  by (auto simp: as_validation_error_def split: sum.splits)

lemma canon_Nil_iff: "canon s = [] \<longleftrightarrow> strip s = []"
  by (simp add: canon_def)

lemma at_least_iff [simp]: "at_least m v = Inr w \<longleftrightarrow> m \<le> v \<and> w = v"
  by (auto simp: at_least_def)

lemma validated_name: "validate_node_name v = Inr n \<Longrightarrow> n = canon v \<and> n \<noteq> []"
  by (auto simp: validate_node_name_def Let_def split: if_splits)

lemma validated_url:
  "validate_internal_url v = Inr u \<Longrightarrow> startswith u ''http://'' \<or> startswith u ''https://''"
  by (auto simp: validate_internal_url_def Let_def split: if_splits)

lemma validated_actions:
  "validate_supported_actions v = Inr acts \<Longrightarrow>
     acts \<noteq> [] \<and> distinct acts \<and> ADMISSION_ACTION \<notin> set acts \<and> list_all (\<lambda>a. canon a = a \<and> a \<noteq> []) acts"
  unfolding validate_supported_actions_def Let_def
  by (clarsimp simp: list_all_iff canon_Nil_iff simp flip: canon_Nil_iff split: if_splits)

lemma validated_priority:
  "validate_priority_class v = Inr c \<Longrightarrow> c \<in> {''P0'', ''P1'', ''P2'', ''P3''}"
  by (auto simp: validate_priority_class_def Let_def split: if_splits)

lemma validated_endpoint: "validate_health_endpoint v = Inr e \<Longrightarrow> startswith e ''/''"
  by (auto simp: validate_health_endpoint_def Let_def split: if_splits)

lemma node_registration_wf:
  assumes "node_registration r = Inr r'"
  shows "wf_node (canon (node_name r)) r'"
proof -
  from assms obtain name url acts prio hep where
    v: "validate_node_name (node_name r) = Inr name" "validate_internal_url (internal_url r) = Inr url"
      "validate_supported_actions (supported_actions r) = Inr acts"
      "validate_priority_class (priority_class r) = Inr prio"
      "validate_health_endpoint (health_endpoint r) = Inr hep"
    and "1 \<le> max_concurrent r" "1 \<le> node_timeout_ms r" "0 \<le> active_requests r"
    and "r' = \<lparr>node_name = name, internal_url = url, supported_actions = acts, priority_class = prio,
             max_concurrent = max_concurrent r, health_endpoint = hep,
             node_timeout_ms = node_timeout_ms r, node_metadata = node_metadata r,
             healthy = healthy r, active_requests = active_requests r\<rparr>"
    unfolding node_registration_def as_validation_error_Inr rbind_Inr_iff at_least_iff by blast
  with v(1)[THEN validated_name] v(2)[THEN validated_url] v(3)[THEN validated_actions]
    v(4)[THEN validated_priority] v(5)[THEN validated_endpoint]
  show ?thesis unfolding wf_node_def by (simp; metis)
qed

lemma registry_wf_get: "registry_wf nodes \<Longrightarrow> dget nodes k = Some r \<Longrightarrow> wf_node k r"
  unfolding registry_wf_def by (auto dest: map_of_SomeD)

lemma registry_wf_dset [inv_intros]:
  "registry_wf nodes \<Longrightarrow> wf_node k r \<Longrightarrow> registry_wf (dset nodes k r)"
  unfolding registry_wf_def using set_dset_subset[of k r nodes] by auto

lemma registry_wf_init [simp]: "registry_wf []" "registry_wf registry_init"
  by (simp_all add: registry_wf_def registry_init_def)

lemma load_entries_wf:
  "load_entries typed loaded es = Inr loaded' \<Longrightarrow> registry_wf loaded \<Longrightarrow>
   (\<And>n p r. typed n p = Some r \<Longrightarrow> node_name r = n) \<Longrightarrow> registry_wf loaded'"
proof (induction typed loaded es rule: load_entries.induct)
  case (2 typed loaded e es)
  then obtain k r where e: "load_entry typed e = Inr (k, r)"
    and rest: "load_entries typed (dset loaded k r) es = Inr loaded'"
    by (auto simp: rbind_Inr_iff)
  from e 2(4) have "wf_node k r"
    by (auto simp: load_entry_def rbind_Inr_iff dest!: node_registration_wf
        split: prod.splits pyval.splits option.splits if_splits)
  with 2 e rest show ?case by (auto intro: registry_wf_dset)
qed simp

lemma load_from_yaml_wf [inv_intros]:
  "registry_wf nodes \<Longrightarrow> (\<And>n p r. typed n p = Some r \<Longrightarrow> node_name r = n) \<Longrightarrow>
   registry_wf (fst (load_from_yaml typed nodes raw))"
  by (auto simp: load_from_yaml_def dest!: load_entries_wf split: pyval.splits sum.splits)

lemma register_node_wf [inv_intros]:
  "registry_wf nodes \<Longrightarrow> wf_node k r \<Longrightarrow> registry_wf (fst (register_node nodes name r ow))"
  by (auto simp: register_node_def Let_def wf_node_def intro!: registry_wf_dset split: sum.splits)

lemma registry_wf_update:
  assumes "registry_wf nodes" and "dget nodes k = Some r" and "wf_node k r \<Longrightarrow> wf_node k r'"
  shows "registry_wf (dset nodes k r')"
  using assms registry_wf_get registry_wf_dset by blast

lemma wf_node_changes:
  "wf_node k r \<Longrightarrow> wf_node k (r\<lparr>healthy := h\<rparr>)"
  "wf_node k r \<Longrightarrow> 0 \<le> n \<Longrightarrow> wf_node k (r\<lparr>active_requests := n\<rparr>)"
  "wf_node k r \<Longrightarrow> wf_node k (r\<lparr>active_requests := active_requests r + 1\<rparr>)"
  by (simp_all add: wf_node_def)

lemma set_health_wf [inv_intros]: "registry_wf nodes \<Longrightarrow> registry_wf (fst (set_health nodes name h))"
  by (auto simp: set_health_def Let_def wf_node_changes elim: registry_wf_update split: option.splits)

lemma active_wf [inv_intros]:
  "registry_wf nodes \<Longrightarrow> registry_wf (fst (increment_active nodes name))"
  "registry_wf nodes \<Longrightarrow> registry_wf (fst (decrement_active nodes name))"
  by (auto simp: increment_active_def decrement_active_def Let_def wf_node_changes
      elim: registry_wf_update split: option.splits)

section \<open>Histories of the registry\<close>

datatype registry_event =
    Load pyval
  | Register string node bool
  | Set_health string bool
  | Increment string
  | Decrement string

fun registry_step ::
  "(string \<Rightarrow> payload \<Rightarrow> node option) \<Rightarrow> registry \<Rightarrow> registry_event \<Rightarrow> registry" where
  "registry_step typed nodes (Load raw) = fst (load_from_yaml typed nodes raw)"
| "registry_step typed nodes (Register name r ow) =
     (case node_registration r of
        Inl e \<Rightarrow> nodes
      | Inr r' \<Rightarrow> fst (register_node nodes name r' ow))"
| "registry_step typed nodes (Set_health name h) = fst (set_health nodes name h)"
| "registry_step typed nodes (Increment name) = fst (increment_active nodes name)"
| "registry_step typed nodes (Decrement name) = fst (decrement_active nodes name)"

lemma registry_step_wf:
  "registry_wf nodes \<Longrightarrow> (\<And>n p r. typed n p = Some r \<Longrightarrow> node_name r = n) \<Longrightarrow>
   registry_wf (registry_step typed nodes ev)"
  by (cases ev) (auto intro: inv_intros dest: node_registration_wf split: sum.splits)

lemma registry_run_wf:
  "registry_wf nodes \<Longrightarrow> (\<And>n p r. typed n p = Some r \<Longrightarrow> node_name r = n) \<Longrightarrow>
   registry_wf (foldl (registry_step typed) nodes evs)"
  by (induction evs arbitrary: nodes) (simp_all add: registry_step_wf)

section \<open>Ownership over histories\<close>

definition node_owner :: "string \<Rightarrow> node \<Rightarrow> string option" where
  "node_owner k r = owner_for_registration k (node_metadata r)"

definition compatible :: "string option \<Rightarrow> string option \<Rightarrow> bool" where
  "compatible o1 o2 \<longleftrightarrow> o1 = None \<or> o2 = None \<or> o1 = o2"

definition owned_by_table :: "string \<Rightarrow> node \<Rightarrow> bool" where
  "owned_by_table k r \<longleftrightarrow> (\<forall>a \<in> set (supported_actions r).
     required_owner_for_action a = None \<or> node_owner k r = required_owner_for_action a)"

definition share_action :: "node \<Rightarrow> node \<Rightarrow> bool" where
  "share_action r r' \<longleftrightarrow> set (supported_actions r) \<inter> set (supported_actions r') \<noteq> {}"

definition registry_owned :: "registry \<Rightarrow> bool" where
  "registry_owned nodes \<longleftrightarrow>
     (\<forall>k r. dget nodes k = Some r \<longrightarrow> owned_by_table k r) \<and>
     (\<forall>k r k' r'. dget nodes k = Some r \<longrightarrow> dget nodes k' = Some r' \<longrightarrow> share_action r r' \<longrightarrow>
        compatible (node_owner k r) (node_owner k' r'))"

text \<open>The parts of a node that its owner depends on; health and load are not among them.\<close>

definition same_claim :: "node \<Rightarrow> node \<Rightarrow> bool" where
  "same_claim r r' \<longleftrightarrow>
     supported_actions r = supported_actions r' \<and> node_metadata r = node_metadata r'"

lemma dget_map: "dget (map (\<lambda>(n, r). (n, f n r)) d) k = map_option (f k) (dget d k)"
  by (induction d) auto

lemma registry_owned_update:
  assumes "registry_owned nodes" and "dget nodes k = Some r" and "same_claim r r'"
  shows "registry_owned (dset nodes k r')"
proof -
  have old: "\<exists>p. dget nodes j = Some p \<and> same_claim p q" if "dget (dset nodes k r') j = Some q" for j q
    using assms(2,3) that by (auto simp: same_claim_def split: if_splits)
  have same: "owned_by_table j q = owned_by_table j p" "node_owner j q = node_owner j p"
    "share_action q x = share_action p x" "share_action x q = share_action x p"
    if "same_claim p q" for j p q x
    using that by (auto simp: same_claim_def owned_by_table_def node_owner_def share_action_def)
  show ?thesis
    unfolding registry_owned_def
  proof (intro conjI allI impI)
    fix j q assume "dget (dset nodes k r') j = Some q"
    from old[OF this] show "owned_by_table j q"
      using assms(1) same(1) unfolding registry_owned_def by blast
  next
    fix j q i p
    assume q: "dget (dset nodes k r') j = Some q" and p: "dget (dset nodes k r') i = Some p"
      and share: "share_action q p"
    from old[OF q] old[OF p] obtain q' p' where
      o: "dget nodes j = Some q'" "same_claim q' q" "dget nodes i = Some p'" "same_claim p' p"
      by blast
    from share o same(3)[OF o(2)] same(4)[OF o(4)] have "share_action q' p'" by simp
    with assms(1) o have "compatible (node_owner j q') (node_owner i p')"
      unfolding registry_owned_def by blast
    with o show "compatible (node_owner j q) (node_owner i p)" by (simp add: same(2))
  qed
qed

lemma others_eq: "others nodes n ow = filter (\<lambda>(m, r). \<not> (ow \<and> m = n)) nodes"
  by (induction nodes) (auto simp: others_def)

lemma dget_others:
  "dwf nodes \<Longrightarrow> dget (others nodes n ow) k = (if ow \<and> k = n then None else dget nodes k)"
  by (auto simp: others_eq dget_filter split: option.splits)

lemma register_node_result:
  assumes "register_node nodes name r ow = (nodes', Inr ())"
  shows "nodes' = dset nodes (canon name) (r\<lparr>node_name := canon name\<rparr>)
    \<and> canon name \<noteq> [] \<and> (dhas nodes (canon name) \<longrightarrow> ow)
    \<and> assert_registration_ownership (canon name) (supported_actions r) (node_metadata r)
        (map (\<lambda>(n, r). (n, supported_actions r)) (others nodes (canon name) ow))
        (map (\<lambda>(n, r). (n, owner_for_registration n (node_metadata r))) (others nodes (canon name) ow))
      = Inr ()"
  using assms by (auto simp: register_node_def Let_def split: sum.splits if_splits)

lemma register_node_unchanged:
  assumes "register_node nodes name r ow = (nodes', Inl e)"
  shows "nodes' = nodes"
  using assms by (auto simp: register_node_def Let_def split: sum.splits if_splits)

text \<open>A node that was accepted agrees with every other node about the owner of what both serve.\<close>

lemma registered_compatible:
  assumes "registry_wf nodes" and "wf_node k r" and "register_node nodes name r ow = (nodes', Inr ())"
    and j: "dget nodes j = Some q" "j \<noteq> canon name" and "share_action (r\<lparr>node_name := canon name\<rparr>) q"
  shows "compatible (node_owner (canon name) (r\<lparr>node_name := canon name\<rparr>)) (node_owner j q)"
proof -
  let ?k = "canon name"
  from assms(6) obtain a where a: "a \<in> set (supported_actions r)" "a \<in> set (supported_actions q)"
    by (auto simp: share_action_def)
  have "canon a = a" using assms(2) a(1) by (auto simp: wf_node_def list_all_iff)
  moreover from j assms(1) have jo: "dget (others nodes ?k ow) j = Some q" by (simp add: dget_others registry_wf_def)
  moreover from this have "(j, supported_actions q) \<in>
      set (map (\<lambda>(n, r). (n, supported_actions r)) (others nodes ?k ow))"
    by (force dest: map_of_SomeD)
  ultimately show ?thesis
    using register_node_result[OF assms(3)] a j(2)
    by (fastforce simp: ownership_check_iff compatible_def node_owner_def
        dget_map[of "\<lambda>n r. owner_for_registration n (node_metadata r)"])
qed

lemma register_node_owned:
  assumes "registry_wf nodes" and "registry_owned nodes" and "wf_node k r"
    and "register_node nodes name r ow = (nodes', Inr ())"
  shows "registry_owned nodes'"
proof -
  let ?k = "canon name" and ?r = "r\<lparr>node_name := canon name\<rparr>"
  note res = register_node_result[OF assms(4)]
  have table: "owned_by_table ?k ?r"
    using res by (auto simp: owned_by_table_def node_owner_def ownership_check_iff)
  note pair = registered_compatible[OF assms(1,3,4)]
  have sym: "compatible a b = compatible b a" "share_action p q = share_action q p" for a b p q
    by (auto simp: compatible_def share_action_def)
  have refl: "compatible a a" for a by (simp add: compatible_def)
  have get: "dget nodes' j = (if j = ?k then Some ?r else dget nodes j)" for j
    using res by simp
  have table_old: "owned_by_table j q" if "dget nodes j = Some q" for j q
    using assms(2) that by (simp add: registry_owned_def)
  have pair_old: "compatible (node_owner j q) (node_owner i p)"
    if "dget nodes j = Some q" "dget nodes i = Some p" "share_action q p" for i j p q
    using assms(2) that unfolding registry_owned_def by blast
  show ?thesis
    unfolding registry_owned_def
  proof (intro conjI allI impI)
    fix j q assume "dget nodes' j = Some q"
    then show "owned_by_table j q" using table table_old by (auto simp: get split: if_splits)
  next
    fix j q i p
    assume "dget nodes' j = Some q" "dget nodes' i = Some p" "share_action q p"
    then show "compatible (node_owner j q) (node_owner i p)"
      using pair pair_old refl sym by (cases "j = ?k"; cases "i = ?k") (auto simp: get)
  qed
qed

fun no_load :: "registry_event \<Rightarrow> bool" where
  "no_load (Load raw) = False"
| "no_load ev = True"

lemma registry_step_owned:
  assumes "registry_wf nodes" and "registry_owned nodes" and "no_load ev"
  shows "registry_owned (registry_step typed nodes ev)"
proof (cases ev)
  case (Register name r ow)
  show ?thesis
  proof (cases "node_registration r")
    case (Inr r')
    obtain nodes' x where "register_node nodes name r' ow = (nodes', x)" by fastforce
    with assms Inr Register register_node_unchanged[of nodes name r' ow nodes']
      register_node_owned[OF assms(1,2) node_registration_wf[OF Inr]]
    show ?thesis by (cases x) auto
  qed (use assms Register in simp)
qed (use assms in \<open>auto simp: set_health_def increment_active_def decrement_active_def Let_def
      same_claim_def intro: registry_owned_update split: option.splits\<close>)

lemma registry_run_owned:
  "registry_wf nodes \<Longrightarrow> registry_owned nodes \<Longrightarrow> list_all no_load evs \<Longrightarrow>
   (\<And>n p r. typed n p = Some r \<Longrightarrow> node_name r = n) \<Longrightarrow>
   registry_owned (foldl (registry_step typed) nodes evs)"
  by (induction evs arbitrary: nodes) (simp_all add: registry_step_owned registry_step_wf)

section \<open>Resolution\<close>

lemma resolve_action_known: "set (known_for nodes a) = {r. \<exists>k. (k, r) \<in> set nodes \<and> a \<in> set (supported_actions r)}"
  by (force simp: known_for_def)

lemma sorted_first_least:
  fixes f :: "'a \<Rightarrow> 'b :: linorder"
  assumes "xs \<noteq> []"
  shows "sort_key f xs ! 0 \<in> set xs \<and> (\<forall>x \<in> set xs. f (sort_key f xs ! 0) \<le> f x)"
proof -
  have "sort_key f xs \<noteq> []" using assms by (metis set_empty set_sort)
  then obtain y ys where s: "sort_key f xs = y # ys" by (cases "sort_key f xs") auto
  then have "set xs = insert y (set ys)" by (metis set_sort list.simps(15))
  moreover have "\<forall>x \<in> set ys. f y \<le> f x" using sorted_sort_key[of f xs] s by simp
  ultimately show ?thesis by (simp add: s)
qed

lemma resolve_action_Inr:
  assumes "resolve_action nodes a = Inr r"
  shows "r \<in> set (filter healthy (known_for nodes (canon a)))
    \<and> (\<forall>q \<in> set (filter healthy (known_for nodes (canon a))). load_key r \<le> load_key q)"
  using assms sorted_first_least[of "filter healthy (known_for nodes (canon a))" load_key]
  by (auto simp: resolve_action_def Let_def split: if_splits)

section \<open>Properties\<close>

definition sample_node :: "string \<Rightarrow> string list \<Rightarrow> (string \<times> string) list \<Rightarrow> node" where
  "sample_node n acts md =
     \<lparr>node_name = n, internal_url = ''http://w:8000'', supported_actions = acts, priority_class = ''P2'',
      max_concurrent = 1, health_endpoint = ''/v1/health'', node_timeout_ms = 30000,
      node_metadata = md, healthy = True, active_requests = 0\<rparr>"

text \<open>
  A conversion of mappings to field types that reads three of the fields and takes the
  declared defaults for the others.
\<close>

fun str_items :: "pyval list \<Rightarrow> string list option" where
  "str_items [] = Some []"
| "str_items (PyStr s # vs) = map_option (\<lambda>ss. s # ss) (str_items vs)"
| "str_items (v # vs) = None"

definition sample_typed :: "string \<Rightarrow> payload \<Rightarrow> node option" where
  "sample_typed n p =
     (case (dget p ''internal_url'', dget p ''supported_actions'', dget p ''metadata'') of
        (Some (PyStr url), Some (PyList vs), Some (PyDict [(PyStr k, PyStr v)])) \<Rightarrow>
          map_option (\<lambda>acts. (sample_node n acts [(k, v)])\<lparr>internal_url := url, max_concurrent := 50\<rparr>)
            (str_items vs)
      | _ \<Rightarrow> None)"

lemma sample_typed_name: "sample_typed n p = Some r \<Longrightarrow> node_name r = n"
  by (auto simp: sample_typed_def sample_node_def split: option.splits pyval.splits list.splits prod.splits)

text \<open>
  C36. The registry is well formed after every history of loads, registrations, health
  changes and load changes: every node sits under its own canonical name, with a
  worker URL, a non-empty set of distinct canonical actions that does not hold the
  reserved admission action, and bounds in range.
\<close>

theorem registry_stays_well_formed:
  assumes "\<And>n p r. typed n p = Some r \<Longrightarrow> node_name r = n"
  shows "registry_wf (foldl (registry_step typed) registry_init evs)"
  using assms by (intro registry_run_wf) auto

theorem registry_stays_well_formed_witness:
  "registry_wf (foldl (registry_step sample_typed) registry_init
     [Register '' Graph'' (sample_node ''x'' [''match'', '' ''] []) False, Increment ''graph'',
      Set_health ''GRAPH'' False])"
  by (rule registry_stays_well_formed[of sample_typed]) (rule sample_typed_name)

text \<open>
  C8. Registration is an ownership lock: whatever sequence of registrations, overwrites,
  health and load changes led to the registry, an action of the canonical table only
  ever resolves to a node of the owner the table names, and two nodes with known,
  different owners never serve the same action.
\<close>

theorem registration_locks_owners:
  assumes "list_all no_load evs"
    and "nodes = foldl (registry_step (\<lambda>_ _. None)) registry_init evs"
  shows "(\<forall>a r owner. resolve_action nodes a = Inr r \<longrightarrow> required_owner_for_action a = Some owner \<longrightarrow>
            node_owner (node_name r) r = Some owner)
    \<and> (\<forall>k r k' r'. dget nodes k = Some r \<longrightarrow> dget nodes k' = Some r' \<longrightarrow> share_action r r' \<longrightarrow>
            compatible (node_owner k r) (node_owner k' r'))"
proof -
  have owned: "registry_owned nodes" unfolding assms(2)
    using assms(1) by (intro registry_run_owned) (simp_all add: registry_owned_def registry_init_def)
  have wf: "registry_wf nodes" unfolding assms(2) by (rule registry_run_wf) simp_all
  have "node_owner (node_name r) r = Some owner"
    if r: "resolve_action nodes a = Inr r" and req: "required_owner_for_action a = Some owner" for a r owner
  proof -
    from resolve_action_Inr[OF r] obtain k where k: "(k, r) \<in> set nodes" "canon a \<in> set (supported_actions r)"
      by (auto simp: resolve_action_known)
    with wf have get: "dget nodes k = Some r" by (auto simp: registry_wf_def dget_in_set)
    moreover from registry_wf_get[OF wf this] have "node_name r = k" by (simp add: wf_node_def)
    moreover from get owned have "owned_by_table k r" by (simp add: registry_owned_def)
    ultimately show ?thesis
      using k(2) req required_owner_canon[of a] by (auto simp: owned_by_table_def)
  qed
  with owned show ?thesis unfolding registry_owned_def by blast
qed

theorem registration_locks_owners_witness:
  "node_owner ''graph'' (sample_node ''graph'' [''match''] []) = Some ''ceg''"
proof -
  let ?evs = "[Register ''graph'' (sample_node ''graph'' [''match''] []) False]"
  let ?nodes = "foldl (registry_step (\<lambda>_ _. None)) registry_init ?evs"
  have "list_all no_load ?evs" by simp
  moreover have "resolve_action ?nodes ''match'' = Inr (sample_node ''graph'' [''match''] [])"
    by code_simp
  moreover have "required_owner_for_action ''match'' = Some ''ceg''" by code_simp
  moreover have "node_name (sample_node ''graph'' [''match''] []) = ''graph''" by (simp add: sample_node_def)
  ultimately show ?thesis using registration_locks_owners[of ?evs ?nodes] by metis
qed

text \<open>
  Loading the registry from its YAML document runs no ownership check: a document
  can hand an action of the canonical table to a node of another owner, and Gate then
  routes that action there. Registering the same node is refused.
\<close>

theorem yaml_bypasses_ownership:
  "\<exists>raw nodes r. load_from_yaml sample_typed registry_init raw = (nodes, Inr ())
     \<and> resolve_action nodes ''match'' = Inr r
     \<and> required_owner_for_action ''match'' = Some ''ceg''
     \<and> node_owner (node_name r) r = Some ''eie''
     \<and> (\<exists>e. register_node registry_init (node_name r) r False = (registry_init, Inl e)
          \<and> exn_class e = ActionOwnershipError)"
proof -
  let ?raw = "PyDict [(PyStr ''worker'', PyDict [(PyStr ''internal_url'', PyStr ''http://w:8000''),
     (PyStr ''supported_actions'', PyList [PyStr ''match'']),
     (PyStr ''metadata'', PyDict [(PyStr ''owner'', PyStr ''eie'')])])]"
  let ?r = "(sample_node ''worker'' [''match''] [(''owner'', ''eie'')])\<lparr>max_concurrent := 50\<rparr>"
  have "load_from_yaml sample_typed registry_init ?raw = ([(''worker'', ?r)], Inr ())" by code_simp
  moreover have "resolve_action [(''worker'', ?r)] ''match'' = Inr ?r" by code_simp
  moreover have "required_owner_for_action ''match'' = Some ''ceg''" by code_simp
  moreover have "node_owner (node_name ?r) ?r = Some ''eie''" by code_simp
  moreover have "register_node registry_init (node_name ?r) ?r False =
      (registry_init, raise ActionOwnershipError ''action is owned by another owner'')" by code_simp
  ultimately show ?thesis by (intro exI conjI) (assumption | simp add: mk_exn_def)+
qed



text \<open>A registration event that adds no node above its own cap.\<close>

fun fresh_event :: "registry_event \<Rightarrow> bool" where
  "fresh_event (Load raw) = False"
| "fresh_event (Register name r ow) = (active_requests r \<le> max_concurrent r)"
| "fresh_event ev = True"

lemma node_registration_sel:
  assumes "node_registration r = Inr r'"
  shows "active_requests r' = active_requests r \<and> max_concurrent r' = max_concurrent r"
  using assms unfolding node_registration_def as_validation_error_Inr rbind_Inr_iff at_least_iff
  by fastforce

lemma within_cap_dset:
  "node_slots.within_cap nodes \<Longrightarrow> 0 \<le> active_requests r \<Longrightarrow> active_requests r \<le> max_concurrent r \<Longrightarrow>
   node_slots.within_cap (dset nodes k r)"
  by (auto simp: node_slots.within_cap_def node_load_def node_cap_def)

lemma registry_step_within_cap:
  assumes "node_slots.within_cap nodes" and "fresh_event ev"
  shows "node_slots.within_cap (registry_step typed nodes ev)"
proof (cases ev)
  case (Register name r ow)
  show ?thesis
  proof (cases "node_registration r")
    case (Inr r')
    from node_registration_sel[OF Inr] node_registration_wf[OF Inr] assms(2) Register
    have ok: "0 \<le> active_requests r'" "active_requests r' \<le> max_concurrent r'"
      by (auto simp: wf_node_def)
    obtain nodes' x where reg: "register_node nodes name r' ow = (nodes', x)" by fastforce
    have "node_slots.within_cap nodes'"
    proof (cases x)
      case (Inl e)
      with register_node_unchanged[of nodes name r' ow nodes' e] reg assms(1) show ?thesis by simp
    next
      case (Inr u)
      with register_node_result[of nodes name r' ow nodes'] reg assms(1) ok show ?thesis
        by (auto intro: within_cap_dset)
    qed
    with Register Inr reg show ?thesis by simp
  qed (use assms Register in simp)
next
  case (Set_health name h)
  have "node_load (fst (set_health nodes name h)) = node_load nodes"
    "node_cap (fst (set_health nodes name h)) = node_cap nodes"
    by (auto simp: set_health_def Let_def node_load_def node_cap_def fun_eq_iff split: option.splits)
  with assms Set_health show ?thesis by (simp add: node_slots.within_cap_def)
qed (use assms in \<open>simp_all add: node_slots.within_cap_acquire node_slots.within_cap_release\<close>)

text \<open>
  No node is ever given more concurrent requests than its cap: after every history of
  registrations, overwrites, health changes, takings and givings back, the load of
  each node lies between zero and its \<open>max_concurrent\<close>.
\<close>

theorem node_load_within_cap:
  assumes "list_all fresh_event evs"
    and "dget (foldl (registry_step typed) registry_init evs) k = Some r"
  shows "0 \<le> active_requests r \<and> active_requests r \<le> max_concurrent r"
proof -
  have "list_all fresh_event es \<Longrightarrow> node_slots.within_cap nodes \<Longrightarrow>
      node_slots.within_cap (foldl (registry_step typed) nodes es)" for nodes es
    by (induction es arbitrary: nodes) (simp_all add: registry_step_within_cap)
  moreover have "node_slots.within_cap registry_init"
    by (simp add: node_slots.within_cap_def node_load_def registry_init_def)
  ultimately have "node_slots.within_cap (foldl (registry_step typed) registry_init evs)"
    using assms(1) by blast
  moreover have "node_load (foldl (registry_step typed) registry_init evs) k = Some (active_requests r)"
    "node_cap (foldl (registry_step typed) registry_init evs) k = Some (max_concurrent r)"
    unfolding node_load_def node_cap_def assms(2) by simp_all
  ultimately show ?thesis unfolding node_slots.within_cap_def by blast
qed

theorem node_load_within_cap_witness:
  "active_requests ((sample_node ''w'' [''x''] [])\<lparr>active_requests := 1\<rparr>) \<le> 1"
proof -
  let ?evs = "[Register ''w'' (sample_node ''w'' [''x''] []) False, Increment ''w'', Increment '' W'']"
  have "dget (foldl (registry_step sample_typed) registry_init ?evs) ''w'' =
      Some ((sample_node ''w'' [''x''] [])\<lparr>active_requests := 1\<rparr>)" by code_simp
  moreover have "list_all fresh_event ?evs" by (simp add: sample_node_def)
  ultimately show ?thesis
    using node_load_within_cap[of ?evs sample_typed "''w''"] by (simp add: sample_node_def)
qed

end
