(* ===== verification/Condition_Eval.thy ===== *)
theory Condition_Eval
  imports Packet Py_Float
begin

text \<open>
  The condition evaluator of workflows, \<open>orchestration/condition_eval.py\<close>: a walk over
  the syntax tree that \<open>ast.parse\<close> gives. The tree is a datatype with the node classes
  that the evaluator tells apart; what it has no branch for is \<open>Other\<close>. The operators
  of Python that the walk applies are defined first, on the values a payload holds.
  \<open>fmt\<close> is the formatting that \<open>%\<close> does on a string.
\<close>

section \<open>Python's operators on values\<close>

datatype num = Whole int | Float pyfloat

fun as_num :: "pyval \<Rightarrow> num option" where
  "as_num (PyBool b) = Some (Whole (if b then 1 else 0))"
| "as_num (PyInt n) = Some (Whole n)"
| "as_num (PyFloat x) = Some (Float x)"
| "as_num v = None"

fun num_rat :: "num \<Rightarrow> rat" where
  "num_rat (Whole n) = of_int n"
| "num_rat (Float x) = x"

fun as_int :: "pyval \<Rightarrow> int option" where
  "as_int (PyBool b) = Some (if b then 1 else 0)"
| "as_int (PyInt n) = Some n"
| "as_int v = None"

fun truthy :: "pyval \<Rightarrow> bool" where
  "truthy PyNone = False"
| "truthy (PyBool b) = b"
| "truthy (PyInt n) = (n \<noteq> 0)"
| "truthy (PyFloat x) = (x \<noteq> 0)"
| "truthy (PyStr s) = (s \<noteq> [])"
| "truthy (PyList vs) = (vs \<noteq> [])"
| "truthy (PyTuple vs) = (vs \<noteq> [])"
| "truthy (PyDict d) = (d \<noteq> [])"

text \<open>\<open>==\<close>: numbers by value, sequences of one kind element by element, dicts as mappings.\<close>

definition num_eq :: "pyval \<Rightarrow> pyval \<Rightarrow> bool" where
  "num_eq v w = (case (as_num v, as_num w) of (Some m, Some n) \<Rightarrow> num_rat m = num_rat n | _ \<Rightarrow> False)"

primrec py_eq :: "pyval \<Rightarrow> pyval \<Rightarrow> bool" and
    py_eq_list :: "pyval list \<Rightarrow> pyval list \<Rightarrow> bool" and
    py_eq_entries :: "(pyval \<times> pyval) list \<Rightarrow> (pyval \<times> pyval) list \<Rightarrow> bool" and
    py_eq_entry :: "pyval \<times> pyval \<Rightarrow> (pyval \<times> pyval) list \<Rightarrow> bool" where
  "py_eq PyNone w = (case w of PyNone \<Rightarrow> True | _ \<Rightarrow> False)"
| "py_eq (PyBool b) w = num_eq (PyBool b) w"
| "py_eq (PyInt n) w = num_eq (PyInt n) w"
| "py_eq (PyFloat x) w = num_eq (PyFloat x) w"
| "py_eq (PyStr s) w = (case w of PyStr t \<Rightarrow> s = t | _ \<Rightarrow> False)"
| "py_eq (PyList vs) w = (case w of PyList ws \<Rightarrow> py_eq_list vs ws | _ \<Rightarrow> False)"
| "py_eq (PyTuple vs) w = (case w of PyTuple ws \<Rightarrow> py_eq_list vs ws | _ \<Rightarrow> False)"
| "py_eq (PyDict d) w =
     (case w of PyDict e \<Rightarrow> length d = length e \<and> py_eq_entries d e | _ \<Rightarrow> False)"
| "py_eq_list [] ws = (ws = [])"
| "py_eq_list (v # vs) ws = (case ws of [] \<Rightarrow> False | w # ws' \<Rightarrow> py_eq v w \<and> py_eq_list vs ws')"
| "py_eq_entries [] e = True"
| "py_eq_entries (kv # d) e = (py_eq_entry kv e \<and> py_eq_entries d e)"
| "py_eq_entry (k, v) e = list_ex (\<lambda>p. py_eq k (fst p) \<and> py_eq v (snd p)) e"

text \<open>
  The order: numbers by value, strings by code point, sequences of one kind by the first
  pair of elements that differ. \<open>le\<close> tells \<open><=\<close> from \<open><\<close>.
\<close>

definition no_order :: "bool res" where
  "no_order = raise TypeError ''not supported between these instances''"

definition num_less :: "bool \<Rightarrow> pyval \<Rightarrow> pyval \<Rightarrow> bool res" where
  "num_less le v w =
     (case (as_num v, as_num w) of
        (Some m, Some n) \<Rightarrow> Inr (if le then num_rat m \<le> num_rat n else num_rat m < num_rat n)
      | _ \<Rightarrow> no_order)"

primrec py_less :: "bool \<Rightarrow> pyval \<Rightarrow> pyval \<Rightarrow> bool res" and
    py_less_list :: "bool \<Rightarrow> pyval list \<Rightarrow> pyval list \<Rightarrow> bool res" where
  "py_less le PyNone w = no_order"
| "py_less le (PyBool b) w = num_less le (PyBool b) w"
| "py_less le (PyInt n) w = num_less le (PyInt n) w"
| "py_less le (PyFloat x) w = num_less le (PyFloat x) w"
| "py_less le (PyStr s) w =
     (case w of PyStr t \<Rightarrow> Inr (if le then s \<le> t else s < t) | _ \<Rightarrow> no_order)"
| "py_less le (PyList vs) w = (case w of PyList ws \<Rightarrow> py_less_list le vs ws | _ \<Rightarrow> no_order)"
| "py_less le (PyTuple vs) w = (case w of PyTuple ws \<Rightarrow> py_less_list le vs ws | _ \<Rightarrow> no_order)"
| "py_less le (PyDict d) w = no_order"
| "py_less_list le [] ws = Inr (ws \<noteq> [] \<or> le)"
| "py_less_list le (v # vs) ws =
     (case ws of
        [] \<Rightarrow> Inr False
      | w # ws' \<Rightarrow> if py_eq v w then py_less_list le vs ws' else py_less le v w)"

primrec hashable :: "pyval \<Rightarrow> bool" and hashable_list :: "pyval list \<Rightarrow> bool" where
  "hashable PyNone = True"
| "hashable (PyBool b) = True"
| "hashable (PyInt n) = True"
| "hashable (PyFloat x) = True"
| "hashable (PyStr s) = True"
| "hashable (PyList vs) = False"
| "hashable (PyTuple vs) = hashable_list vs"
| "hashable (PyDict d) = False"
| "hashable_list [] = True"
| "hashable_list (v # vs) = (hashable v \<and> hashable_list vs)"

definition unhashable :: "'a res" where
  "unhashable = raise TypeError ''unhashable type''"

fun pd_get :: "(pyval \<times> pyval) list \<Rightarrow> pyval \<Rightarrow> pyval option" where
  "pd_get [] k = None"
| "pd_get ((k', v) # d) k = (if py_eq k' k then Some v else pd_get d k)"

fun pd_set :: "(pyval \<times> pyval) list \<Rightarrow> pyval \<Rightarrow> pyval \<Rightarrow> (pyval \<times> pyval) list" where
  "pd_set [] k v = [(k, v)]"
| "pd_set ((k', v') # d) k v = (if py_eq k' k then (k', v) # d else (k', v') # pd_set d k v)"

definition py_in :: "pyval \<Rightarrow> pyval \<Rightarrow> bool res" where
  "py_in v container =
     (case container of
        PyStr t \<Rightarrow> (case v of PyStr s \<Rightarrow> Inr (substr_in s t)
                    | _ \<Rightarrow> raise TypeError ''in <string> requires string as left operand'')
      | PyList ws \<Rightarrow> Inr (list_ex (py_eq v) ws)
      | PyTuple ws \<Rightarrow> Inr (list_ex (py_eq v) ws)
      | PyDict d \<Rightarrow> if hashable v then Inr (pd_get d v \<noteq> None) else unhashable
      | _ \<Rightarrow> raise TypeError ''argument is not iterable'')"

fun num_val :: "num \<Rightarrow> pyval" where
  "num_val (Whole n) = PyInt n"
| "num_val (Float x) = PyFloat x"

fun to_float :: "num \<Rightarrow> pyfloat" where
  "to_float (Whole n) = float_of_int n"
| "to_float (Float x) = x"

definition num_op :: "(int \<Rightarrow> int \<Rightarrow> int) \<Rightarrow> (pyfloat \<Rightarrow> pyfloat \<Rightarrow> pyfloat) \<Rightarrow> num \<Rightarrow> num \<Rightarrow> num" where
  "num_op f g m n =
     (case (m, n) of (Whole a, Whole b) \<Rightarrow> Whole (f a b) | _ \<Rightarrow> Float (g (to_float m) (to_float n)))"

definition no_op :: "'a res" where
  "no_op = raise TypeError ''unsupported operand types''"

definition py_add :: "pyval \<Rightarrow> pyval \<Rightarrow> pyval res" where
  "py_add v w =
     (case (v, w) of
        (PyStr s, PyStr t) \<Rightarrow> Inr (PyStr (s @ t))
      | (PyList vs, PyList ws) \<Rightarrow> Inr (PyList (vs @ ws))
      | (PyTuple vs, PyTuple ws) \<Rightarrow> Inr (PyTuple (vs @ ws))
      | _ \<Rightarrow> (case (as_num v, as_num w) of
                (Some m, Some n) \<Rightarrow> Inr (num_val (num_op (+) fadd m n))
              | _ \<Rightarrow> no_op))"

definition py_sub :: "pyval \<Rightarrow> pyval \<Rightarrow> pyval res" where
  "py_sub v w =
     (case (as_num v, as_num w) of
        (Some m, Some n) \<Rightarrow> Inr (num_val (num_op (-) fsub m n))
      | _ \<Rightarrow> no_op)"

fun py_repeat :: "pyval \<Rightarrow> int \<Rightarrow> pyval option" where
  "py_repeat (PyStr s) n = Some (PyStr (concat (replicate (nat n) s)))"
| "py_repeat (PyList vs) n = Some (PyList (concat (replicate (nat n) vs)))"
| "py_repeat (PyTuple vs) n = Some (PyTuple (concat (replicate (nat n) vs)))"
| "py_repeat v n = None"

definition opt_res :: "'a option \<Rightarrow> 'a res" where
  "opt_res x = (case x of None \<Rightarrow> no_op | Some v \<Rightarrow> Inr v)"

definition py_mult :: "pyval \<Rightarrow> pyval \<Rightarrow> pyval res" where
  "py_mult v w =
     (case (as_num v, as_num w) of
        (Some m, Some n) \<Rightarrow> Inr (num_val (num_op (*) fmul m n))
      | _ \<Rightarrow>
          (case as_int w of
             Some n \<Rightarrow> opt_res (py_repeat v n)
           | None \<Rightarrow> (case as_int v of Some n \<Rightarrow> opt_res (py_repeat w n) | None \<Rightarrow> no_op)))"

definition py_div :: "pyval \<Rightarrow> pyval \<Rightarrow> pyval res" where
  "py_div v w =
     (case (as_num v, as_num w) of
        (Some m, Some n) \<Rightarrow>
          if num_rat n = 0 then raise ZeroDivisionError ''division by zero''
          else (case (m, n) of
                  (Whole a, Whole b) \<Rightarrow> Inr (PyFloat (int_truediv a b))
                | _ \<Rightarrow> Inr (PyFloat (fdiv (to_float m) (to_float n))))
      | _ \<Rightarrow> no_op)"

text \<open>\<open>x % y\<close> on floats: the exact remainder of truncated division, moved into the sign of \<open>y\<close>.\<close>

definition float_mod :: "pyfloat \<Rightarrow> pyfloat \<Rightarrow> pyfloat" where
  "float_mod x y =
     (let r = x - y * of_int (int_of_float (x / y))
      in if r \<noteq> 0 \<and> (y < 0) \<noteq> (r < 0) then fadd r y else r)"

definition py_mod :: "(string \<Rightarrow> pyval \<Rightarrow> pyval res) \<Rightarrow> pyval \<Rightarrow> pyval \<Rightarrow> pyval res" where
  "py_mod fmt v w =
     (case v of
        PyStr s \<Rightarrow> fmt s w
      | _ \<Rightarrow>
          (case (as_num v, as_num w) of
             (Some m, Some n) \<Rightarrow>
               if num_rat n = 0 then raise ZeroDivisionError ''modulo by zero''
               else Inr (num_val (num_op (mod) float_mod m n))
           | _ \<Rightarrow> no_op))"

definition seq_index :: "pyval list \<Rightarrow> pyval \<Rightarrow> pyval res" where
  "seq_index vs k =
     (case as_int k of
        None \<Rightarrow> raise TypeError ''indices must be integers or slices''
      | Some n \<Rightarrow>
          (let i = (if n < 0 then n + int (length vs) else n)
           in if 0 \<le> i \<and> i < int (length vs) then Inr (vs ! nat i)
              else raise IndexError ''index out of range''))"

definition py_getitem :: "pyval \<Rightarrow> pyval \<Rightarrow> pyval res" where
  "py_getitem v k =
     (case v of
        PyList vs \<Rightarrow> seq_index vs k
      | PyTuple vs \<Rightarrow> seq_index vs k
      | PyStr s \<Rightarrow> seq_index (map (\<lambda>c. PyStr [c]) s) k
      | PyDict d \<Rightarrow>
          if \<not> hashable k then unhashable
          else (case pd_get d k of None \<Rightarrow> raise KeyError [] | Some w \<Rightarrow> Inr w)
      | _ \<Rightarrow> raise TypeError ''object is not subscriptable'')"

section \<open>The tree and the walk\<close>

datatype boolop = And | Or
datatype unaryop = Not | OtherUnary
datatype cmpop = Eq | NotEq | Gt | GtE | Lt | LtE | In | NotIn | OtherCmp
datatype binop = Add | Sub | Mult | Div | Mod | OtherBin

datatype expr =
    Constant pyval
  | Name string
  | Expression expr
  | BoolOp boolop "expr list"
  | UnaryOp unaryop expr
  | Compare expr "(cmpop \<times> expr) list"
  | Subscript expr expr
  | BinOp binop expr expr
  | List "expr list"
  | Tuple "expr list"
  | Dict "(expr option \<times> expr) list"
  | Other string

definition apply_compare :: "cmpop \<Rightarrow> pyval \<Rightarrow> pyval \<Rightarrow> bool res" where
  "apply_compare op l r =
     (case op of
        Eq \<Rightarrow> Inr (py_eq l r)
      | NotEq \<Rightarrow> Inr (\<not> py_eq l r)
      | Gt \<Rightarrow> py_less False r l
      | GtE \<Rightarrow> py_less True r l
      | Lt \<Rightarrow> py_less False l r
      | LtE \<Rightarrow> py_less True l r
      | In \<Rightarrow> py_in l r
      | NotIn \<Rightarrow> rbind (py_in l r) (\<lambda>b. Inr (\<not> b))
      | OtherCmp \<Rightarrow> raise ValueError ''unsupported comparison operator'')"

definition apply_binop ::
  "(string \<Rightarrow> pyval \<Rightarrow> pyval res) \<Rightarrow> binop \<Rightarrow> pyval \<Rightarrow> pyval \<Rightarrow> pyval res" where
  "apply_binop fmt op l r =
     (case op of
        Add \<Rightarrow> py_add l r
      | Sub \<Rightarrow> py_sub l r
      | Mult \<Rightarrow> py_mult l r
      | Div \<Rightarrow> py_div l r
      | Mod \<Rightarrow> py_mod fmt l r
      | OtherBin \<Rightarrow> raise ValueError ''unsupported binary operator'')"

text \<open>
  The walk. \<open>eval_chain\<close> is the loop over a comparison's operators and \<open>eval_link\<close> its
  body: every operand is evaluated, but an operator is applied only while the result is
  still true. \<open>eval_dict\<close> and \<open>eval_item\<close> are the loop over a dict display: an
  assignment to an item evaluates the value first, then the key.
\<close>

type_synonym formatter = "string \<Rightarrow> pyval \<Rightarrow> pyval res"
type_synonym names = "(string \<times> pyval) list"

primrec eval :: "formatter \<Rightarrow> names \<Rightarrow> expr \<Rightarrow> pyval res" and
    eval_all :: "formatter \<Rightarrow> names \<Rightarrow> expr list \<Rightarrow> pyval list res" and
    eval_chain :: "formatter \<Rightarrow> names \<Rightarrow> bool \<Rightarrow> pyval \<Rightarrow> (cmpop \<times> expr) list \<Rightarrow> bool res" and
    eval_link :: "formatter \<Rightarrow> names \<Rightarrow> bool \<Rightarrow> pyval \<Rightarrow> cmpop \<times> expr \<Rightarrow> (bool \<times> pyval) res" and
    eval_dict :: "formatter \<Rightarrow> names \<Rightarrow> (pyval \<times> pyval) list \<Rightarrow> (expr option \<times> expr) list \<Rightarrow>
      (pyval \<times> pyval) list res" and
    eval_item :: "formatter \<Rightarrow> names \<Rightarrow> (pyval \<times> pyval) list \<Rightarrow> expr option \<times> expr \<Rightarrow>
      (pyval \<times> pyval) list res" and
    eval_key :: "formatter \<Rightarrow> names \<Rightarrow> expr option \<Rightarrow> pyval res" where
  "eval fmt ctx (Constant v) = Inr v"
| "eval fmt ctx (Name x) =
     (case dget ctx x of None \<Rightarrow> raise ValueError ''unknown name in condition'' | Some v \<Rightarrow> Inr v)"
| "eval fmt ctx (Expression e) = eval fmt ctx e"
| "eval fmt ctx (BoolOp op es) =
     rbind (eval_all fmt ctx es) (\<lambda>vs.
       Inr (PyBool (case op of And \<Rightarrow> list_all truthy vs | Or \<Rightarrow> list_ex truthy vs)))"
| "eval fmt ctx (UnaryOp op e) =
     (case op of
        Not \<Rightarrow> rbind (eval fmt ctx e) (\<lambda>v. Inr (PyBool (\<not> truthy v)))
      | OtherUnary \<Rightarrow> raise ValueError ''unsupported unary operator'')"
| "eval fmt ctx (Compare e rest) =
     rbind (eval fmt ctx e) (\<lambda>l. rbind (eval_chain fmt ctx True l rest) (\<lambda>b. Inr (PyBool b)))"
| "eval fmt ctx (Subscript e k) =
     rbind (eval fmt ctx e) (\<lambda>v. rbind (eval fmt ctx k) (\<lambda>i. py_getitem v i))"
| "eval fmt ctx (BinOp op e1 e2) =
     (if op = OtherBin then raise ValueError ''unsupported binary operator''
      else rbind (eval fmt ctx e1) (\<lambda>l. rbind (eval fmt ctx e2) (\<lambda>r. apply_binop fmt op l r)))"
| "eval fmt ctx (List es) = rbind (eval_all fmt ctx es) (\<lambda>vs. Inr (PyList vs))"
| "eval fmt ctx (Tuple es) = rbind (eval_all fmt ctx es) (\<lambda>vs. Inr (PyTuple vs))"
| "eval fmt ctx (Dict items) = rbind (eval_dict fmt ctx [] items) (\<lambda>d. Inr (PyDict d))"
| "eval fmt ctx (Other n) = raise ValueError ''unsupported condition syntax''"
| "eval_all fmt ctx [] = Inr []"
| "eval_all fmt ctx (e # es) =
     rbind (eval fmt ctx e) (\<lambda>v. rbind (eval_all fmt ctx es) (\<lambda>vs. Inr (v # vs)))"
| "eval_chain fmt ctx result l [] = Inr result"
| "eval_chain fmt ctx result l (link # rest) =
     rbind (eval_link fmt ctx result l link) (\<lambda>(b, r). eval_chain fmt ctx b r rest)"
| "eval_link fmt ctx result l (op, e) =
     (if op = OtherCmp then raise ValueError ''unsupported comparison operator''
      else rbind (eval fmt ctx e) (\<lambda>r.
        rbind (if result then apply_compare op l r else Inr False) (\<lambda>b. Inr (b, r))))"
| "eval_dict fmt ctx acc [] = Inr acc"
| "eval_dict fmt ctx acc (item # items) =
     rbind (eval_item fmt ctx acc item) (\<lambda>acc'. eval_dict fmt ctx acc' items)"
| "eval_item fmt ctx acc (ko, e) =
     (if ko = None then raise ValueError ''dict unpacking is not supported in conditions''
      else rbind (eval fmt ctx e) (\<lambda>v.
           rbind (eval_key fmt ctx ko) (\<lambda>key.
             if hashable key then Inr (pd_set acc key v) else unhashable)))"
| "eval_key fmt ctx None = raise ValueError ''dict unpacking is not supported in conditions''"
| "eval_key fmt ctx (Some k) = eval fmt ctx k"

definition condition_context ::
  "pyval \<Rightarrow> pyval \<Rightarrow> string \<Rightarrow> pyval \<Rightarrow> (string \<times> pyval) list" where
  "condition_context pl response act accumulated =
     [(''payload'', pl), (''response'', response), (''action'', PyStr act),
      (''accumulated'', accumulated)]"

text \<open>\<open>parse\<close> is \<open>ast.parse(expression, mode="eval").body\<close>.\<close>

definition evaluate ::
  "(string \<Rightarrow> expr res) \<Rightarrow> (string \<Rightarrow> pyval \<Rightarrow> pyval res) \<Rightarrow> string \<Rightarrow> pyval \<Rightarrow> pyval \<Rightarrow> string \<Rightarrow>
     pyval \<Rightarrow> bool res" where
  "evaluate parse fmt expression pl response act accumulated =
     rbind (parse expression) (\<lambda>e.
     rbind (eval fmt (condition_context pl response act accumulated) e) (\<lambda>v. Inr (truthy v)))"

section \<open>Properties\<close>

definition condition_errors :: "pyclass list" where
  "condition_errors = [ValueError, TypeError, KeyError, IndexError, ZeroDivisionError]"

definition contained :: "'a res \<Rightarrow> bool" where
  "contained r \<longleftrightarrow> (\<forall>e. r = Inl e \<longrightarrow> exn_class e \<in> set condition_errors)"

lemma contained_Inr [simp]: "contained (Inr v)"
  by (simp add: contained_def)

lemma contained_raise [simp]: "contained (raise c m :: 'a res) \<longleftrightarrow> c \<in> set condition_errors"
  by (simp add: contained_def)

lemma contained_rbind [intro!]: "contained m \<Longrightarrow> (\<And>v. contained (f v)) \<Longrightarrow> contained (rbind m f)"
  by (cases m) (auto simp: contained_def)

lemma listed [simp]:
  "ValueError \<in> set condition_errors" "TypeError \<in> set condition_errors"
  "KeyError \<in> set condition_errors" "IndexError \<in> set condition_errors"
  "ZeroDivisionError \<in> set condition_errors"
  by (simp_all add: condition_errors_def)

lemma contained_ops [simp]:
  "contained no_order" "contained (no_op :: 'a res)" "contained (unhashable :: 'a res)"
  "contained (num_less le v w)" "contained (py_in v w)" "contained (py_add v w)"
  "contained (py_sub v w)" "contained (py_mult v w)" "contained (py_div v w)"
  "contained (seq_index vs v)" "contained (py_getitem v w)"
  by (auto simp: no_order_def no_op_def unhashable_def num_less_def py_in_def py_add_def py_sub_def
      py_mult_def py_div_def seq_index_def py_getitem_def opt_res_def Let_def
      split: option.splits pyval.splits num.splits prod.splits)

lemma contained_less: "contained (py_less le v w)" "contained (py_less_list le vs ws)"
proof -
  have "contained (py_less le v w) \<and> True" for v w
  proof (induction v arbitrary: w)
    case (PyList vs)
    have "contained (py_less_list le vs ws)" for ws
      using PyList by (induction vs arbitrary: ws) (auto split: list.splits)
    then show ?case by (auto split: pyval.splits)
  next
    case (PyTuple vs)
    have "contained (py_less_list le vs ws)" for ws
      using PyTuple by (induction vs arbitrary: ws) (auto split: list.splits)
    then show ?case by (auto split: pyval.splits)
  qed (auto split: pyval.splits)
  then show "contained (py_less le v w)" by blast
  then show "contained (py_less_list le vs ws)" for vs ws
    using \<open>\<And>w v. contained (py_less le v w) \<and> True\<close>
    by (induction vs arbitrary: ws) (auto split: list.splits)
qed

lemma contained_compare: "contained (apply_compare op l r)"
  by (auto simp: apply_compare_def contained_less split: cmpop.splits)

lemma contained_binop:
  "(\<And>s v. contained (fmt s v)) \<Longrightarrow> contained (apply_binop fmt op l r)"
  by (auto simp: apply_binop_def py_mod_def split: binop.splits pyval.splits option.splits)

lemma contained_chain:
  "(\<And>l e. l \<in> set rest \<Longrightarrow> contained (eval fmt ctx (snd l))) \<Longrightarrow>
   contained (eval_chain fmt ctx b v rest)"
proof (induction rest arbitrary: b v)
  case (Cons link rest)
  obtain op e where link: "link = (op, e)" by (cases link)
  from Cons.prems[of link] have "contained (eval fmt ctx e)" by (simp add: link)
  then have "contained (eval_link fmt ctx b v link)"
    by (auto simp: link contained_compare)
  with Cons show ?case by (auto split: prod.splits)
qed simp

lemma contained_dict:
  "(\<And>i. i \<in> set items \<Longrightarrow> contained (eval fmt ctx (snd i)) \<and>
     (\<forall>k. fst i = Some k \<longrightarrow> contained (eval fmt ctx k))) \<Longrightarrow>
   contained (eval_dict fmt ctx acc items)"
proof (induction items arbitrary: acc)
  case (Cons item items)
  obtain ko e where item: "item = (ko, e)" by (cases item)
  from Cons.prems[of item] have "contained (eval_item fmt ctx acc item)"
    by (cases ko) (auto simp: item)
  with Cons show ?case by auto
qed simp

lemma contained_all:
  "(\<And>e. e \<in> set es \<Longrightarrow> contained (eval fmt ctx e)) \<Longrightarrow> contained (eval_all fmt ctx es)"
  by (induction es) auto



text \<open>The reading of \<open>and\<close> and \<open>or\<close> that stops at the first operand that decides.\<close>

fun lazy_bool :: "formatter \<Rightarrow> names \<Rightarrow> boolop \<Rightarrow> expr list \<Rightarrow> bool res" where
  "lazy_bool fmt ctx op [] = Inr (op = And)"
| "lazy_bool fmt ctx op (e # es) =
     rbind (eval fmt ctx e) (\<lambda>v.
       if truthy v = (op = And) then lazy_bool fmt ctx op es else Inr (op \<noteq> And))"

text \<open>
  Where the evaluator answers, its \<open>and\<close> and \<open>or\<close> agree with the short-circuit
  reading, as a boolean; it answers less often, as the next theorem shows.
\<close>

theorem boolean_operators_agree:
  assumes "eval fmt ctx (BoolOp op es) = Inr w"
  shows "\<exists>b. w = PyBool b \<and> lazy_bool fmt ctx op es = Inr b"
proof -
  have "eval_all fmt ctx es = Inr vs \<Longrightarrow>
      lazy_bool fmt ctx op es = Inr (case op of And \<Rightarrow> list_all truthy vs | Or \<Rightarrow> list_ex truthy vs)" for vs
  proof (induction es arbitrary: vs)
    case Nil
    then show ?case by (cases op) auto
  next
    case (Cons e es)
    then obtain v vs' where v: "eval fmt ctx e = Inr v" "eval_all fmt ctx es = Inr vs'" "vs = v # vs'"
      by (auto simp: rbind_Inr_iff)
    from Cons.IH[OF v(2)] v show ?case by (cases op) auto
  qed
  with assms show ?thesis by (auto simp: rbind_Inr_iff)
qed

theorem boolean_operators_agree_witness:
  "lazy_bool (\<lambda>s v. no_op) [(''payload'', PyInt 0)] Or [Name ''payload'', Constant (PyInt 3)] = Inr True"
  using boolean_operators_agree[of "\<lambda>s v. no_op" "[(''payload'', PyInt 0)]" Or
      "[Name ''payload'', Constant (PyInt 3)]" "PyBool True"] by simp

text \<open>
  \<open>and\<close> and \<open>or\<close> do not guard: both operands are evaluated before either decides, so
  the guard \<open>response != None and response['score'] > 1\<close> raises \<open>TypeError\<close> on the first
  step of a workflow, where the response is \<open>None\<close> and the guard alone is false.
\<close>

theorem guards_do_not_guard:
  "let guard = Compare (Name ''response'') [(NotEq, Constant PyNone)];
       test = Compare (Subscript (Name ''response'') (Constant (PyStr ''score''))) [(Gt, Constant (PyInt 1))];
       ctx = condition_context (PyDict []) PyNone ''score'' (PyDict [])
   in eval fmt ctx guard = Inr (PyBool False)
    \<and> lazy_bool fmt ctx And [guard, test] = Inr False
    \<and> eval fmt ctx (BoolOp And [guard, test]) = raise TypeError ''object is not subscriptable''"
  by (simp add: condition_context_def py_getitem_def apply_compare_def)

end
