(* ===== verification/Settings.thy ===== *)
theory Settings
  imports Registry Condition_Eval
begin

text \<open>
  The configuration of Gate, \<open>config/settings.py\<close>: the readers of the environment
  (\<open>getenv\<close> maps a name to its value), the policy of a caller, the settings with
  every validator in the order pydantic runs them, and the key a signature is
  verified with. \<open>json.loads\<close> and \<open>float\<close> are the arguments \<open>loads\<close> and \<open>as_float\<close>.
\<close>

section \<open>Reading the environment\<close>

type_synonym environ = "string \<Rightarrow> string option"

definition env_bool :: "environ \<Rightarrow> string \<Rightarrow> bool \<Rightarrow> bool" where
  "env_bool getenv name dflt =
     (case getenv name of
        None \<Rightarrow> dflt
      | Some raw \<Rightarrow> canon raw \<in> {''1'', ''true'', ''yes'', ''on''})"

fun split_on :: "char \<Rightarrow> string \<Rightarrow> string list" where
  "split_on c [] = [[]]"
| "split_on c (x # xs) =
     (if x = c then [] # split_on c xs
      else (case split_on c xs of [] \<Rightarrow> [[x]] | w # ws \<Rightarrow> (x # w) # ws))"

definition env_tuple :: "environ \<Rightarrow> string \<Rightarrow> string list \<Rightarrow> string list" where
  "env_tuple getenv name dflt =
     (case getenv name of
        None \<Rightarrow> dflt
      | Some raw \<Rightarrow> map canon (filter (\<lambda>item. strip item \<noteq> []) (split_on (CHR '','') raw)))"

text \<open>\<open>os.getenv(name, default)\<close> and the \<open>or\<close> of two readings.\<close>

definition getenv_or :: "environ \<Rightarrow> string \<Rightarrow> string \<Rightarrow> string" where
  "getenv_or getenv name dflt = opt_or (getenv name) dflt"

definition truthy_str :: "string option \<Rightarrow> bool" where
  "truthy_str v \<longleftrightarrow> v \<noteq> None \<and> v \<noteq> Some []"

definition either_str :: "string option \<Rightarrow> string option \<Rightarrow> string option" where
  "either_str a b = (if truthy_str a then a else b)"

text \<open>Python's \<open>int(s)\<close>: an optional sign and digits, with single underscores between digits.\<close>

definition is_digit :: "char \<Rightarrow> bool" where
  "is_digit c = (let n = (of_char c :: nat) in 48 \<le> n \<and> n \<le> 57)"

fun digits_val :: "int \<Rightarrow> bool \<Rightarrow> string \<Rightarrow> int option" where
  "digits_val acc b [] = (if b then Some acc else None)"
| "digits_val acc b (c # cs) =
     (if is_digit c then digits_val (10 * acc + (of_char c - 48)) True cs
      else if c = CHR ''_'' \<and> b then digits_val acc False cs
      else None)"

definition int_of_str :: "string \<Rightarrow> int res" where
  "int_of_str s =
     (let t = strip s;
          (neg, ds) = (case t of
              c # r \<Rightarrow> if c = CHR ''-'' then (True, r) else if c = CHR ''+'' then (False, r) else (False, t)
            | [] \<Rightarrow> (False, []))
      in if 4300 < length (filter is_digit ds) then raise ValueError ''Exceeds the limit for integer string conversion''
         else (case digits_val 0 False ds of
                 None \<Rightarrow> raise ValueError ''invalid literal for int()''
               | Some n \<Rightarrow> Inr (if neg then - n else n)))"

section \<open>Keys and caller policies\<close>

fun verifying_entries :: "(string \<times> string) list \<Rightarrow> (pyval \<times> pyval) list \<Rightarrow> (string \<times> string) list res" where
  "verifying_entries result [] = Inr result"
| "verifying_entries result ((key_id, key_value) # items) =
     (case (key_id, key_value) of
        (PyStr i, PyStr v) \<Rightarrow>
          (if strip i = [] \<or> strip v = []
           then raise ValueError ''must not contain blank key_id or key_value''
           else verifying_entries (dset result (strip i) (strip v)) items)
      | _ \<Rightarrow> raise ValueError ''keys and values must all be strings'')"

definition env_verifying_keys ::
  "(string \<Rightarrow> pyval res) \<Rightarrow> environ \<Rightarrow> string \<Rightarrow> (string \<times> string) list res" where
  "env_verifying_keys loads getenv name =
     (let raw = strip (getenv_or getenv name [])
      in if raw = [] \<or> raw = ''{}'' then Inr []
         else (case loads raw of
                 Inl e \<Rightarrow> raise ValueError ''is not valid JSON''
               | Inr (PyDict parsed) \<Rightarrow> verifying_entries [] parsed
               | Inr _ \<Rightarrow> raise ValueError ''must be a JSON object''))"

record caller_policy =
  cp_node :: string
  cp_kind :: string
  cp_tenants :: "string list"
  cp_actions :: "string list"

definition normalize_required_string :: "string \<Rightarrow> string res" where
  "normalize_required_string v =
     (if canon v = [] then raise ValueError ''caller policy node and kind must be non-empty''
      else Inr (canon v))"

definition validate_kind :: "string \<Rightarrow> string res" where
  "validate_kind v =
     (if v \<notin> {''consumer'', ''worker''}
      then raise ValueError ''caller policy kind must be consumer or worker'' else Inr v)"

definition normalize_members :: "string list \<Rightarrow> string list res" where
  "normalize_members v =
     (let normalized = map canon (filter (\<lambda>item. strip item \<noteq> []) v)
      in if normalized = [] then raise ValueError ''caller policy tenants and actions must be non-empty''
         else if \<not> distinct normalized
         then raise ValueError ''caller policy entries must not contain duplicates''
         else Inr normalized)"

definition caller_policy_validate :: "caller_policy \<Rightarrow> caller_policy res" where
  "caller_policy_validate r = as_validation_error
     (rbind (normalize_required_string (cp_node r)) (\<lambda>nd.
      rbind (rbind (normalize_required_string (cp_kind r)) validate_kind) (\<lambda>kind.
      rbind (normalize_members (cp_tenants r)) (\<lambda>tenants.
      rbind (normalize_members (cp_actions r)) (\<lambda>actions.
        Inr \<lparr>cp_node = nd, cp_kind = kind, cp_tenants = tenants, cp_actions = actions\<rparr>)))))"

fun str_items :: "pyval list \<Rightarrow> string list option" where
  "str_items [] = Some []"
| "str_items (PyStr s # vs) = map_option ((#) s) (str_items vs)"
| "str_items (v # vs) = None"

definition caller_policy_from_json :: "pyval \<Rightarrow> caller_policy res" where
  "caller_policy_from_json raw =
     (case raw of
        PyDict d \<Rightarrow>
          (case (pd_get d (PyStr ''node''), pd_get d (PyStr ''kind'')) of
             (Some (PyStr nd), Some (PyStr kind)) \<Rightarrow>
               (case (pd_get d (PyStr ''tenants''), pd_get d (PyStr ''actions'')) of
                  (Some (PyList tenants), Some (PyList actions)) \<Rightarrow>
                    (case (str_items tenants, str_items actions) of
                       (Some ts, Some as) \<Rightarrow> caller_policy_validate
                         \<lparr>cp_node = nd, cp_kind = kind, cp_tenants = ts, cp_actions = as\<rparr>
                     | _ \<Rightarrow> raise ValueError ''tenants and actions must be strings'')
                | _ \<Rightarrow> raise ValueError ''requires list tenants and actions'')
           | _ \<Rightarrow> raise ValueError ''requires string node and kind'')
      | _ \<Rightarrow> raise ValueError ''must be an object of node, kind, tenants, actions'')"

fun policy_entries ::
  "(string \<times> caller_policy) list \<Rightarrow> (pyval \<times> pyval) list \<Rightarrow> (string \<times> caller_policy) list res" where
  "policy_entries result [] = Inr result"
| "policy_entries result ((key_id, record) # items) =
     (case key_id of
        PyStr i \<Rightarrow>
          (if strip i = [] then raise ValueError ''key ids must be non-empty strings''
           else rbind (caller_policy_from_json record) (\<lambda>p. policy_entries (dset result (strip i) p) items))
      | _ \<Rightarrow> raise ValueError ''key ids must be non-empty strings'')"

definition env_caller_policies ::
  "(string \<Rightarrow> pyval res) \<Rightarrow> environ \<Rightarrow> string \<Rightarrow> (string \<times> caller_policy) list res" where
  "env_caller_policies loads getenv name =
     (let raw = strip (getenv_or getenv name [])
      in if raw = [] \<or> raw = ''{}'' then Inr []
         else (case loads raw of
                 Inl e \<Rightarrow> raise ValueError ''is not valid JSON''
               | Inr (PyDict parsed) \<Rightarrow> policy_entries [] parsed
               | Inr _ \<Rightarrow> raise ValueError ''must be a JSON object''))"

section \<open>The settings\<close>

record gate_settings =
  gs_environment :: string
  gs_local_node :: string
  gs_host :: string
  gs_port :: int
  gs_node_registry_path :: "string option"
  gs_health_probe_interval_seconds :: pyfloat
  gs_idempotency_ttl_seconds :: pyfloat
  gs_response_margin_ms :: int
  gs_require_signature :: bool
  gs_dev_mode :: bool
  gs_signing_key :: "string option"
  gs_signing_key_id :: "string option"
  gs_signing_algorithm :: "string option"
  gs_verifying_keys :: "(string \<times> string) list"
  gs_caller_policies :: "(string \<times> caller_policy) list"
  gs_allowed_actions :: "string list"
  gs_allowed_packet_types :: "string list"
  gs_required_idempotency_actions :: "string list"
  gs_allowed_clock_skew_seconds :: int
  gs_max_packet_bytes :: int
  gs_max_hop_depth :: int
  gs_max_delegation_depth :: int
  gs_max_attachments :: int
  gs_max_attachment_size_bytes :: int
  gs_attachment_allowed_schemes :: "string list"
  gs_allow_private_attachment_hosts :: bool
  gs_replay_enabled :: bool
  gs_verify_hop_signatures :: bool
  gs_admin_token :: "string option"
  gs_trusted_ingress_boundary :: "string option"
  gs_trusted_ingress_boundary_evidence :: "string option"
  gs_workflow_config_path :: "string option"

definition ALLOWED_ENVIRONMENTS :: "string list" where
  "ALLOWED_ENVIRONMENTS = [''local'', ''dev'', ''test'', ''staging'', ''prod'']"

definition TRUST_REQUIRED_ENVIRONMENTS :: "string list" where
  "TRUST_REQUIRED_ENVIRONMENTS = [''staging'', ''prod'']"

definition TRUST_BOUNDARY_MODES :: "string list" where
  "TRUST_BOUNDARY_MODES = [''signature'', ''network'']"

text \<open>The defaults the class declares.\<close>

definition settings_defaults :: gate_settings where
  "settings_defaults =
     \<lparr>gs_environment = ''local'', gs_local_node = ''gate'', gs_host = ''0.0.0.0'', gs_port = 9000,
      gs_node_registry_path = None, gs_health_probe_interval_seconds = 15,
      gs_idempotency_ttl_seconds = 86400, gs_response_margin_ms = 500,
      gs_require_signature = False, gs_dev_mode = False, gs_signing_key = None,
      gs_signing_key_id = None, gs_signing_algorithm = None, gs_verifying_keys = [],
      gs_caller_policies = [], gs_allowed_actions = [],
      gs_allowed_packet_types = [''request'', ''command'', ''delegation'', ''replay_request''],
      gs_required_idempotency_actions = [], gs_allowed_clock_skew_seconds = 30,
      gs_max_packet_bytes = 262144, gs_max_hop_depth = 64, gs_max_delegation_depth = 8,
      gs_max_attachments = 32, gs_max_attachment_size_bytes = 10485760,
      gs_attachment_allowed_schemes = [], gs_allow_private_attachment_hosts = False,
      gs_replay_enabled = True, gs_verify_hop_signatures = False, gs_admin_token = None,
      gs_trusted_ingress_boundary = None, gs_trusted_ingress_boundary_evidence = None,
      gs_workflow_config_path = None\<rparr>"

section \<open>Field validators\<close>

definition validate_environment :: "string \<Rightarrow> string res" where
  "validate_environment v =
     (if canon v \<notin> set ALLOWED_ENVIRONMENTS then raise ValueError ''environment must be one of''
      else Inr (canon v))"

definition validate_required_string :: "string \<Rightarrow> string res" where
  "validate_required_string v =
     (if canon v = [] then raise ValueError ''field must not be empty'' else Inr (canon v))"

definition validate_optional_token :: "string option \<Rightarrow> string option res" where
  "validate_optional_token v =
     (case v of
        None \<Rightarrow> Inr None
      | Some s \<Rightarrow> if strip s = [] then raise ValueError ''optional string fields must not be blank''
                  else Inr (Some (strip s)))"

definition validate_workflow_config_path :: "string option \<Rightarrow> string option res" where
  "validate_workflow_config_path v =
     (case v of
        None \<Rightarrow> Inr None
      | Some s \<Rightarrow> if strip s = [] then raise ValueError ''workflow_config_path must not be blank''
                  else Inr (Some (strip s)))"

definition validate_tuple :: "string list \<Rightarrow> string list res" where
  "validate_tuple v =
     (let normalized = map canon (filter (\<lambda>item. strip item \<noteq> []) v)
      in if \<not> distinct normalized then raise ValueError ''tuple entries must not contain duplicates''
         else Inr normalized)"

fun validate_verifying_keys :: "(string \<times> string) list \<Rightarrow> (string \<times> string) list \<Rightarrow> (string \<times> string) list res" where
  "validate_verifying_keys normalized [] = Inr normalized"
| "validate_verifying_keys normalized ((key_id, key_value) # items) =
     (if strip key_id = [] \<or> strip key_value = []
      then raise ValueError ''verifying_keys must not contain blank keys or values''
      else validate_verifying_keys (dset normalized (strip key_id) (strip key_value)) items)"

definition validate_trusted_ingress_boundary :: "string option \<Rightarrow> string option res" where
  "validate_trusted_ingress_boundary v =
     (case v of
        None \<Rightarrow> Inr None
      | Some s \<Rightarrow>
          if canon s = [] then Inr None
          else if canon s \<notin> set TRUST_BOUNDARY_MODES
          then raise ValueError ''trusted_ingress_boundary must be one of''
          else Inr (Some (canon s)))"

text \<open>The numeric constraints \<open>ge\<close>, \<open>gt\<close> and \<open>le\<close> of the fields.\<close>

definition settings_ranges :: "gate_settings \<Rightarrow> unit res" where
  "settings_ranges r =
     (if gs_port r < 1 \<or> 65535 < gs_port r \<or> gs_health_probe_interval_seconds r < 0
         \<or> gs_idempotency_ttl_seconds r \<le> 0 \<or> gs_response_margin_ms r < 0
         \<or> gs_allowed_clock_skew_seconds r < 0 \<or> gs_max_packet_bytes r < 1024
         \<or> gs_max_hop_depth r < 1 \<or> gs_max_delegation_depth r < 1 \<or> gs_max_attachments r < 0
         \<or> gs_max_attachment_size_bytes r < 0
      then raise ValueError ''out of range'' else Inr ())"

section \<open>Model validators\<close>

definition default_signing_algorithm :: "gate_settings \<Rightarrow> gate_settings" where
  "default_signing_algorithm r =
     (if truthy_str (gs_signing_key r) \<and> \<not> truthy_str (gs_signing_algorithm r)
      then r\<lparr>gs_signing_algorithm := Some ''hmac-sha256''\<rparr> else r)"

definition validate_caller_policies :: "gate_settings \<Rightarrow> unit res" where
  "validate_caller_policies s =
     (if gs_caller_policies s \<noteq> [] \<and> \<not> gs_require_signature s
      then raise ValueError ''L9_KEY_ALLOWED_ACTIONS_JSON requires L9_REQUIRE_SIGNATURE=true''
      else if \<not> list_all (dhas (gs_verifying_keys s)) (dkeys (gs_caller_policies s))
      then raise ValueError ''L9_KEY_ALLOWED_ACTIONS_JSON names key ids not in L9_VERIFYING_KEYS_JSON''
      else Inr ())"

definition validate_signing_identity :: "gate_settings \<Rightarrow> unit res" where
  "validate_signing_identity s =
     (if gs_signing_key s \<noteq> None \<and> gs_signing_key_id s = None
      then raise ValueError ''L9_SIGNING_KEY is set but L9_SIGNING_KEY_ID is empty''
      else if gs_signing_key s = None \<and> gs_signing_key_id s \<noteq> None
      then raise ValueError ''L9_SIGNING_KEY_ID is set but L9_SIGNING_KEY is empty''
      else Inr ())"

definition trust_required :: "gate_settings \<Rightarrow> bool" where
  "trust_required s \<longleftrightarrow> gs_environment s \<in> set TRUST_REQUIRED_ENVIRONMENTS"

definition caller_policy_required :: "gate_settings \<Rightarrow> bool" where
  "caller_policy_required s \<longleftrightarrow> gs_environment s \<in> set TRUST_REQUIRED_ENVIRONMENTS"

definition validate_production_trust_boundary :: "gate_settings \<Rightarrow> unit res" where
  "validate_production_trust_boundary s =
     (if \<not> trust_required s then Inr ()
      else if gs_dev_mode s then raise ValueError ''L9_DEV_MODE must not be enabled''
      else
        (let signature_boundary = gs_require_signature s \<and> gs_verifying_keys s \<noteq> []
         in if gs_require_signature s \<and> gs_verifying_keys s = []
            then raise ValueError ''L9_REQUIRE_SIGNATURE is enabled but L9_VERIFYING_KEYS_JSON is empty''
            else if signature_boundary then Inr ()
            else if gs_trusted_ingress_boundary s = Some ''network''
            then (if \<not> truthy_str (gs_trusted_ingress_boundary_evidence s)
                  then raise ValueError ''network boundary requires evidence'' else Inr ())
            else raise ValueError ''no proven ingress trust boundary''))"

definition validate_production_admin_token :: "gate_settings \<Rightarrow> unit res" where
  "validate_production_admin_token s =
     (if \<not> trust_required s then Inr ()
      else if \<not> truthy_str (gs_admin_token s) then raise ValueError ''requires GATE_ADMIN_TOKEN''
      else Inr ())"

definition validate_caller_policy_coverage :: "gate_settings \<Rightarrow> unit res" where
  "validate_caller_policy_coverage s =
     (if \<not> trust_required s then Inr ()
      else if \<not> list_all (dhas (gs_caller_policies s)) (dkeys (gs_verifying_keys s))
      then raise ValueError ''staging and prod require a caller policy for every verifying key id''
      else Inr ())"

section \<open>Construction\<close>

text \<open>
  \<open>GateSettings(...)\<close>: the \<open>before\<close> validator, the validators of the fields, then the
  \<open>after\<close> validators in the order of their declaration.
\<close>

definition settings_fields :: "gate_settings \<Rightarrow> gate_settings res" where
  "settings_fields r =
     rbind (validate_environment (gs_environment r)) (\<lambda>env.
     rbind (validate_required_string (gs_local_node r)) (\<lambda>local_node.
     rbind (validate_required_string (gs_host r)) (\<lambda>host.
     rbind (settings_ranges r) (\<lambda>_.
     rbind (validate_optional_token (gs_signing_key_id r)) (\<lambda>key_id.
     rbind (validate_optional_token (gs_signing_algorithm r)) (\<lambda>algorithm.
     rbind (validate_verifying_keys [] (gs_verifying_keys r)) (\<lambda>keys.
     rbind (validate_tuple (gs_allowed_actions r)) (\<lambda>actions.
     rbind (validate_tuple (gs_allowed_packet_types r)) (\<lambda>packet_types.
     rbind (validate_tuple (gs_required_idempotency_actions r)) (\<lambda>idempotency_actions.
     rbind (validate_tuple (gs_attachment_allowed_schemes r)) (\<lambda>schemes.
     rbind (validate_optional_token (gs_admin_token r)) (\<lambda>admin_token.
     rbind (validate_trusted_ingress_boundary (gs_trusted_ingress_boundary r)) (\<lambda>boundary.
     rbind (validate_workflow_config_path (gs_workflow_config_path r)) (\<lambda>workflow_path.
       Inr (r\<lparr>gs_environment := env, gs_local_node := local_node, gs_host := host,
         gs_signing_key_id := key_id, gs_signing_algorithm := algorithm, gs_verifying_keys := keys,
         gs_allowed_actions := actions, gs_allowed_packet_types := packet_types,
         gs_required_idempotency_actions := idempotency_actions,
         gs_attachment_allowed_schemes := schemes, gs_admin_token := admin_token,
         gs_trusted_ingress_boundary := boundary, gs_workflow_config_path := workflow_path\<rparr>)
     ))))))))))))))"

definition gate_settings_validate :: "gate_settings \<Rightarrow> gate_settings res" where
  "gate_settings_validate r = as_validation_error
     (rbind (settings_fields (default_signing_algorithm r)) (\<lambda>s.
      rbind (validate_caller_policies s) (\<lambda>_.
      rbind (validate_signing_identity s) (\<lambda>_.
      rbind (validate_production_trust_boundary s) (\<lambda>_.
      rbind (validate_production_admin_token s) (\<lambda>_.
      rbind (validate_caller_policy_coverage s) (\<lambda>_. Inr s)))))))"

definition resolve_verifying_key :: "gate_settings \<Rightarrow> string option \<Rightarrow> string option" where
  "resolve_verifying_key s key_id =
     (case key_id of
        None \<Rightarrow> None
      | Some i \<Rightarrow>
          (case dget (gs_verifying_keys s) i of
             Some v \<Rightarrow> Some v
           | None \<Rightarrow> if gs_signing_key_id s \<noteq> None \<and> Some i = gs_signing_key_id s \<and> gs_signing_key s \<noteq> None
                     then gs_signing_key s else None))"

text \<open>\<open>get_settings\<close>: the arguments are evaluated in the order of the call.\<close>

definition env_int :: "environ \<Rightarrow> string \<Rightarrow> string \<Rightarrow> int res" where
  "env_int getenv name dflt = int_of_str (getenv_or getenv name dflt)"

definition none_if_empty :: "string option \<Rightarrow> string option" where
  "none_if_empty v = (if truthy_str v then v else None)"

definition get_settings ::
  "(string \<Rightarrow> pyval res) \<Rightarrow> (string \<Rightarrow> pyfloat res) \<Rightarrow> environ \<Rightarrow> gate_settings res" where
  "get_settings loads as_float getenv =
     (let admin_token = none_if_empty (either_str (getenv ''GATE_ADMIN_TOKEN'') (getenv ''L9_GATE_ADMIN_TOKEN''))
      in
      rbind (env_verifying_keys loads getenv ''L9_VERIFYING_KEYS_JSON'') (\<lambda>verifying_keys.
      rbind (env_int getenv ''PORT'' ''8000'') (\<lambda>port.
      rbind (env_caller_policies loads getenv ''L9_KEY_ALLOWED_ACTIONS_JSON'') (\<lambda>caller_policies.
      rbind (env_int getenv ''L9_ALLOWED_CLOCK_SKEW_SECONDS'' ''30'') (\<lambda>skew.
      rbind (env_int getenv ''L9_MAX_PACKET_BYTES'' ''262144'') (\<lambda>packet_bytes.
      rbind (env_int getenv ''L9_MAX_HOP_DEPTH'' ''64'') (\<lambda>hop_depth.
      rbind (env_int getenv ''L9_MAX_DELEGATION_DEPTH'' ''8'') (\<lambda>delegation_depth.
      rbind (env_int getenv ''L9_MAX_ATTACHMENTS'' ''32'') (\<lambda>attachments.
      rbind (env_int getenv ''L9_MAX_ATTACHMENT_SIZE_BYTES'' ''10485760'') (\<lambda>attachment_bytes.
      rbind (as_float (getenv_or getenv ''GATE_HEALTH_PROBE_INTERVAL_SECONDS'' ''15'')) (\<lambda>probe_interval.
      rbind (as_float (getenv_or getenv ''GATE_IDEMPOTENCY_TTL_SECONDS'' ''86400'')) (\<lambda>ttl.
      rbind (env_int getenv ''GATE_RESPONSE_MARGIN_MS'' ''500'') (\<lambda>margin.
        gate_settings_validate
          \<lparr>gs_environment = getenv_or getenv ''L9_ENVIRONMENT'' ''local'',
           gs_local_node = getenv_or getenv ''GATE_LOCAL_NODE'' ''gate'',
           gs_host = getenv_or getenv ''HOST'' ''0.0.0.0'', gs_port = port,
           gs_node_registry_path = none_if_empty (getenv ''GATE_NODE_REGISTRY_PATH''),
           gs_health_probe_interval_seconds = probe_interval, gs_idempotency_ttl_seconds = ttl,
           gs_response_margin_ms = margin,
           gs_require_signature = env_bool getenv ''L9_REQUIRE_SIGNATURE'' False,
           gs_dev_mode = env_bool getenv ''L9_DEV_MODE'' False,
           gs_signing_key = either_str (getenv ''L9_SIGNING_KEY'') (getenv ''L9_SIGNING_SECRET''),
           gs_signing_key_id = getenv ''L9_SIGNING_KEY_ID'',
           gs_signing_algorithm = getenv ''L9_SIGNING_ALGORITHM'',
           gs_verifying_keys = verifying_keys, gs_caller_policies = caller_policies,
           gs_allowed_actions = env_tuple getenv ''L9_ALLOWED_ACTIONS'' [],
           gs_allowed_packet_types = env_tuple getenv ''L9_ALLOWED_PACKET_TYPES''
             [''request'', ''command'', ''delegation'', ''replay_request''],
           gs_required_idempotency_actions = env_tuple getenv ''L9_REQUIRE_IDEMPOTENCY_FOR_ACTIONS'' [],
           gs_allowed_clock_skew_seconds = skew, gs_max_packet_bytes = packet_bytes,
           gs_max_hop_depth = hop_depth, gs_max_delegation_depth = delegation_depth,
           gs_max_attachments = attachments, gs_max_attachment_size_bytes = attachment_bytes,
           gs_attachment_allowed_schemes = env_tuple getenv ''L9_ATTACHMENT_ALLOWED_SCHEMES'' [],
           gs_allow_private_attachment_hosts = env_bool getenv ''L9_ALLOW_PRIVATE_ATTACHMENT_HOSTS'' False,
           gs_replay_enabled = env_bool getenv ''L9_REPLAY_ENABLED'' True,
           gs_verify_hop_signatures = env_bool getenv ''L9_VERIFY_HOP_SIGNATURES'' False,
           gs_admin_token = admin_token,
           gs_trusted_ingress_boundary = none_if_empty (getenv ''L9_TRUSTED_INGRESS_BOUNDARY''),
           gs_trusted_ingress_boundary_evidence =
             none_if_empty (getenv ''L9_TRUSTED_INGRESS_BOUNDARY_EVIDENCE''),
           gs_workflow_config_path = none_if_empty (getenv ''GATE_WORKFLOW_CONFIG_PATH'')\<rparr>
      )))))))))))))"

section \<open>What accepted settings guarantee\<close>

lemma validated_keys_dwf:
  "validate_verifying_keys acc ks = Inr out \<Longrightarrow> dwf acc \<Longrightarrow> dwf out"
  by (induction acc ks rule: validate_verifying_keys.induct) (auto split: if_splits simp: dwf_dset)

lemma validated_environment: "validate_environment v = Inr e \<Longrightarrow> e \<in> set ALLOWED_ENVIRONMENTS"
  by (auto simp: validate_environment_def split: if_splits)

lemma validated_token: "validate_optional_token v = Inr t \<Longrightarrow> t \<noteq> Some []"
  by (auto simp: validate_optional_token_def split: option.splits if_splits)

lemma settings_accepted:
  assumes "gate_settings_validate r = Inr s"
  shows "settings_fields (default_signing_algorithm r) = Inr s" "validate_caller_policies s = Inr ()"
    "validate_signing_identity s = Inr ()" "validate_production_trust_boundary s = Inr ()"
    "validate_production_admin_token s = Inr ()" "validate_caller_policy_coverage s = Inr ()"
  using assms by (auto simp: gate_settings_validate_def rbind_Inr_iff)

lemma settings_from_environment:
  assumes "get_settings loads as_float getenv = Inr s"
  shows "\<exists>ps r. env_caller_policies loads getenv ''L9_KEY_ALLOWED_ACTIONS_JSON'' = Inr ps
    \<and> gate_settings_validate r = Inr s \<and> gs_caller_policies r = ps"
  by (insert assms, unfold get_settings_def Let_def rbind_Inr_iff, elim exE conjE,
      intro exI conjI, assumption, assumption, simp)

lemma policies_are_for_known_keys:
  assumes "gate_settings_validate r = Inr s"
  shows "dhas (gs_caller_policies s) k \<Longrightarrow> gs_require_signature s \<and> dhas (gs_verifying_keys s) k"
  using settings_accepted(2)[OF assms]
  by (auto simp: validate_caller_policies_def list_all_iff dhas_iff split: if_splits)

text \<open>What a caller policy looks like once its validators have run.\<close>

definition wf_members :: "string list \<Rightarrow> bool" where
  "wf_members xs \<longleftrightarrow> xs \<noteq> [] \<and> distinct xs \<and> (\<forall>x \<in> set xs. canon x = x \<and> x \<noteq> [])"

definition wf_policy :: "caller_policy \<Rightarrow> bool" where
  "wf_policy p \<longleftrightarrow> cp_node p \<noteq> [] \<and> canon (cp_node p) = cp_node p
     \<and> cp_kind p \<in> {''consumer'', ''worker''} \<and> wf_members (cp_tenants p) \<and> wf_members (cp_actions p)"

lemma normalize_members_wf: "normalize_members v = Inr xs \<Longrightarrow> wf_members xs"
  by (auto simp: normalize_members_def wf_members_def Let_def canon_Nil_iff eq_commute[of "[]"] split: if_splits)

lemma caller_policy_wf: "caller_policy_validate r = Inr p \<Longrightarrow> wf_policy p"
  by (auto simp: caller_policy_validate_def wf_policy_def rbind_Inr_iff normalize_required_string_def
      validate_kind_def split: if_splits dest: normalize_members_wf)

lemma policy_from_json_wf: "caller_policy_from_json v = Inr p \<Longrightarrow> wf_policy p"
  by (auto simp: caller_policy_from_json_def split: pyval.splits option.splits dest: caller_policy_wf)

lemma policy_entries_wf:
  "policy_entries acc items = Inr ps \<Longrightarrow> \<forall>x \<in> set acc. wf_policy (snd x) \<Longrightarrow> \<forall>x \<in> set ps. wf_policy (snd x)"
proof (induction items arbitrary: acc)
  case (Cons x items)
  obtain k v where x: "x = (k, v)" by fastforce
  from Cons.prems(1) obtain i p where "k = PyStr i" and p: "caller_policy_from_json v = Inr p"
    and rest: "policy_entries (dset acc (strip i) p) items = Inr ps"
    by (cases k) (simp_all add: x rbind_Inr_iff split: if_splits, blast)
  have "\<forall>x \<in> set (dset acc (strip i) p). wf_policy (snd x)"
    using Cons.prems(2) policy_from_json_wf[OF p] set_dset_subset[of "strip i" p acc] by fastforce
  with Cons.IH[OF rest] show ?case by blast
qed simp

lemma env_policies_wf:
  "env_caller_policies loads getenv name = Inr ps \<Longrightarrow> x \<in> set ps \<Longrightarrow> wf_policy (snd x)"
  by (auto simp: env_caller_policies_def Let_def split: if_splits sum.splits pyval.splits
      dest: policy_entries_wf)

lemma settings_fields_sel:
  assumes "settings_fields r = Inr s"
  shows "gs_caller_policies s = gs_caller_policies r" "gs_require_signature s = gs_require_signature r"
    "gs_environment s \<in> set ALLOWED_ENVIRONMENTS"
  using assms by (auto simp: settings_fields_def rbind_Inr_iff dest!: validated_environment)

lemma settings_fields_identity:
  assumes "settings_fields r = Inr s"
  shows "validate_optional_token (gs_signing_key_id r) = Inr (gs_signing_key_id s)"
    "validate_optional_token (gs_signing_algorithm r) = Inr (gs_signing_algorithm s)"
    "validate_optional_token (gs_admin_token r) = Inr (gs_admin_token s)"
    "gs_signing_key s = gs_signing_key r"
  using assms by (auto simp: settings_fields_def rbind_Inr_iff)

lemma default_signing_sel [simp]:
  "gs_caller_policies (default_signing_algorithm r) = gs_caller_policies r"
  by (simp add: default_signing_algorithm_def)

lemma settings_policies_wf:
  assumes "get_settings loads as_float getenv = Inr s" and "x \<in> set (gs_caller_policies s)"
  shows "wf_policy (snd x)"
proof -
  from settings_from_environment[OF assms(1)] obtain ps r
    where "env_caller_policies loads getenv ''L9_KEY_ALLOWED_ACTIONS_JSON'' = Inr ps"
      and r: "gate_settings_validate r = Inr s" "gs_caller_policies r = ps" by blast
  moreover have "gs_caller_policies s = ps"
    using settings_fields_sel(1)[OF settings_accepted(1)[OF r(1)]] r(2) by simp
  ultimately show ?thesis using env_policies_wf assms(2) by metis
qed

lemma production_boundary:
  assumes "gate_settings_validate r = Inr s" and "trust_required s"
  shows "\<not> gs_dev_mode s" "truthy_str (gs_admin_token s)"
    "gs_require_signature s \<and> gs_verifying_keys s \<noteq> []
       \<or> \<not> gs_require_signature s \<and> gs_trusted_ingress_boundary s = Some ''network''
         \<and> truthy_str (gs_trusted_ingress_boundary_evidence s)"
    "dhas (gs_verifying_keys s) k \<Longrightarrow> dhas (gs_caller_policies s) k"
  using settings_accepted[OF assms(1)] assms(2)
  by (auto simp: validate_production_trust_boundary_def validate_production_admin_token_def
      validate_caller_policy_coverage_def list_all_iff dhas_iff Let_def split: if_splits)

text \<open>
  C11. Settings that the environment can produce fail closed. In staging and prod dev
  mode is off, an admin token is set, and either signatures are required with a key
  to verify them or a network boundary is declared with evidence; and there a key has
  a caller policy exactly if Gate can verify it. In every environment a caller policy
  needs required signatures and a verifying key, and names a node, a kind, tenants and
  actions in canonical form.
\<close>

theorem production_settings_fail_closed:
  assumes "get_settings loads as_float getenv = Inr s"
  shows "(gs_environment s \<in> {''staging'', ''prod''} \<longrightarrow>
      \<not> gs_dev_mode s \<and> truthy_str (gs_admin_token s)
      \<and> (gs_require_signature s \<and> gs_verifying_keys s \<noteq> []
         \<or> \<not> gs_require_signature s \<and> gs_trusted_ingress_boundary s = Some ''network''
           \<and> truthy_str (gs_trusted_ingress_boundary_evidence s))
      \<and> set (dkeys (gs_caller_policies s)) = set (dkeys (gs_verifying_keys s)))
    \<and> (\<forall>(k, p) \<in> set (gs_caller_policies s).
         gs_require_signature s \<and> dhas (gs_verifying_keys s) k \<and> wf_policy p)
    \<and> gs_environment s \<in> set ALLOWED_ENVIRONMENTS"
proof -
  from settings_from_environment[OF assms] obtain r where r: "gate_settings_validate r = Inr s" by blast
  have known: "\<forall>(k, p) \<in> set (gs_caller_policies s).
      gs_require_signature s \<and> dhas (gs_verifying_keys s) k \<and> wf_policy p"
  proof (intro ballI, clarify)
    fix k p
    assume kp: "(k, p) \<in> set (gs_caller_policies s)"
    then have "dhas (gs_caller_policies s) k" by (force simp: dhas_iff)
    from policies_are_for_known_keys[OF r this] settings_policies_wf[OF assms kp]
    show "gs_require_signature s \<and> dhas (gs_verifying_keys s) k \<and> wf_policy p" by simp
  qed
  have "set (dkeys (gs_caller_policies s)) = set (dkeys (gs_verifying_keys s))" if "trust_required s"
    unfolding set_eq_iff dhas_iff[symmetric]
    using production_boundary(4)[OF r that] policies_are_for_known_keys[OF r] by blast
  moreover have "gs_environment s \<in> {''staging'', ''prod''} \<longleftrightarrow> trust_required s"
    by (simp add: trust_required_def TRUST_REQUIRED_ENVIRONMENTS_def)
  ultimately show ?thesis
    using known settings_fields_sel(3)[OF settings_accepted(1)[OF r]]
    by (intro conjI impI production_boundary(1-3)[OF r]) simp_all
qed

text \<open>An environment of a production Gate, for the examples.\<close>

definition sample_loads :: "string \<Rightarrow> pyval res" where
  "sample_loads raw =
     (if raw = ''keys'' then Inr (PyDict [(PyStr '' k1 '', PyStr ''secret'')])
      else if raw = ''policies'' then Inr (PyDict [(PyStr ''k1'', PyDict
        [(PyStr ''node'', PyStr ''Client''), (PyStr ''kind'', PyStr ''consumer''),
         (PyStr ''tenants'', PyList [PyStr ''ACME'']),
         (PyStr ''actions'', PyList [PyStr ''match'', PyStr '' Enrich ''])])])
      else raise ValueError ''JSON'')"

definition sample_float :: "string \<Rightarrow> pyfloat res" where
  "sample_float raw = (if raw = ''15'' then Inr 15 else if raw = ''86400'' then Inr 86400
     else raise ValueError ''float'')"

definition sample_env :: environ where
  "sample_env = map_of
     [(''L9_ENVIRONMENT'', '' Prod''), (''GATE_ADMIN_TOKEN'', ''t''), (''L9_REQUIRE_SIGNATURE'', ''true''),
      (''L9_VERIFYING_KEYS_JSON'', ''keys''), (''L9_KEY_ALLOWED_ACTIONS_JSON'', '' policies'')]"

definition network_env :: environ where
  "network_env = map_of
     [(''L9_ENVIRONMENT'', ''prod''), (''GATE_ADMIN_TOKEN'', ''t''),
      (''L9_TRUSTED_INGRESS_BOUNDARY'', ''network''),
      (''L9_TRUSTED_INGRESS_BOUNDARY_EVIDENCE'', ''mesh'')]"

text \<open>The settings these environments give.\<close>

definition sample_gate :: gate_settings where
  "sample_gate =
     \<lparr>gs_environment = ''prod'', gs_local_node = ''gate'', gs_host = ''0.0.0.0'', gs_port = 8000,
      gs_node_registry_path = None, gs_health_probe_interval_seconds = 15, gs_idempotency_ttl_seconds = 86400,
      gs_response_margin_ms = 500, gs_require_signature = True, gs_dev_mode = False, gs_signing_key = None,
      gs_signing_key_id = None, gs_signing_algorithm = None, gs_verifying_keys = [(''k1'', ''secret'')],
      gs_caller_policies = [(''k1'', \<lparr>cp_node = ''client'', cp_kind = ''consumer'', cp_tenants = [''acme''],
        cp_actions = [''match'', ''enrich'']\<rparr>)],
      gs_allowed_actions = [], gs_allowed_packet_types = [''request'', ''command'', ''delegation'', ''replay_request''],
      gs_required_idempotency_actions = [], gs_allowed_clock_skew_seconds = 30, gs_max_packet_bytes = 262144,
      gs_max_hop_depth = 64, gs_max_delegation_depth = 8, gs_max_attachments = 32,
      gs_max_attachment_size_bytes = 10485760, gs_attachment_allowed_schemes = [],
      gs_allow_private_attachment_hosts = False, gs_replay_enabled = True, gs_verify_hop_signatures = False,
      gs_admin_token = Some ''t'', gs_trusted_ingress_boundary = None,
      gs_trusted_ingress_boundary_evidence = None, gs_workflow_config_path = None\<rparr>"

definition network_gate :: gate_settings where
  "network_gate = sample_gate
     \<lparr>gs_require_signature := False, gs_verifying_keys := [], gs_caller_policies := [],
      gs_trusted_ingress_boundary := Some ''network'', gs_trusted_ingress_boundary_evidence := Some ''mesh''\<rparr>"

lemma sample_settings: "get_settings sample_loads sample_float sample_env = Inr sample_gate"
  by code_simp

lemma network_settings: "get_settings sample_loads sample_float network_env = Inr network_gate"
  by code_simp

lemma sample_trust [simp]:
  "trust_required sample_gate" "trust_required network_gate" "\<not> gs_require_signature network_gate"
  by code_simp+

theorem production_settings_fail_closed_witness:
  "\<exists>s. get_settings sample_loads sample_float sample_env = Inr s
     \<and> set (dkeys (gs_caller_policies s)) = set (dkeys (gs_verifying_keys s))
     \<and> gs_require_signature s"
proof -
  have "gs_environment sample_gate = ''prod''" "fst (hd (gs_caller_policies sample_gate)) = ''k1''"
    and "hd (gs_caller_policies sample_gate) \<in> set (gs_caller_policies sample_gate)"
    by (simp_all add: sample_gate_def)
  with production_settings_fail_closed[OF sample_settings] sample_settings show ?thesis by fastforce
qed

text \<open>With nothing in the environment Gate listens on port 8000, not on the declared default.\<close>

lemma default_port_is_8000:
  "\<exists>s. get_settings sample_loads sample_float (\<lambda>_. None) = Inr s \<and> gs_port s = 8000
     \<and> gs_port settings_defaults = 9000"
proof -
  have "case get_settings sample_loads sample_float (\<lambda>_. None) of
      Inr s \<Rightarrow> gs_port s = 8000 | Inl e \<Rightarrow> False" by code_simp
  then show ?thesis by (auto split: sum.splits simp: settings_defaults_def)
qed

end
