(* ===== verification/Boundary.thy ===== *)
theory Boundary
  imports Packet
begin

text \<open>
  The boundary of Gate: the routing policy (\<open>boundary/routing_policy.py\<close>), the
  codec (\<open>transport_codec.py\<close>) and the factories that build commands, responses,
  failures, delegations, replays and storage records. Ingress validation, which
  composes them with the SDK's validation, has its own theory.
\<close>

section \<open>Routing policy\<close>

definition validate_node_origin_policy :: "packet \<Rightarrow> string \<Rightarrow> string list \<Rightarrow> unit res" where
  "validate_node_origin_policy p local_node known_nodes =
     (let normalized_local = canon local_node;
          source = source_node (address p);
          destination = destination_node (address p)
      in if origin_kind (provenance p) = ''node'' then
           (if destination \<noteq> normalized_local
            then raise RoutingPolicyError ''node-originated packets must target the local node''
            else if original_source_node (provenance p) \<notin> {None, Some source}
            then raise RoutingPolicyError
              ''node-originated packet original_source_node must match source_node''
            else Inr ())
         else Inr ())"

definition validate_gate_dispatch_policy :: "packet \<Rightarrow> string \<Rightarrow> unit res" where
  "validate_gate_dispatch_policy p local_node =
     (let normalized_local = canon local_node
      in if origin_kind (provenance p) \<noteq> ''gate''
         then raise RoutingPolicyError
           ''direct worker-targeted dispatch packets must have origin_kind=gate''
         else if source_node (address p) \<noteq> normalized_local
         then raise RoutingPolicyError
           ''Gate dispatch packet source_node must equal local Gate node''
         else if destination_node (address p) = normalized_local
         then raise RoutingPolicyError
           ''Gate dispatch packet destination_node must not point back to Gate''
         else if \<not> resolved_by_gate (provenance p)
         then raise RoutingPolicyError ''Gate dispatch packet must set resolved_by_gate=true''
         else Inr ())"

text \<open>The law a worker-targeted packet obeys.\<close>

definition gate_authored :: "string \<Rightarrow> packet \<Rightarrow> bool" where
  "gate_authored local_node p =
     (origin_kind (provenance p) = ''gate'' \<and> source_node (address p) = canon local_node \<and>
      destination_node (address p) \<noteq> canon local_node \<and> resolved_by_gate (provenance p))"

text \<open>The law a node-originated packet obeys.\<close>

definition reenters_gate :: "string \<Rightarrow> packet \<Rightarrow> bool" where
  "reenters_gate local_node p =
     (destination_node (address p) = canon local_node \<and>
      original_source_node (provenance p) \<in> {None, Some (source_node (address p))})"

lemma gate_dispatch_policy_iff:
  "validate_gate_dispatch_policy p l = Inr () \<longleftrightarrow> gate_authored l p"
  by (simp add: validate_gate_dispatch_policy_def gate_authored_def Let_def)

lemma gate_dispatch_policy_exn:
  "validate_gate_dispatch_policy p l = Inl e \<Longrightarrow> exn_class e = RoutingPolicyError"
  by (auto simp: validate_gate_dispatch_policy_def Let_def split: if_splits)

lemma node_origin_policy_iff:
  "validate_node_origin_policy p l ks = Inr () \<longleftrightarrow>
     (origin_kind (provenance p) = ''node'' \<longrightarrow> reenters_gate l p)"
  by (auto simp: validate_node_origin_policy_def reenters_gate_def Let_def)

section \<open>Codec and commands\<close>

definition decode_request_body :: "sdk \<Rightarrow> pyval \<Rightarrow> packet res" where
  "decode_request_body S body =
     (case body of
        PyDict _ \<Rightarrow> sdk_model_validate S body
      | _ \<Rightarrow> raise ValueError ''request body must be a JSON object'')"

definition encode_response_body :: "sdk \<Rightarrow> packet \<Rightarrow> pyval" where
  "encode_response_body S p = sdk_dump S p"

record execution_context =
  ctx_local_node :: string
  ctx_request_id :: "string option"

record execute_command =
  cmd_packet :: packet
  cmd_context :: execution_context

definition command_build :: "packet \<Rightarrow> execution_context \<Rightarrow> execute_command" where
  "command_build p c = \<lparr>cmd_packet = p, cmd_context = c\<rparr>"

definition command_from_body ::
  "pyval \<Rightarrow> (pyval \<Rightarrow> packet res) \<Rightarrow> execution_context \<Rightarrow> execute_command res" where
  "command_from_body body validator c =
     rbind (validator body) (\<lambda>p. Inr (command_build p c))"

section \<open>Delegation\<close>

definition zeros64 :: string where
  "zeros64 = replicate 64 CHR ''0''"

definition apply_idempotency_key :: "sdk \<Rightarrow> packet \<Rightarrow> string \<Rightarrow> packet res" where
  "apply_idempotency_key S p key =
     (let new_header = (header p)\<lparr>idempotency_key := Some key\<rparr>;
          zeroed_security = (security p)\<lparr>transport_hash := zeros64, signature := None,
            signature_algorithm := None, signing_key_id := None\<rparr>;
          provisional = p\<lparr>header := new_header, security := zeroed_security\<rparr>;
          final_security =
            zeroed_security\<lparr>transport_hash := sdk_compute_transport_hash S provisional\<rparr>
      in sdk_construct S (p\<lparr>header := new_header, security := final_security\<rparr>))"

definition delegation_build ::
  "sdk \<Rightarrow> packet \<Rightarrow> string \<Rightarrow> string \<Rightarrow> payload \<Rightarrow> string option \<Rightarrow> int option \<Rightarrow> packet res" where
  "delegation_build S parent local_node act pl key tmo =
     rbind
       (sdk_derive S parent (no_args
          \<lparr>da_action := Some act, da_source_node := Some local_node,
           da_destination_node := Some ''gate'', da_reply_to := Some local_node,
           da_payload := Some pl,
           da_timeout_ms := (case tmo of None \<Rightarrow> timeout_ms (header parent) | Some t \<Rightarrow> Some t),
           da_provenance := Some \<lparr>origin_kind = ''node'', requested_action = act,
             resolved_by_gate = False, original_source_node = Some local_node,
             route_kind = None\<rparr>\<rparr>))
       (\<lambda>child.
          case key of
            Some k \<Rightarrow> (if idempotency_key (header child) \<noteq> Some k
                       then apply_idempotency_key S child k else Inr child)
          | None \<Rightarrow> Inr child)"

section \<open>Replay\<close>

definition replay_build :: "sdk \<Rightarrow> packet \<Rightarrow> string \<Rightarrow> packet res" where
  "replay_build S original source =
     rbind
       (sdk_derive S original (no_args
          \<lparr>da_packet_type := Some (packet_type (header original)),
           da_action := Some (action (header original)),
           da_source_node := Some source, da_destination_node := Some ''gate'',
           da_reply_to := Some source, da_payload := Some (payload original),
           da_timeout_ms := timeout_ms (header original),
           da_provenance := Some
             \<lparr>origin_kind = (if source \<noteq> ''client'' then ''node'' else ''client''),
              requested_action = action (header original), resolved_by_gate = False,
              original_source_node = (if source = ''client'' then None else Some source),
              route_kind = None\<rparr>\<rparr>))
       (\<lambda>q. Inr (q\<lparr>header := (header q)
          \<lparr>replay_mode := True, idempotency_key := idempotency_key (header original)\<rparr>\<rparr>))"

section \<open>Responses and failures\<close>

definition response_build :: "sdk \<Rightarrow> packet \<Rightarrow> string \<Rightarrow> payload \<Rightarrow> packet res" where
  "response_build S req source pl =
     sdk_derive S req (no_args
       \<lparr>da_packet_type := Some ''response'', da_source_node := Some source,
        da_destination_node := Some (reply_to (address req)), da_reply_to := Some source,
        da_payload := Some pl\<rparr>)"

definition failure_build :: "sdk \<Rightarrow> packet \<Rightarrow> string \<Rightarrow> exn \<Rightarrow> string \<Rightarrow> packet res" where
  "failure_build S req source e code =
     sdk_derive S req (no_args
       \<lparr>da_packet_type := Some ''failure'', da_source_node := Some source,
        da_destination_node := Some (reply_to (address req)), da_reply_to := Some source,
        da_payload := Some [(''status'', PyStr ''failed''), (''code'', PyStr code),
          (''error_type'', PyStr (class_name (exn_class e))), (''message'', PyStr (exn_msg e))]\<rparr>)"

section \<open>Storage records\<close>

definition opt_str :: "string option \<Rightarrow> pyval" where
  "opt_str x = (case x of None \<Rightarrow> PyNone | Some s \<Rightarrow> PyStr s)"

definition payload_val :: "payload \<Rightarrow> pyval" where
  "payload_val pl = PyDict (map (\<lambda>(k, v). (PyStr k, v)) pl)"

definition to_record :: "packet \<Rightarrow> payload" where
  "to_record p =
     [(''packet_id'', PyStr (packet_id (header p))),
      (''packet_type'', PyStr (packet_type (header p))),
      (''action'', PyStr (action (header p))),
      (''source_node'', PyStr (source_node (address p))),
      (''destination_node'', PyStr (destination_node (address p))),
      (''tenant_org_id'', PyStr (org_id (tenant p))),
      (''root_id'', PyStr (root_id (lineage p))),
      (''parent_id'', opt_str (parent_id (lineage p))),
      (''generation'', PyInt (generation (lineage p))),
      (''payload'', payload_val (payload p)),
      (''transport_hash'', PyStr (transport_hash (security p))),
      (''hop_count'', PyInt (int (length (hop_trace p)))),
      (''created_at'', PyStr (created_at (header p)))]"

definition failure_record :: "packet \<Rightarrow> exn \<Rightarrow> payload" where
  "failure_record p e =
     dupdate (to_record p)
       [(''failure'', PyBool True), (''error_type'', PyStr (class_name (exn_class e))),
        (''error_message'', PyStr (exn_msg e))]"

section \<open>Properties\<close>

lemma no_args_sel [simp]:
  "da_packet_type no_args = None" "da_action no_args = None" "da_source_node no_args = None"
  "da_destination_node no_args = None" "da_reply_to no_args = None" "da_payload no_args = None"
  "da_timeout_ms no_args = None" "da_provenance no_args = None"
  by (simp_all add: no_args_def)

lemma canon_gate [simp]: "canon ''gate'' = ''gate''"
  by code_simp

lemma canon_client [simp]: "canon ''client'' = ''client''"
  by code_simp

lemma apply_idempotency_key_fields:
  assumes "constructs_ok S" and "apply_idempotency_key S p k = Inr q"
  shows "address q = address p \<and> provenance q = provenance p \<and> payload q = payload p \<and>
    header q = (header p)\<lparr>idempotency_key := Some k\<rparr>"
  using assms by (auto simp: apply_idempotency_key_def Let_def dest: constructs_okD)

text \<open>
  A packet that the delegation factory builds for a node is a legal reentry:
  it is addressed to Gate, comes from the node, passes the node-origin policy,
  carries the requested idempotency key (the parent's when none is given), and
  cannot pass as a Gate-authored dispatch.
\<close>

theorem delegation_reenters_gate:
  assumes "derives_ok S" and "constructs_ok S"
    and "canon node = node" and "node \<noteq> []" and "act \<noteq> []"
    and "delegation_build S parent node act pl key tmo = Inr q"
  shows "validate_node_origin_policy q ''gate'' known = Inr () \<and>
    source_node (address q) = node \<and> destination_node (address q) = ''gate'' \<and>
    action (header q) = act \<and> payload q = pl \<and>
    idempotency_key (header q) =
      (case key of None \<Rightarrow> idempotency_key (header parent) | Some k \<Rightarrow> Some k) \<and>
    (\<forall>l. \<not> gate_authored l q)"
proof -
  from assms(6) obtain child a where d: "sdk_derive S parent a = Inr child"
    and a: "a = no_args
          \<lparr>da_action := Some act, da_source_node := Some node,
           da_destination_node := Some ''gate'', da_reply_to := Some node,
           da_payload := Some pl,
           da_timeout_ms := (case tmo of None \<Rightarrow> timeout_ms (header parent) | Some t \<Rightarrow> Some t),
           da_provenance := Some \<lparr>origin_kind = ''node'', requested_action = act,
             resolved_by_gate = False, original_source_node = Some node,
             route_kind = None\<rparr>\<rparr>"
    and q: "(case key of
          Some k \<Rightarrow> (if idempotency_key (header child) \<noteq> Some k
                     then apply_idempotency_key S child k else Inr child)
        | None \<Rightarrow> Inr child) = Inr q"
    unfolding delegation_build_def rbind_Inr_iff by blast
  have c: "derived_from parent a child" by (rule derives_okD[OF assms(1) d])
  have f: "address q = address child \<and> provenance q = provenance child \<and> payload q = payload child \<and>
      header q = (header child)\<lparr>idempotency_key :=
        (case key of None \<Rightarrow> idempotency_key (header parent) | Some k \<Rightarrow> Some k)\<rparr>"
    using q c apply_idempotency_key_fields[OF assms(2)]
    by (auto simp: derived_from_def split: option.splits if_splits)
  show ?thesis
    using c f assms(3-5)
    by (auto simp: derived_from_def a node_origin_policy_iff reenters_gate_def gate_authored_def)
qed

theorem delegation_reenters_gate_witness:
  "\<exists>q. delegation_build (ref_sdk (\<lambda>_. raise ValueError [])) (example_packet ''enrich'') ''worker''
       ''match'' [] (Some ''k2'') None = Inr q \<and>
     validate_node_origin_policy q ''gate'' [] = Inr () \<and> idempotency_key (header q) = Some ''k2''"
proof -
  let ?S = "ref_sdk (\<lambda>_. raise ValueError [])"
  let ?b = "delegation_build ?S (example_packet ''enrich'') ''worker'' ''match'' [] (Some ''k2'') None"
  have "\<exists>q. ?b = Inr q"
    by (simp add: delegation_build_def ref_derive_def apply_idempotency_key_def Let_def)
  then obtain q where q: "?b = Inr q" by blast
  have w: "canon ''worker'' = ''worker''" by code_simp
  from delegation_reenters_gate[OF ref_sdk_derives_ok ref_sdk_constructs_ok w _ _ q, of "[]"] q
  show ?thesis by auto
qed

text \<open>
  A replay packet is not finalized again after its header is changed: it
  carries \<open>replay_mode\<close> and Gate as its destination, but its transport hash is
  the hash of the packet without \<open>replay_mode\<close>, so an integrity check that
  covers the header rejects every replay of a packet that was no replay itself.
\<close>

theorem replay_keeps_stale_hash:
  assumes "derives_ok S" and "hash_covers_replay_mode S"
    and "replay_build S original source = Inr q" and "\<not> replay_mode (header original)"
  shows "replay_mode (header q) \<and> destination_node (address q) = ''gate'' \<and>
    transport_hash (security q) \<noteq> sdk_compute_transport_hash S q"
proof -
  from assms(3) obtain a d where d: "sdk_derive S original a = Inr d"
    and a: "da_destination_node a = Some ''gate''"
    and q: "q = d\<lparr>header := (header d)
          \<lparr>replay_mode := True, idempotency_key := idempotency_key (header original)\<rparr>\<rparr>"
    by (auto simp: replay_build_def rbind_Inr_iff)
  from derives_okD[OF assms(1) d] have f: "derived_from original a d" .
  have "transport_hash (security d) = sdk_compute_transport_hash S d"
    using assms(2) d by (auto simp: hash_covers_replay_mode_def)
  moreover have "sdk_compute_transport_hash S q \<noteq> sdk_compute_transport_hash S d"
    using assms(2,4) f q by (simp add: hash_covers_replay_mode_def derived_from_def)
  ultimately show ?thesis using f a by (simp add: q derived_from_def)
qed

theorem replay_keeps_stale_hash_witness:
  "\<exists>q. replay_build (ref_sdk (\<lambda>_. raise ValueError [])) (example_packet ''enrich'') ''worker'' = Inr q \<and>
     transport_hash (security q) \<noteq>
       sdk_compute_transport_hash (ref_sdk (\<lambda>_. raise ValueError [])) q"
proof -
  let ?S = "ref_sdk (\<lambda>_. raise ValueError [])"
  obtain q where q: "replay_build ?S (example_packet ''enrich'') ''worker'' = Inr q"
    by (simp add: replay_build_def ref_derive_def)
  have "\<not> replay_mode (header (example_packet ''enrich''))" by (simp add: example_packet_def)
  from replay_keeps_stale_hash[OF ref_sdk_derives_ok ref_sdk_hash q this] q show ?thesis by blast
qed

end
