(* ===== verification/Ingress.thy ===== *)
theory Ingress
  imports Settings Boundary
begin

text \<open>
  The ingress validator, \<open>boundary/ingress_validator.py\<close>: decoding, transport
  validation, origin policy and the authorization of the verified key. The SDK's
  \<open>validate_transport_packet\<close> is the parameter \<open>V\<close>, a function of the keyword
  arguments Gate passes and of the packet; the set of known nodes is an argument.
\<close>

section \<open>The validator\<close>

record transport_checks =
  tc_key_resolver :: "string option \<Rightarrow> string option"
  tc_require_signature :: bool
  tc_max_packet_bytes :: int
  tc_max_hop_depth :: int
  tc_max_delegation_depth :: int
  tc_max_attachments :: int
  tc_max_attachment_size_bytes :: int
  tc_allowed_attachment_schemes :: "string list"
  tc_allow_private_attachment_hosts :: bool
  tc_allowed_clock_skew_seconds :: int
  tc_local_node :: string
  tc_allowed_actions :: "string list option"
  tc_allowed_packet_types :: "string list option"
  tc_required_idempotency_actions :: "string list option"
  tc_replay_enabled :: bool
  tc_dev_mode :: bool
  tc_verify_hop_signatures :: bool
  tc_hop_key_resolver :: "string option \<Rightarrow> string option"

type_synonym transport_validator = "transport_checks \<Rightarrow> packet \<Rightarrow> unit res"

text \<open>
  What the SDK documents of its validation: a required signature is present and made
  with a key the resolver knows; an action allowlist admits only its members.
\<close>

definition verifies_signatures :: "transport_validator \<Rightarrow> bool" where
  "verifies_signatures V = (\<forall>c p. V c p = Inr () \<longrightarrow> tc_require_signature c \<longrightarrow>
     signature (security p) \<noteq> None \<and> tc_key_resolver c (signing_key_id (security p)) \<noteq> None)"

definition enforces_allowlist :: "transport_validator \<Rightarrow> bool" where
  "enforces_allowlist V = (\<forall>c p as. V c p = Inr () \<longrightarrow> tc_allowed_actions c = Some as \<longrightarrow>
     action (header p) \<in> set as)"

record ingress_validator =
  iv_local_node :: string
  iv_allowed_actions :: "string list"
  iv_allowed_packet_types :: "string list"
  iv_allowed_clock_skew_seconds :: int
  iv_max_packet_bytes :: int
  iv_max_hop_depth :: int
  iv_max_delegation_depth :: int
  iv_max_attachments :: int
  iv_max_attachment_size_bytes :: int
  iv_allowed_attachment_schemes :: "string list"
  iv_allow_private_attachment_hosts :: bool
  iv_require_signature :: bool
  iv_key_resolver :: "string option \<Rightarrow> string option"
  iv_required_idempotency_actions :: "string list"
  iv_replay_enabled :: bool
  iv_dev_mode :: bool
  iv_verify_hop_signatures :: bool
  iv_hop_key_resolver :: "string option \<Rightarrow> string option"
  iv_caller_policies :: "(string \<times> caller_policy) list"
  iv_require_caller_policy :: bool

definition ingress_validator_init :: "ingress_validator \<Rightarrow> ingress_validator" where
  "ingress_validator_init v = v\<lparr>iv_local_node := canon (iv_local_node v)\<rparr>"

text \<open>\<open>x or None\<close> on a tuple.\<close>

definition tuple_or_none :: "string list \<Rightarrow> string list option" where
  "tuple_or_none xs = (if xs = [] then None else Some xs)"

definition transport_checks_of :: "ingress_validator \<Rightarrow> string list option \<Rightarrow> transport_checks" where
  "transport_checks_of v allowed =
     \<lparr>tc_key_resolver = iv_key_resolver v, tc_require_signature = iv_require_signature v,
      tc_max_packet_bytes = iv_max_packet_bytes v, tc_max_hop_depth = iv_max_hop_depth v,
      tc_max_delegation_depth = iv_max_delegation_depth v, tc_max_attachments = iv_max_attachments v,
      tc_max_attachment_size_bytes = iv_max_attachment_size_bytes v,
      tc_allowed_attachment_schemes = iv_allowed_attachment_schemes v,
      tc_allow_private_attachment_hosts = iv_allow_private_attachment_hosts v,
      tc_allowed_clock_skew_seconds = iv_allowed_clock_skew_seconds v,
      tc_local_node = iv_local_node v, tc_allowed_actions = allowed,
      tc_allowed_packet_types = tuple_or_none (iv_allowed_packet_types v),
      tc_required_idempotency_actions = tuple_or_none (iv_required_idempotency_actions v),
      tc_replay_enabled = iv_replay_enabled v, tc_dev_mode = iv_dev_mode v,
      tc_verify_hop_signatures = iv_verify_hop_signatures v,
      tc_hop_key_resolver = iv_hop_key_resolver v\<rparr>"

text \<open>\<open>except Exception as exc: raise IngressValidationError(str(exc))\<close>.\<close>

definition as_ingress_error :: "'a res \<Rightarrow> 'a res" where
  "as_ingress_error r =
     (case r of
        Inl e \<Rightarrow> if is_exception e then raise IngressValidationError (exn_msg e) else Inl e
      | Inr v \<Rightarrow> Inr v)"

definition validate_packet ::
  "sdk \<Rightarrow> transport_validator \<Rightarrow> ingress_validator \<Rightarrow> string list \<Rightarrow> string list option \<Rightarrow> pyval \<Rightarrow>
     packet res" where
  "validate_packet S V v known allowed body = as_ingress_error
     (rbind (decode_request_body S body) (\<lambda>p.
      rbind (V (transport_checks_of v allowed) p) (\<lambda>_.
      rbind (validate_node_origin_policy p (iv_local_node v) known) (\<lambda>_. Inr p))))"

definition resolve_caller_policy ::
  "ingress_validator \<Rightarrow> packet \<Rightarrow> bool \<Rightarrow> caller_policy option res" where
  "resolve_caller_policy v p checked =
     (if iv_caller_policies v = [] \<and> \<not> iv_require_caller_policy v then Inr None
      else if signature (security p) = None
      then raise IngressAuthorizationError ''unsigned packet refused: caller policy is in force''
      else
        (let key_id = opt_or (signing_key_id (security p)) [];
             source = canon (source_node (address p)); org = canon (org_id (tenant p))
         in case dget (iv_caller_policies v) key_id of
              None \<Rightarrow> raise IngressAuthorizationError ''key has no caller policy''
            | Some policy \<Rightarrow>
                if source \<noteq> cp_node policy
                then raise IngressAuthorizationError ''key is not permitted to claim source_node''
                else if org \<notin> set (cp_tenants policy)
                then raise IngressAuthorizationError ''key is not permitted to act for tenant''
                else if checked \<and> action (header p) \<notin> set (cp_actions policy)
                then raise IngressAuthorizationError ''key is not permitted to invoke action''
                else Inr (Some policy)))"

definition authorize_action :: "ingress_validator \<Rightarrow> packet \<Rightarrow> unit res" where
  "authorize_action v p = rbind (resolve_caller_policy v p True) (\<lambda>_. Inr ())"

definition ingress_validate ::
  "sdk \<Rightarrow> transport_validator \<Rightarrow> ingress_validator \<Rightarrow> string list \<Rightarrow> pyval \<Rightarrow> packet res" where
  "ingress_validate S V v known body =
     rbind (validate_packet S V v known (tuple_or_none (iv_allowed_actions v)) body) (\<lambda>p.
       if action (header p) = ADMISSION_ACTION
       then raise IngressValidationError ''reserved for POST /v1/admission''
       else rbind (authorize_action v p) (\<lambda>_. Inr p))"

definition validate_admission ::
  "sdk \<Rightarrow> transport_validator \<Rightarrow> ingress_validator \<Rightarrow> string list \<Rightarrow> pyval \<Rightarrow>
     (packet \<times> string list option) res" where
  "validate_admission S V v known body =
     rbind (validate_packet S V v known None body) (\<lambda>p.
       if action (header p) \<noteq> ADMISSION_ACTION
       then raise IngressValidationError ''admission probes must use the admission action''
       else if signature (security p) = None
       then raise IngressAuthorizationError ''admission requires a signed packet''
       else rbind (resolve_caller_policy v p False) (\<lambda>policy.
              case policy of
                None \<Rightarrow> Inr (p, None)
              | Some pol \<Rightarrow> Inr (p, Some (cp_actions pol))))"

text \<open>The wiring, \<open>get_ingress_validator\<close> of \<open>api/dependencies.py\<close>.\<close>

definition get_ingress_validator :: "gate_settings \<Rightarrow> ingress_validator" where
  "get_ingress_validator s = ingress_validator_init
     \<lparr>iv_local_node = gs_local_node s, iv_allowed_actions = gs_allowed_actions s,
      iv_allowed_packet_types = gs_allowed_packet_types s,
      iv_allowed_clock_skew_seconds = gs_allowed_clock_skew_seconds s,
      iv_max_packet_bytes = gs_max_packet_bytes s, iv_max_hop_depth = gs_max_hop_depth s,
      iv_max_delegation_depth = gs_max_delegation_depth s, iv_max_attachments = gs_max_attachments s,
      iv_max_attachment_size_bytes = gs_max_attachment_size_bytes s,
      iv_allowed_attachment_schemes = gs_attachment_allowed_schemes s,
      iv_allow_private_attachment_hosts = gs_allow_private_attachment_hosts s,
      iv_require_signature = gs_require_signature s, iv_key_resolver = resolve_verifying_key s,
      iv_required_idempotency_actions = gs_required_idempotency_actions s,
      iv_replay_enabled = gs_replay_enabled s, iv_dev_mode = gs_dev_mode s,
      iv_verify_hop_signatures = gs_verify_hop_signatures s,
      iv_hop_key_resolver = resolve_verifying_key s, iv_caller_policies = gs_caller_policies s,
      iv_require_caller_policy = caller_policy_required s\<rparr>"

section \<open>What the validator admits\<close>

text \<open>The packet is within what the policy of its key permits.\<close>

definition in_scope :: "caller_policy \<Rightarrow> packet \<Rightarrow> bool" where
  "in_scope policy p \<longleftrightarrow> canon (source_node (address p)) = cp_node policy
     \<and> canon (org_id (tenant p)) \<in> set (cp_tenants policy)"

lemma as_ingress_error_Inr [simp]: "as_ingress_error r = Inr v \<longleftrightarrow> r = Inr v"
  by (auto simp: as_ingress_error_def split: sum.splits if_splits)

lemma resolve_policy_iff:
  "resolve_caller_policy v p ca = Inr x \<longleftrightarrow>
     (if iv_caller_policies v = [] \<and> \<not> iv_require_caller_policy v then x = None
      else signature (security p) \<noteq> None \<and>
        (\<exists>pol. x = Some pol \<and> dget (iv_caller_policies v) (opt_or (signing_key_id (security p)) []) = Some pol
          \<and> in_scope pol p \<and> (ca \<longrightarrow> action (header p) \<in> set (cp_actions pol))))"
  by (auto simp: resolve_caller_policy_def in_scope_def Let_def split: option.splits)

lemma authorize_action_iff:
  "authorize_action v p = Inr () \<longleftrightarrow>
     iv_caller_policies v = [] \<and> \<not> iv_require_caller_policy v \<or>
     signature (security p) \<noteq> None \<and>
       (\<exists>pol. dget (iv_caller_policies v) (opt_or (signing_key_id (security p)) []) = Some pol
          \<and> in_scope pol p \<and> action (header p) \<in> set (cp_actions pol))"
  by (auto simp: authorize_action_def rbind_Inr_iff resolve_policy_iff)

lemma validate_packet_iff:
  "validate_packet S V v known allowed body = Inr p \<longleftrightarrow>
     decode_request_body S body = Inr p \<and> V (transport_checks_of v allowed) p = Inr ()
     \<and> validate_node_origin_policy p (iv_local_node v) known = Inr ()"
  by (auto simp: validate_packet_def rbind_Inr_iff)

lemma ingress_validate_iff:
  "ingress_validate S V v known body = Inr p \<longleftrightarrow>
     validate_packet S V v known (tuple_or_none (iv_allowed_actions v)) body = Inr p
     \<and> action (header p) \<noteq> ADMISSION_ACTION \<and> authorize_action v p = Inr ()"
  by (auto simp: ingress_validate_def rbind_Inr_iff split: if_splits)

lemma validator_sel [simp]:
  "iv_caller_policies (get_ingress_validator s) = gs_caller_policies s"
  "iv_require_caller_policy (get_ingress_validator s) = caller_policy_required s"
  "iv_allowed_actions (get_ingress_validator s) = gs_allowed_actions s"
  "tc_require_signature (transport_checks_of (get_ingress_validator s) a) = gs_require_signature s"
  "tc_key_resolver (transport_checks_of (get_ingress_validator s) a) = resolve_verifying_key s"
  "tc_allowed_actions (transport_checks_of (get_ingress_validator s) a) = a"
  "iv_local_node (get_ingress_validator s) = canon (gs_local_node s)"
  by (simp_all add: get_ingress_validator_def ingress_validator_init_def transport_checks_of_def)

lemma admitted_in_scope:
  assumes s: "get_settings loads as_float getenv = Inr s" and V: "verifies_signatures V"
    and enforced: "trust_required s \<or> gs_caller_policies s \<noteq> []"
    and ok: "ingress_validate S V (get_ingress_validator s) known body = Inr p"
  shows "\<exists>k pol. signature (security p) \<noteq> None \<and> signing_key_id (security p) = Some k
      \<and> dhas (gs_verifying_keys s) k \<and> dget (gs_caller_policies s) k = Some pol \<and> wf_policy pol
      \<and> canon (source_node (address p)) = cp_node pol \<and> canon (org_id (tenant p)) \<in> set (cp_tenants pol)
      \<and> action (header p) \<in> set (cp_actions pol) \<and> action (header p) \<noteq> ADMISSION_ACTION
      \<and> (origin_kind (provenance p) = ''node'' \<longrightarrow> reenters_gate (gs_local_node s) p)"
proof -
  let ?v = "get_ingress_validator s"
  obtain r where r: "gate_settings_validate r = Inr s" using settings_from_environment[OF s] by blast
  from ok have pkt: "validate_packet S V ?v known (tuple_or_none (gs_allowed_actions s)) body = Inr p"
    and act: "action (header p) \<noteq> ADMISSION_ACTION" and auth: "authorize_action ?v p = Inr ()"
    by (simp_all add: ingress_validate_iff)
  from auth enforced obtain pol where sig: "signature (security p) \<noteq> None"
    and pol: "dget (gs_caller_policies s) (opt_or (signing_key_id (security p)) []) = Some pol"
    and scope: "in_scope pol p" "action (header p) \<in> set (cp_actions pol)"
    by (auto simp: authorize_action_iff caller_policy_required_def trust_required_def)
  from pol have "dhas (gs_caller_policies s) (opt_or (signing_key_id (security p)) [])"
    by (simp add: dhas_def)
  from policies_are_for_known_keys[OF r this]
  have req: "gs_require_signature s" and key: "dhas (gs_verifying_keys s) (opt_or (signing_key_id (security p)) [])"
    by simp_all
  from pkt req V have "resolve_verifying_key s (signing_key_id (security p)) \<noteq> None"
    unfolding validate_packet_iff verifies_signatures_def by fastforce
  then obtain k where k: "signing_key_id (security p) = Some k"
    by (auto simp: resolve_verifying_key_def split: option.splits)
  have "wf_policy pol" using settings_policies_wf[OF s map_of_SomeD[OF pol]] by simp
  moreover have "origin_kind (provenance p) = ''node'' \<longrightarrow> reenters_gate (gs_local_node s) p"
    using pkt by (simp add: validate_packet_iff node_origin_policy_iff reenters_gate_def canon_idem)
  ultimately show ?thesis using k pol key sig scope act by (auto simp: opt_or_def in_scope_def)
qed


text \<open>
  C31. A Gate that staging or prod accepts with a network boundary in place of
  signatures admits nobody: it requires a caller policy and can have none, so every
  execute request and every admission probe is refused.
\<close>

theorem network_boundary_admits_nobody:
  assumes "get_settings loads as_float getenv = Inr s" and "trust_required s" and "\<not> gs_require_signature s"
  shows "(\<exists>e. ingress_validate S V (get_ingress_validator s) known body = Inl e)
    \<and> (\<exists>e. validate_admission S V (get_ingress_validator s) known body = Inl e)"
proof -
  obtain r where r: "gate_settings_validate r = Inr s" using settings_from_environment[OF assms(1)] by blast
  have "gs_caller_policies s = []"
    using settings_accepted(2)[OF r] assms(3) by (simp add: validate_caller_policies_def split: if_splits)
  then have none: "resolve_caller_policy (get_ingress_validator s) p ca \<noteq> Inr x" for p ca x
    using assms(2) by (auto simp: resolve_policy_iff caller_policy_required_def trust_required_def)
  have "ingress_validate S V (get_ingress_validator s) known body \<noteq> Inr p" for p
    using none by (auto simp: ingress_validate_iff authorize_action_def rbind_Inr_iff)
  moreover have "validate_admission S V (get_ingress_validator s) known body \<noteq> Inr x" for x
    using none by (auto simp: validate_admission_def rbind_Inr_iff split: if_splits)
  ultimately show ?thesis by (metis sum.exhaust)
qed

text \<open>A validator that has the documented behaviour, for the examples.\<close>

definition ref_transport :: transport_validator where
  "ref_transport c p =
     (if tc_require_signature c \<and> (signature (security p) = None \<or> tc_key_resolver c (signing_key_id (security p)) = None)
      then raise ValueError ''signature required''
      else if (case tc_allowed_actions c of None \<Rightarrow> False | Some as \<Rightarrow> action (header p) \<notin> set as)
      then raise ValueError ''action not allowed'' else Inr ())"

lemma ref_transport_ok [simp]: "verifies_signatures ref_transport" "enforces_allowlist ref_transport"
  by (auto simp: verifies_signatures_def enforces_allowlist_def ref_transport_def split: if_splits option.splits)

definition signed_packet :: "string \<Rightarrow> packet" where
  "signed_packet a =
     (let p = example_packet a
      in p\<lparr>security := (security p)\<lparr>signature := Some ''s'', signing_key_id := Some ''k1''\<rparr>\<rparr>)"


theorem network_boundary_admits_nobody_witness:
  "\<exists>s e. get_settings sample_loads sample_float network_env = Inr s
     \<and> ingress_validate (ref_sdk (\<lambda>_. Inr (signed_packet ''match''))) ref_transport
         (get_ingress_validator s) [] (PyDict []) = Inl e"
proof -
  from network_boundary_admits_nobody[OF network_settings sample_trust(2,3)] network_settings show ?thesis by blast
qed

end
