(* ===== verification/Services.thy ===== *)
theory Services
  imports Ingress Registry
begin

text \<open>
  The services around the registry: admission (\<open>services/admission_service.py\<close>),
  registration by the admin (\<open>services/admin_registration_service.py\<close>), the
  capability projection (\<open>services/capability_service.py\<close> and
  \<open>schemas/capabilities.py\<close>) and the registry queries
  (\<open>services/registry_query_service.py\<close>). The registry they share is an argument.
\<close>

section \<open>Admission\<close>

definition ADMISSION_SCHEMA :: string where
  "ADMISSION_SCHEMA = ''l9.gate.admission.v1''"

definition granted_actions :: "registry \<Rightarrow> string list option \<Rightarrow> string list" where
  "granted_actions nodes scope =
     (case scope of
        None \<Rightarrow> sorted_list_of_set (all_supported_actions nodes)
      | Some actions \<Rightarrow> sorted_list_of_set (set actions \<inter> all_supported_actions nodes))"

definition str_list :: "string list \<Rightarrow> pyval" where
  "str_list xs = PyList (map PyStr xs)"

definition admission_payload :: "string \<Rightarrow> registry \<Rightarrow> packet \<Rightarrow> string list option \<Rightarrow> payload" where
  "admission_payload local_node nodes p scope =
     [(''schema'', PyStr ADMISSION_SCHEMA), (''gate_node'', PyStr local_node),
      (''key_id'', opt_str (signing_key_id (security p))),
      (''source_node'', PyStr (source_node (address p))),
      (''scope'', PyStr (if scope = None then ''unrestricted'' else ''restricted'')),
      (''scoped_actions'', (case scope of None \<Rightarrow> PyNone | Some actions \<Rightarrow> str_list (sort actions))),
      (''granted_actions'', str_list (granted_actions nodes scope)),
      (''routable_actions'', str_list (sorted_list_of_set (all_supported_actions nodes)))]"

definition admit ::
  "sdk \<Rightarrow> transport_validator \<Rightarrow> ingress_validator \<Rightarrow> string \<Rightarrow> registry \<Rightarrow> pyval \<Rightarrow> packet res" where
  "admit S V v local_node nodes body =
     rbind (validate_admission S V v (dkeys nodes) body) (\<lambda>(p, scope).
       response_build S p (canon local_node) (admission_payload (canon local_node) nodes p scope))"

section \<open>Registration by the admin\<close>

text \<open>An \<open>admin_token\<close> is \<open>None\<close> or the stripped token.\<close>

definition admin_token_init :: "string option \<Rightarrow> string option" where
  "admin_token_init token = map_option strip token"

definition admin_authorize :: "string option \<Rightarrow> string option \<Rightarrow> unit res" where
  "admin_authorize admin_token presented =
     (case admin_token of
        None \<Rightarrow> Inr ()
      | Some t \<Rightarrow> if map_option strip presented = Some t then Inr ()
                  else raise PermissionError ''admin token required or invalid'')"

record registration_status =
  rg_node_name :: string
  rg_healthy :: bool
  rg_registered :: bool

definition registration_of :: "string \<Rightarrow> node_input \<Rightarrow> node res" where
  "registration_of name i = node_registration
     \<lparr>node_name = name, internal_url = in_internal_url i, supported_actions = in_supported_actions i,
      priority_class = in_priority_class i, max_concurrent = in_max_concurrent i,
      health_endpoint = in_health_endpoint i, node_timeout_ms = in_timeout_ms i,
      node_metadata = in_metadata i, healthy = True, active_requests = 0\<rparr>"

definition register_input :: "registry \<Rightarrow> bool \<Rightarrow> string \<times> node_input \<Rightarrow> registry \<times> unit res" where
  "register_input nodes overwrite entry =
     (case entry of (name, i) \<Rightarrow>
        (case registration_of name i of
           Inl e \<Rightarrow> (nodes, Inl e)
         | Inr r \<Rightarrow> register_node nodes name r overwrite))"

fun register_inputs ::
  "registry \<Rightarrow> bool \<Rightarrow> registration_status list \<Rightarrow> (string \<times> node_input) list \<Rightarrow>
     registry \<times> registration_status list res" where
  "register_inputs nodes overwrite statuses [] = (nodes, Inr statuses)"
| "register_inputs nodes overwrite statuses (entry # entries) =
     (case register_input nodes overwrite entry of
        (nodes', Inl e) \<Rightarrow> (nodes', Inl e)
      | (nodes', Inr u) \<Rightarrow>
          register_inputs nodes' overwrite
            (statuses @ [\<lparr>rg_node_name = canon (fst entry), rg_healthy = True, rg_registered = True\<rparr>])
            entries)"

record register_response =
  rr_registered :: "registration_status list"
  rr_total_nodes :: nat

definition admin_register ::
  "string option \<Rightarrow> registry \<Rightarrow> (string \<times> node_input) list \<Rightarrow> bool \<Rightarrow> string option \<Rightarrow>
     registry \<times> register_response res" where
  "admin_register admin_token nodes request overwrite presented =
     (case admin_authorize admin_token presented of
        Inl e \<Rightarrow> (nodes, Inl e)
      | Inr u \<Rightarrow>
          (case register_inputs nodes overwrite [] request of
             (nodes', Inl e) \<Rightarrow> (nodes', Inl e)
           | (nodes', Inr statuses) \<Rightarrow>
               (nodes', Inr \<lparr>rr_registered = statuses, rr_total_nodes = length statuses\<rparr>)))"

section \<open>Registry queries\<close>

definition query_snapshot :: "registry \<Rightarrow> registry" where
  "query_snapshot nodes = sort_key fst (registry_snapshot nodes)"

definition query_known_nodes :: "registry \<Rightarrow> string list" where
  "query_known_nodes nodes = sorted_list_of_set (known_nodes nodes)"

definition query_node_count :: "registry \<Rightarrow> nat" where
  "query_node_count nodes = card (known_nodes nodes)"

section \<open>Capability descriptors\<close>

definition FORBIDDEN_CAPABILITY_FIELDS :: "string list" where
  "FORBIDDEN_CAPABILITY_FIELDS =
     [''internal_url'', ''url'', ''host'', ''port'', ''credential'', ''credentials'', ''token'',
      ''secret'', ''password'', ''healthy'', ''health'', ''health_endpoint'', ''active_requests'',
      ''max_concurrent'', ''timeout_ms'', ''node_name'', ''nodes'', ''registry'', ''registry_key'',
      ''topology'', ''load'', ''live_load'']"

definition CAPABILITY_CONTRACT_VERSION :: string where
  "CAPABILITY_CONTRACT_VERSION = ''1.0.0''"

text \<open>\<open>str(key).strip().lower() in FORBIDDEN\<close>: only a string key can be one of the names.\<close>

definition forbidden_key :: "pyval \<Rightarrow> bool" where
  "forbidden_key k = (case k of PyStr s \<Rightarrow> canon s \<in> set FORBIDDEN_CAPABILITY_FIELDS | _ \<Rightarrow> False)"

definition reject_forbidden_fields :: "pyval \<Rightarrow> pyval res" where
  "reject_forbidden_fields value =
     (case value of
        PyDict d \<Rightarrow>
          rbind (rall (\<lambda>(k, nested).
              if forbidden_key k
              then raise ValueError ''capability descriptor must not include topology/sensitive field''
              else (case nested of
                      PyDict n \<Rightarrow>
                        (if list_ex (\<lambda>(k', _). forbidden_key k') n
                         then raise ValueError ''capability descriptor must not include nested field''
                         else Inr ())
                    | _ \<Rightarrow> Inr ())) d)
            (\<lambda>_. Inr value)
      | _ \<Rightarrow> Inr value)"

record capability =
  cap_action :: string
  cap_owner :: "string option"
  cap_contract_version :: string
  cap_advertised :: bool

definition capability_descriptor :: "string \<Rightarrow> string option \<Rightarrow> bool \<Rightarrow> capability res" where
  "capability_descriptor act owner advertised = as_validation_error
     (rbind (reject_forbidden_fields (PyDict [(PyStr ''action'', PyStr act),
         (PyStr ''owner'', opt_str owner), (PyStr ''advertised'', PyBool advertised)]))
       (\<lambda>_. Inr \<lparr>cap_action = act, cap_owner = owner,
          cap_contract_version = CAPABILITY_CONTRACT_VERSION, cap_advertised = advertised\<rparr>))"

section \<open>The capability service\<close>

definition PROTECTED_ACTIONS :: "string list" where
  "PROTECTED_ACTIONS = dkeys CANONICAL_ACTION_OWNERS"

definition is_authorized :: "string option \<Rightarrow> string option \<Rightarrow> bool" where
  "is_authorized admin_token presented =
     (case admin_token of
        None \<Rightarrow> True
      | Some t \<Rightarrow> (case presented of None \<Rightarrow> False | Some p \<Rightarrow> strip p = t))"

text \<open>\<open>required_owner_for_action(action) or owner\<close> for every action of one node.\<close>

fun project_actions ::
  "bool \<Rightarrow> string option \<Rightarrow> (string \<times> string option) list \<Rightarrow> string list \<Rightarrow> (string \<times> string option) list" where
  "project_actions protected owner actions [] = actions"
| "project_actions protected owner actions (a # as) =
     (if a \<in> set PROTECTED_ACTIONS \<and> \<not> protected then project_actions protected owner actions as
      else project_actions protected owner
             (dset actions a (case required_owner_for_action a of Some r \<Rightarrow> Some r | None \<Rightarrow> owner)) as)"

fun project_nodes ::
  "bool \<Rightarrow> (string \<times> string option) list \<Rightarrow> registry \<Rightarrow> (string \<times> string option) list" where
  "project_nodes protected actions [] = actions"
| "project_nodes protected actions ((n, r) # nodes) =
     project_nodes protected
       (project_actions protected (owner_for_registration n (node_metadata r)) actions (supported_actions r))
       nodes"

fun with_canonical ::
  "(string \<times> string option) list \<Rightarrow> (string \<times> string) list \<Rightarrow> (string \<times> string option) list" where
  "with_canonical actions [] = actions"
| "with_canonical actions ((a, owner) # rest) = with_canonical (dsetdefault actions a (Some owner)) rest"

definition projected_actions :: "registry \<Rightarrow> bool \<Rightarrow> (string \<times> string option) list" where
  "projected_actions nodes protected =
     (let actions = project_nodes protected [] (registry_snapshot nodes)
      in if protected then with_canonical actions CANONICAL_ACTION_OWNERS else actions)"

definition project :: "registry \<Rightarrow> bool \<Rightarrow> capability list res" where
  "project nodes protected =
     rmap (\<lambda>(a, owner). capability_descriptor a owner (a \<in> all_supported_actions nodes))
       (sort_key fst (projected_actions nodes protected))"

text \<open>
  \<open>digest\<close> is the hexadecimal SHA-256 of the canonical JSON of the descriptors.
\<close>

definition etag_for :: "(capability list \<Rightarrow> string) \<Rightarrow> capability list \<Rightarrow> string" where
  "etag_for digest ds = ''W/'' @ [CHR 0x22] @ take 16 (digest ds) @ [CHR 0x22]"

record capability_list =
  cl_contract_version :: string
  cl_etag :: string
  cl_capabilities :: "capability list"

definition list_capabilities ::
  "(capability list \<Rightarrow> string) \<Rightarrow> string option \<Rightarrow> registry \<Rightarrow> string option \<Rightarrow> bool \<Rightarrow>
     capability_list res" where
  "list_capabilities digest admin_token nodes presented include_protected =
     (let authorized = is_authorized admin_token presented
      in if include_protected \<and> \<not> authorized
         then raise CapabilityAuthorizationError ''admin token required to list protected capabilities''
         else rbind (project nodes (authorized \<or> include_protected)) (\<lambda>ds.
                Inr \<lparr>cl_contract_version = CAPABILITY_CONTRACT_VERSION, cl_etag = etag_for digest ds,
                     cl_capabilities = ds\<rparr>))"

definition get_capability ::
  "(capability list \<Rightarrow> string) \<Rightarrow> string option \<Rightarrow> registry \<Rightarrow> string \<Rightarrow> string option \<Rightarrow>
     (capability \<times> string) res" where
  "get_capability digest admin_token nodes act presented =
     (let normalized = canon act
      in if normalized = [] then raise ValueError ''action must not be empty''
         else if normalized \<in> set PROTECTED_ACTIONS \<and> \<not> is_authorized admin_token presented
         then raise CapabilityAuthorizationError ''admin token required for protected action''
         else rbind (project nodes True) (\<lambda>ds.
           rbind (case find (\<lambda>d. cap_action d = normalized) (rev ds) of
                    Some d \<Rightarrow> Inr d
                  | None \<Rightarrow>
                      (case required_owner_for_action normalized of
                         Some required \<Rightarrow>
                           if is_authorized admin_token presented
                           then capability_descriptor normalized (Some required) False
                           else raise LookupError ''unknown capability action''
                       | None \<Rightarrow> raise LookupError ''unknown capability action''))
             (\<lambda>d. Inr (d, etag_for digest [d]))))"

definition current_etag :: "(capability list \<Rightarrow> string) \<Rightarrow> registry \<Rightarrow> bool \<Rightarrow> string res" where
  "current_etag digest nodes authorized =
     rbind (project nodes authorized) (\<lambda>ds. Inr (etag_for digest ds))"

section \<open>What admission grants\<close>

lemma finite_supported [simp]: "finite (all_supported_actions nodes)"
  by (auto simp: all_supported_actions_def)

lemma granted_iff:
  "a \<in> set (granted_actions nodes scope) \<longleftrightarrow>
     a \<in> all_supported_actions nodes \<and> (case scope of None \<Rightarrow> True | Some as \<Rightarrow> a \<in> set as)"
  by (cases scope) (auto simp: granted_actions_def)

lemma validate_admission_iff:
  "validate_admission S V v known body = Inr (p, scope) \<longleftrightarrow>
     validate_packet S V v known None body = Inr p \<and> action (header p) = ADMISSION_ACTION
     \<and> signature (security p) \<noteq> None
     \<and> (\<exists>x. resolve_caller_policy v p False = Inr x \<and> scope = map_option cp_actions x)"
proof (cases "validate_packet S V v known None body")
  case (Inr q)
  then show ?thesis
    by (cases "resolve_caller_policy v q False") (auto simp: validate_admission_def split: option.splits)
qed (simp add: validate_admission_def)

text \<open>
  C18. Admission grants a key exactly the actions that some node serves and that the
  same key, speaking for the same node and tenant, is authorized to execute.
\<close>

theorem admission_grants_what_execute_authorizes:
  assumes "validate_admission S V v known body = Inr (p, scope)"
    and "signature (security q) \<noteq> None" and "signing_key_id (security q) = signing_key_id (security p)"
    and "source_node (address q) = source_node (address p)" and "org_id (tenant q) = org_id (tenant p)"
  shows "action (header q) \<in> set (granted_actions nodes scope) \<longleftrightarrow>
    authorize_action v q = Inr () \<and> action (header q) \<in> all_supported_actions nodes"
proof -
  from assms(1) obtain x where x: "resolve_caller_policy v p False = Inr x" "scope = map_option cp_actions x"
    by (auto simp: validate_admission_iff)
  have same: "in_scope pol q = in_scope pol p" for pol by (simp add: in_scope_def assms(4,5))
  show ?thesis
    using x(1) assms(2,3)
    by (auto simp: granted_iff x(2) authorize_action_iff resolve_policy_iff same split: if_splits)
qed

text \<open>
  Admission does not look at the allowlist of Gate itself: an action outside
  \<open>L9_ALLOWED_ACTIONS\<close> that it grants can be executed by nobody.
\<close>

theorem admission_ignores_allowlist:
  assumes "enforces_allowlist V" and "iv_allowed_actions v \<noteq> []" and "a \<notin> set (iv_allowed_actions v)"
    and "validate_admission S V v known body = Inr (p, scope)"
    and "a \<in> all_supported_actions nodes" and "case scope of None \<Rightarrow> True | Some as \<Rightarrow> a \<in> set as"
  shows "a \<in> set (granted_actions nodes scope)
    \<and> (\<forall>S known body q. ingress_validate S V v known body = Inr q \<longrightarrow> action (header q) \<noteq> a)"
proof (intro conjI allI impI)
  show "a \<in> set (granted_actions nodes scope)" using assms(5,6) by (simp add: granted_iff)
  fix S known body q
  assume "ingress_validate S V v known body = Inr q"
  then have "V (transport_checks_of v (Some (iv_allowed_actions v))) q = Inr ()"
    using assms(2) by (simp add: ingress_validate_iff validate_packet_iff tuple_or_none_def)
  with assms(1) have "action (header q) \<in> set (iv_allowed_actions v)"
    by (auto simp: enforces_allowlist_def transport_checks_of_def)
  with assms(3) show "action (header q) \<noteq> a" by blast
qed

section \<open>What a registration changes\<close>

text \<open>The registry after the first entries of a request were registered one by one.\<close>

fun registered_prefix :: "registry \<Rightarrow> bool \<Rightarrow> (string \<times> node_input) list \<Rightarrow> registry" where
  "registered_prefix nodes overwrite [] = nodes"
| "registered_prefix nodes overwrite (entry # entries) =
     registered_prefix (fst (register_input nodes overwrite entry)) overwrite entries"

lemma register_input_failed: "register_input nodes overwrite x = (nodes', Inl e) \<Longrightarrow> nodes' = nodes"
  by (auto simp: register_input_def register_node_def Let_def split: prod.splits sum.splits if_splits)

lemma register_inputs_prefix:
  "register_inputs nodes overwrite statuses entries = (nodes', r) \<Longrightarrow>
     (case r of
        Inr ss \<Rightarrow> nodes' = registered_prefix nodes overwrite entries
          \<and> ss = statuses @ map (\<lambda>x. \<lparr>rg_node_name = canon (fst x), rg_healthy = True, rg_registered = True\<rparr>) entries
      | Inl e \<Rightarrow> \<exists>k < length entries. nodes' = registered_prefix nodes overwrite (take k entries)
          \<and> register_input nodes' overwrite (entries ! k) = (nodes', Inl e))"
proof (induction entries arbitrary: nodes statuses)
  case (Cons x entries)
  obtain n1 r1 where x: "register_input nodes overwrite x = (n1, r1)" by fastforce
  show ?case
  proof (cases r1)
    case (Inl e)
    with Cons.prems x register_input_failed[of nodes overwrite x n1 e] show ?thesis
      by (auto intro!: exI[of _ 0])
  next
    case (Inr u)
    with Cons.prems x have rest: "register_inputs n1 overwrite
        (statuses @ [\<lparr>rg_node_name = canon (fst x), rg_healthy = True, rg_registered = True\<rparr>]) entries = (nodes', r)"
      by simp
    show ?thesis
    proof (cases r)
      case (Inl e)
      from Cons.IH[OF rest] Inl obtain k where "k < length entries"
        "nodes' = registered_prefix n1 overwrite (take k entries)"
        "register_input nodes' overwrite (entries ! k) = (nodes', Inl e)" by auto
      then show ?thesis using x Inl by (auto intro!: exI[of _ "Suc k"])
    qed (use Cons.IH[OF rest] x in auto)
  qed
qed auto

text \<open>A partly applied request keeps what every registration keeps.\<close>

lemma register_input_step:
  "fst (register_input nodes overwrite (name, i)) = registry_step (\<lambda>_ _. None) nodes
     (Register name \<lparr>node_name = name, internal_url = in_internal_url i,
        supported_actions = in_supported_actions i, priority_class = in_priority_class i,
        max_concurrent = in_max_concurrent i, health_endpoint = in_health_endpoint i,
        node_timeout_ms = in_timeout_ms i, node_metadata = in_metadata i, healthy = True,
        active_requests = 0\<rparr> overwrite)"
  by (simp add: register_input_def registration_of_def split: sum.splits)

lemma registered_prefix_keeps:
  assumes "registry_wf nodes" and "registry_owned nodes"
  shows "registry_wf (registered_prefix nodes overwrite entries) \<and>
    registry_owned (registered_prefix nodes overwrite entries)"
  using assms
proof (induction entries arbitrary: nodes)
  case (Cons x entries)
  obtain name i where x: "x = (name, i)" by fastforce
  have "registry_wf (fst (register_input nodes overwrite x))" "registry_owned (fst (register_input nodes overwrite x))"
    using Cons.prems unfolding x register_input_step
    by (intro registry_step_wf registry_step_owned; simp)+
  with Cons.IH show ?case by simp
qed simp

text \<open>
  C23. A registration request is not atomic: without the admin token it changes nothing;
  with it the nodes are registered in order, and when one is refused those before it
  stay registered while the caller gets the error of the refused one. However far it
  came, the registry stays well formed and no action is shared across owners.
\<close>

theorem admin_registration_is_sequential:
  assumes "registry_wf nodes" and "registry_owned nodes"
    and run: "admin_register tok nodes request overwrite presented = (nodes', r)"
  shows "registry_wf nodes' \<and> registry_owned nodes' \<and>
    (case r of
       Inr resp \<Rightarrow> admin_authorize tok presented = Inr ()
         \<and> nodes' = registered_prefix nodes overwrite request
         \<and> map rg_node_name (rr_registered resp) = map (canon \<circ> fst) request
         \<and> rr_total_nodes resp = length request
     | Inl e \<Rightarrow>
         nodes' = nodes \<and> admin_authorize tok presented = Inl e \<and> exn_class e = PermissionError
         \<or> admin_authorize tok presented = Inr () \<and>
           (\<exists>k < length request. nodes' = registered_prefix nodes overwrite (take k request)
              \<and> register_input nodes' overwrite (request ! k) = (nodes', Inl e)))"
proof (cases "admin_authorize tok presented")
  case (Inl e)
  with run assms(1,2) show ?thesis
    by (auto simp: admin_register_def admin_authorize_def split: option.splits if_splits)
next
  case (Inr u)
  obtain n1 x where inputs: "register_inputs nodes overwrite [] request = (n1, x)" by fastforce
  from register_inputs_prefix[OF inputs] Inr inputs run registered_prefix_keeps[OF assms(1,2)] show ?thesis
    by (cases x) (auto simp: admin_register_def comp_def)
qed

definition sample_input :: "string list \<Rightarrow> node_input" where
  "sample_input acts =
     \<lparr>in_internal_url = ''http://w'', in_supported_actions = acts, in_priority_class = ''P1'',
      in_max_concurrent = 4, in_health_endpoint = ''/health'', in_timeout_ms = 1000, in_metadata = []\<rparr>"

theorem admin_registration_is_sequential_witness:
  "\<exists>nodes' e. admin_register (Some ''t'') [] [(''Graph'', sample_input [''match'']), (''w'', sample_input [''match''])]
       True (Some ''t '') = (nodes', Inl e) \<and> registry_owned nodes' \<and> dkeys nodes' = [''graph'']"
proof -
  let ?req = "[(''Graph'', sample_input [''match'']), (''w'', sample_input [''match''])]"
  obtain nodes' r where run: "admin_register (Some ''t'') [] ?req True (Some ''t '') = (nodes', r)" by fastforce
  have "case admin_register (Some ''t'') [] ?req True (Some ''t '') of
      (n, Inl e) \<Rightarrow> dkeys n = [''graph''] | (n, Inr y) \<Rightarrow> False" by code_simp
  moreover have wf: "registry_wf []" and own: "registry_owned []"
    by (simp_all add: registry_wf_def registry_owned_def)
  ultimately show ?thesis
    using admin_registration_is_sequential[OF wf own run] run by (auto split: sum.splits)
qed

section \<open>What the capability service discloses\<close>

lemma descriptor_ok [simp]:
  "capability_descriptor a owner b = Inr \<lparr>cap_action = a, cap_owner = owner,
     cap_contract_version = CAPABILITY_CONTRACT_VERSION, cap_advertised = b\<rparr>"
proof -
  have "\<not> forbidden_key (PyStr ''action'')" "\<not> forbidden_key (PyStr ''owner'')"
    "\<not> forbidden_key (PyStr ''advertised'')" by code_simp+
  then show ?thesis
    by (cases owner) (simp_all add: capability_descriptor_def reject_forbidden_fields_def opt_str_def)
qed

lemma rmap_ok: "(\<And>x. x \<in> set xs \<Longrightarrow> f x = Inr (g x)) \<Longrightarrow> rmap f xs = Inr (map g xs)"
  by (induction xs) auto

lemma project_Inr:
  "project nodes protected = Inr (map (\<lambda>(a, owner). \<lparr>cap_action = a, cap_owner = owner,
     cap_contract_version = CAPABILITY_CONTRACT_VERSION, cap_advertised = a \<in> all_supported_actions nodes\<rparr>)
     (sort_key fst (projected_actions nodes protected)))"
  unfolding project_def by (rule rmap_ok) auto

text \<open>What the table under construction satisfies.\<close>

definition owners_agree :: "(string \<times> string option) list \<Rightarrow> bool" where
  "owners_agree actions \<longleftrightarrow> dwf actions \<and>
     (\<forall>a owner r. (a, owner) \<in> set actions \<longrightarrow> required_owner_for_action a = Some r \<longrightarrow> owner = Some r)"

lemma owners_agree_dset:
  "owners_agree actions \<Longrightarrow> (\<And>r. required_owner_for_action a = Some r \<Longrightarrow> owner = Some r) \<Longrightarrow>
     owners_agree (dset actions a owner)"
  by (auto simp: owners_agree_def in_dset_iff split: if_splits)

lemma keys_dset: "fst ` set (dset d k v) = insert k (fst ` set d)"
  using dkeys_dset[of k v d] by simp

lemma project_actions_keys:
  "fst ` set (project_actions protected owner actions as) =
     fst ` set actions \<union> {a \<in> set as. protected \<or> a \<notin> set PROTECTED_ACTIONS}"
proof (induction as arbitrary: actions)
  case (Cons a as)
  then show ?case by (cases protected) (simp_all add: keys_dset, blast+)
qed simp

lemma project_actions_agree:
  "owners_agree actions \<Longrightarrow> owners_agree (project_actions protected owner actions as)"
proof (induction as arbitrary: actions)
  case (Cons a as)
  then show ?case by (cases protected) (simp_all add: owners_agree_dset)
qed simp

lemma project_nodes_keys:
  "fst ` set (project_nodes protected actions nodes) =
     fst ` set actions \<union> {a \<in> all_supported_actions nodes. protected \<or> a \<notin> set PROTECTED_ACTIONS}"
  by (induction protected actions nodes rule: project_nodes.induct)
    (auto simp: project_actions_keys all_supported_actions_def)

lemma project_nodes_agree:
  "owners_agree actions \<Longrightarrow> owners_agree (project_nodes protected actions nodes)"
  by (induction protected actions nodes rule: project_nodes.induct) (simp_all add: project_actions_agree)

lemma canonical_actions: "a \<in> set PROTECTED_ACTIONS \<longleftrightarrow> dget CANONICAL_ACTION_OWNERS a \<noteq> None"
  by (simp add: PROTECTED_ACTIONS_def map_of_eq_None_iff)

lemma with_canonical_keys:
  "fst ` set (with_canonical actions rest) = fst ` set actions \<union> fst ` set rest"
  by (induction actions rest rule: with_canonical.induct)
    (auto simp: dsetdefault_def keys_dset split: option.splits dest!: map_of_SomeD intro: rev_image_eqI)

lemma with_canonical_agree:
  "owners_agree actions \<Longrightarrow> \<forall>(a, owner) \<in> set rest. required_owner_for_action a = Some owner \<Longrightarrow>
     owners_agree (with_canonical actions rest)"
proof (induction actions rest rule: with_canonical.induct)
  case (2 actions a owner rest)
  then have "owners_agree (dsetdefault actions a (Some owner))"
    by (auto simp: dsetdefault_def intro: owners_agree_dset split: option.splits)
  with 2 show ?case by simp
qed simp

lemma canonical_owners: "\<forall>(a, owner) \<in> set CANONICAL_ACTION_OWNERS. required_owner_for_action a = Some owner"
  by code_simp

lemma projected_keys:
  "fst ` set (projected_actions nodes protected) =
     {a \<in> all_supported_actions nodes. protected \<or> a \<notin> set PROTECTED_ACTIONS} \<union>
     (if protected then set PROTECTED_ACTIONS else {})"
  by (auto simp: projected_actions_def Let_def registry_snapshot_def with_canonical_keys
      project_nodes_keys PROTECTED_ACTIONS_def)

lemma projected_agree: "owners_agree (projected_actions nodes protected)"
proof -
  have "owners_agree []" by (simp add: owners_agree_def)
  then show ?thesis
    by (simp add: projected_actions_def Let_def with_canonical_agree project_nodes_agree canonical_owners)
qed

lemma capability_listing_spec:
  "case list_capabilities digest tok nodes presented include_protected of
     Inl e \<Rightarrow> exn_class e = CapabilityAuthorizationError \<and> include_protected \<and> \<not> is_authorized tok presented
   | Inr l \<Rightarrow>
       (include_protected \<longrightarrow> is_authorized tok presented)
       \<and> sorted_wrt (<) (map cap_action (cl_capabilities l))
       \<and> cap_action ` set (cl_capabilities l) =
           {a \<in> all_supported_actions nodes. is_authorized tok presented \<or> a \<notin> set PROTECTED_ACTIONS} \<union>
           (if is_authorized tok presented then set PROTECTED_ACTIONS else {})
       \<and> (\<forall>c \<in> set (cl_capabilities l).
            (cap_advertised c \<longleftrightarrow> cap_action c \<in> all_supported_actions nodes)
            \<and> (\<forall>owner. required_owner_for_action (cap_action c) = Some owner \<longrightarrow> cap_owner c = Some owner))"
proof (cases "include_protected \<and> \<not> is_authorized tok presented")
  case True
  then show ?thesis by (simp add: list_capabilities_def)
next
  case False
  let ?auth = "is_authorized tok presented"
  let ?acts = "projected_actions nodes ?auth"
  have auth: "(?auth \<or> include_protected) = ?auth" using False by blast
  have agree: "owners_agree ?acts" by (rule projected_agree)
  then have "distinct (map fst (sort_key fst ?acts))"
    by (simp add: owners_agree_def dwf_def distinct_map)
  then have sorted: "sorted_wrt (<) (map fst (sort_key fst ?acts))"
    by (simp add: strict_sorted_iff)
  let ?cs = "map (\<lambda>(a, owner). \<lparr>cap_action = a, cap_owner = owner,
      cap_contract_version = CAPABILITY_CONTRACT_VERSION, cap_advertised = a \<in> all_supported_actions nodes\<rparr>)
    (sort_key fst ?acts)"
  have names: "map cap_action ?cs = map fst (sort_key fst ?acts)" by (simp add: case_prod_unfold)
  have "cap_action ` set ?cs = fst ` set ?acts" by (simp add: image_image case_prod_unfold)
  then have listed: "cap_action ` set ?cs = {a \<in> all_supported_actions nodes. ?auth \<or> a \<notin> set PROTECTED_ACTIONS} \<union>
      (if ?auth then set PROTECTED_ACTIONS else {})" by (simp only: projected_keys)
  have each: "\<forall>c \<in> set ?cs. (cap_advertised c \<longleftrightarrow> cap_action c \<in> all_supported_actions nodes)
      \<and> (\<forall>owner. required_owner_for_action (cap_action c) = Some owner \<longrightarrow> cap_owner c = Some owner)"
    using agree by (auto simp: owners_agree_def)
  have "list_capabilities digest tok nodes presented include_protected =
      Inr \<lparr>cl_contract_version = CAPABILITY_CONTRACT_VERSION, cl_etag = etag_for digest ?cs, cl_capabilities = ?cs\<rparr>"
    using False by (simp add: list_capabilities_def project_Inr auth Let_def)
  then show ?thesis
    using False by (simp only: sum.case capability_list.select_convs names) (intro conjI sorted listed each, blast)
qed

text \<open>
  C25. A capability listing discloses a protected action only to a caller with the admin
  token (or where none is configured), and asking for protected actions without it is
  refused. What is listed is exact: each action once and in order, every action some
  node serves that the caller may see, an action is advertised exactly if some node
  serves it, and a canonical action carries its canonical owner.
\<close>

theorem capability_listing_exact:
  "case list_capabilities digest tok nodes presented include_protected of
     Inl e \<Rightarrow> exn_class e = CapabilityAuthorizationError \<and> include_protected \<and> \<not> is_authorized tok presented
   | Inr l \<Rightarrow>
       (include_protected \<longrightarrow> is_authorized tok presented)
       \<and> sorted_wrt (<) (map cap_action (cl_capabilities l))
       \<and> cap_action ` set (cl_capabilities l) =
           {a \<in> all_supported_actions nodes. is_authorized tok presented \<or> a \<notin> set PROTECTED_ACTIONS} \<union>
           (if is_authorized tok presented then set PROTECTED_ACTIONS else {})
       \<and> (\<forall>c \<in> set (cl_capabilities l).
            (cap_advertised c \<longleftrightarrow> cap_action c \<in> all_supported_actions nodes)
            \<and> (\<forall>owner. required_owner_for_action (cap_action c) = Some owner \<longrightarrow> cap_owner c = Some owner))"
  by (rule capability_listing_spec)

theorem capability_listing_exact_witness:
  "cap_action ` set (case list_capabilities (\<lambda>_. ''abc'') (Some ''t'')
       [(''graph'', sample_node ''graph'' [''match'', ''extra''] [])] None False of Inr l \<Rightarrow> cl_capabilities l | Inl e \<Rightarrow> [])
     = {''extra''}"
proof -
  let ?nodes = "[(''graph'', sample_node ''graph'' [''match'', ''extra''] [])]"
  have "{a \<in> all_supported_actions ?nodes. a \<notin> set PROTECTED_ACTIONS} = {''extra''}"
    by (auto simp: all_supported_actions_def sample_node_def PROTECTED_ACTIONS_def CANONICAL_ACTION_OWNERS_def)
  with capability_listing_exact[where digest = "\<lambda>_. ''abc''" and tok = "Some ''t''" and nodes = ?nodes
      and presented = None and include_protected = False]
  show ?thesis by (auto simp: is_authorized_def split: sum.splits)
qed

section \<open>Examples of admission\<close>

theorem admission_grants_what_execute_authorizes_witness:
  "\<exists>s p scope. get_settings sample_loads sample_float sample_env = Inr s
     \<and> validate_admission (ref_sdk (\<lambda>_. Inr (signed_packet ADMISSION_ACTION))) ref_transport
         (get_ingress_validator s) [] (PyDict []) = Inr (p, scope)
     \<and> ''match'' \<in> set (granted_actions [(''graph'', sample_node ''graph'' [''match'', ''x''] [])] scope)
     \<and> ''x'' \<notin> set (granted_actions [(''graph'', sample_node ''graph'' [''match'', ''x''] [])] scope)"
proof -
  let ?S = "ref_sdk (\<lambda>_. Inr (signed_packet ADMISSION_ACTION))"
  let ?nodes = "[(''graph'', sample_node ''graph'' [''match'', ''x''] [])]"
  let ?p = "signed_packet ADMISSION_ACTION" and ?acts = "[''match'', ''enrich'']"
  have adm: "validate_admission ?S ref_transport (get_ingress_validator sample_gate) [] (PyDict []) = Inr (?p, Some ?acts)"
    and auth: "authorize_action (get_ingress_validator sample_gate) (signed_packet ''match'') = Inr ()"
      "authorize_action (get_ingress_validator sample_gate) (signed_packet ''x'') \<noteq> Inr ()"
    by code_simp+
  have like: "signature (security (signed_packet a)) \<noteq> None"
    "signing_key_id (security (signed_packet a)) = signing_key_id (security ?p)"
    "source_node (address (signed_packet a)) = source_node (address ?p)"
    "org_id (tenant (signed_packet a)) = org_id (tenant ?p)" "action (header (signed_packet a)) = a" for a
    by (simp_all add: signed_packet_def example_packet_def Let_def)
  have "''match'' \<in> all_supported_actions ?nodes" by (simp add: all_supported_actions_def sample_node_def)
  then show ?thesis
    using sample_settings adm auth admission_grants_what_execute_authorizes[OF adm like(1-4), unfolded like(5)] by blast
qed

theorem admission_ignores_allowlist_witness:
  "\<exists>v p scope. validate_admission (ref_sdk (\<lambda>_. Inr (signed_packet ADMISSION_ACTION))) ref_transport v []
       (PyDict []) = Inr (p, scope)
     \<and> ''match'' \<in> set (granted_actions [(''graph'', sample_node ''graph'' [''match''] [])] scope)
     \<and> ingress_validate (ref_sdk (\<lambda>_. Inr (signed_packet ''match''))) ref_transport v [] (PyDict [])
         \<noteq> Inr (signed_packet ''match'')"
proof -
  let ?v = "(get_ingress_validator settings_defaults)\<lparr>iv_allowed_actions := [''enrich'']\<rparr>"
  let ?nodes = "[(''graph'', sample_node ''graph'' [''match''] [])]"
  have adm: "validate_admission (ref_sdk (\<lambda>_. Inr (signed_packet ADMISSION_ACTION))) ref_transport ?v []
       (PyDict []) = Inr (signed_packet ADMISSION_ACTION, None)" by code_simp
  have "''match'' \<in> all_supported_actions ?nodes" by (simp add: all_supported_actions_def sample_node_def)
  moreover have "action (header (signed_packet ''match'')) = ''match''"
    by (simp add: signed_packet_def example_packet_def Let_def)
  ultimately show ?thesis
    using adm admission_ignores_allowlist[OF ref_transport_ok(2) _ _ adm, of "''match''" ?nodes] by fastforce
qed

end
