(* ===== verification/Admission.thy ===== *)
theory Admission
  imports Exceptions Py_Float
begin

text \<open>
  Ingress admission control: the fixed-window rate limiter
  (\<open>resilience/rate_limiter.py\<close>), the two threshold guards
  (\<open>backpressure.py\<close>, \<open>load_shedding.py\<close>) and the controller that runs the
  three in order (\<open>admission_controller.py\<close>).

  A method that mutates its object and may raise returns the new state together
  with the outcome: what was written before the exception stays written. A
  \<open>now\<close> argument of \<open>None\<close> means the clock is read; \<open>clock\<close> is that reading.
\<close>

section \<open>Threshold guards\<close>

record decision =
  allowed :: bool
  reason :: "string option"

record backpressure_policy =
  max_queue_depth :: int

definition backpressure_init :: "int \<Rightarrow> backpressure_policy res" where
  "backpressure_init n =
     (if n < 1 then raise ValueError ''max_queue_depth must be >= 1''
      else Inr \<lparr>max_queue_depth = n\<rparr>)"

definition backpressure_decision_for :: "backpressure_policy \<Rightarrow> int \<Rightarrow> decision res" where
  "backpressure_decision_for p queue_depth =
     (if queue_depth < 0 then raise ValueError ''queue_depth must be >= 0''
      else if max_queue_depth p \<le> queue_depth
      then Inr \<lparr>allowed = False, reason = Some ''queue_depth_limit_exceeded''\<rparr>
      else Inr \<lparr>allowed = True, reason = None\<rparr>)"

definition backpressure_enforce :: "backpressure_policy \<Rightarrow> int \<Rightarrow> unit res" where
  "backpressure_enforce p queue_depth =
     rbind (backpressure_decision_for p queue_depth) (\<lambda>d.
       if \<not> allowed d
       then raise BackpressureExceededError (str_or (reason d) ''backpressure_exceeded'')
       else Inr ())"

record load_shedding_policy =
  max_in_flight :: int

definition load_shedding_init :: "int \<Rightarrow> load_shedding_policy res" where
  "load_shedding_init n =
     (if n < 1 then raise ValueError ''max_in_flight must be >= 1''
      else Inr \<lparr>max_in_flight = n\<rparr>)"

definition load_shedding_decision_for :: "load_shedding_policy \<Rightarrow> int \<Rightarrow> decision res" where
  "load_shedding_decision_for p in_flight =
     (if in_flight < 0 then raise ValueError ''in_flight must be >= 0''
      else if max_in_flight p \<le> in_flight
      then Inr \<lparr>allowed = False, reason = Some ''in_flight_limit_exceeded''\<rparr>
      else Inr \<lparr>allowed = True, reason = None\<rparr>)"

definition load_shedding_enforce :: "load_shedding_policy \<Rightarrow> int \<Rightarrow> unit res" where
  "load_shedding_enforce p in_flight =
     rbind (load_shedding_decision_for p in_flight) (\<lambda>d.
       if \<not> allowed d then raise LoadShedError (str_or (reason d) ''load_shed'')
       else Inr ())"

text \<open>The contract of a threshold guard, which both policies provide.\<close>

locale threshold_guard =
  fixes enforce :: "int \<Rightarrow> unit res"
    and limit :: int
    and exc :: pyclass
  assumes enforce_ok: "enforce n = Inr () \<longleftrightarrow> 0 \<le> n \<and> n < limit"
    and enforce_over: "limit \<le> n \<Longrightarrow> 0 \<le> n \<Longrightarrow> \<exists>m. enforce n = raise exc m"
    and enforce_neg: "n < 0 \<Longrightarrow> \<exists>m. enforce n = raise ValueError m"
begin

lemma admits_less: "enforce n = Inr () \<Longrightarrow> 0 \<le> m \<Longrightarrow> m \<le> n \<Longrightarrow> enforce m = Inr ()"
  by (simp add: enforce_ok)

lemma rejects_class: "enforce n = Inl e \<Longrightarrow> exn_class e = (if n < 0 then ValueError else exc)"
proof -
  assume e: "enforce n = Inl e"
  then have "\<not> (0 \<le> n \<and> n < limit)" using enforce_ok[of n] by auto
  then show ?thesis
    using e enforce_neg[of n] enforce_over[of n] by (cases "n < 0") auto
qed

end

interpretation backpressure:
  threshold_guard "backpressure_enforce p" "max_queue_depth p" BackpressureExceededError for p
  by unfold_locales
    (auto simp: backpressure_enforce_def backpressure_decision_for_def split: if_splits)

interpretation load_shedding:
  threshold_guard "load_shedding_enforce p" "max_in_flight p" LoadShedError for p
  by unfold_locales
    (auto simp: load_shedding_enforce_def load_shedding_decision_for_def split: if_splits)

section \<open>The fixed-window rate limiter\<close>

record rate_limiter =
  rl_max_requests :: int
  rl_window_seconds :: pyfloat
  rl_counters :: "(string \<times> (int \<times> int)) list"

record rate_limit_decision =
  rl_allowed :: bool
  retry_after_seconds :: pyfloat

definition rate_limiter_init :: "int \<Rightarrow> pyfloat \<Rightarrow> rate_limiter res" where
  "rate_limiter_init max_requests window_seconds =
     (if max_requests < 1 then raise ValueError ''max_requests must be >= 1''
      else if window_seconds \<le> 0 then raise ValueError ''window_seconds must be > 0''
      else Inr \<lparr>rl_max_requests = max_requests, rl_window_seconds = window_seconds,
                rl_counters = []\<rparr>)"

definition window_index :: "rate_limiter \<Rightarrow> pyfloat \<Rightarrow> int" where
  "window_index l now = \<lfloor>fdiv now (rl_window_seconds l)\<rfloor>"

definition count_for :: "rate_limiter \<Rightarrow> string \<Rightarrow> int \<Rightarrow> int" where
  "count_for l key w =
     (case dget (rl_counters l) key of
        None \<Rightarrow> 0
      | Some (w', c) \<Rightarrow> if w' \<noteq> w then 0 else c)"

definition retry_after :: "rate_limiter \<Rightarrow> int \<Rightarrow> pyfloat \<Rightarrow> pyfloat" where
  "retry_after l w now =
     (let window_end = fmul (float_of_int (w + 1)) (rl_window_seconds l)
      in max 0 (fsub window_end now))"

definition rate_decision_for ::
  "rate_limiter \<Rightarrow> string \<Rightarrow> pyfloat option \<Rightarrow> pyfloat \<Rightarrow> rate_limit_decision" where
  "rate_decision_for l key now clock =
     (let current = opt_or now clock; w = window_index l current; c = count_for l key w
      in if c < rl_max_requests l then \<lparr>rl_allowed = True, retry_after_seconds = 0\<rparr>
         else \<lparr>rl_allowed = False, retry_after_seconds = retry_after l w current\<rparr>)"

definition rate_allow ::
  "rate_limiter \<Rightarrow> string \<Rightarrow> pyfloat option \<Rightarrow> pyfloat \<Rightarrow> rate_limiter \<times> unit res" where
  "rate_allow l key now clock =
     (let current = opt_or now clock; w = window_index l current; c = count_for l key w
      in if rl_max_requests l \<le> c then (l, raise RateLimitExceededError ''rate limit exceeded'')
         else (l\<lparr>rl_counters := dset (rl_counters l) key (w, c + 1)\<rparr>, Inr ()))"

definition rate_clear :: "rate_limiter \<Rightarrow> rate_limiter" where
  "rate_clear l = l\<lparr>rl_counters := []\<rparr>"

text \<open>A sequence of \<open>allow\<close> calls, each with its subject and time; the verdicts in order.\<close>

fun rate_run :: "rate_limiter \<Rightarrow> (string \<times> pyfloat) list \<Rightarrow> bool list" where
  "rate_run l [] = []"
| "rate_run l ((key, now) # calls) =
     (let (l', r) = rate_allow l key (Some now) 0 in (r = Inr ()) # rate_run l' calls)"

section \<open>The admission controller\<close>

record admission_snapshot =
  snap_source_key :: string
  snap_in_flight :: int
  snap_queue_depth :: int

record admission_controller =
  ac_rate_limiter :: rate_limiter
  ac_load_shedding :: load_shedding_policy
  ac_backpressure :: backpressure_policy

definition admission_check ::
  "admission_controller \<Rightarrow> string \<Rightarrow> int \<Rightarrow> int \<Rightarrow> pyfloat \<Rightarrow>
     admission_controller \<times> admission_snapshot res" where
  "admission_check ac source_key in_flight queue_depth clock =
     (case rate_allow (ac_rate_limiter ac) source_key None clock of
        (l, Inl e) \<Rightarrow> (ac\<lparr>ac_rate_limiter := l\<rparr>, Inl e)
      | (l, Inr _) \<Rightarrow>
          (ac\<lparr>ac_rate_limiter := l\<rparr>,
           rbind (load_shedding_enforce (ac_load_shedding ac) in_flight) (\<lambda>_.
           rbind (backpressure_enforce (ac_backpressure ac) queue_depth) (\<lambda>_.
             Inr \<lparr>snap_source_key = source_key, snap_in_flight = in_flight,
                  snap_queue_depth = queue_depth\<rparr>))))"

section \<open>Properties\<close>

lemma rate_allow_ok_iff:
  "snd (rate_allow l key now clock) = Inr () \<longleftrightarrow>
     count_for l key (window_index l (opt_or now clock)) < rl_max_requests l"
  by (auto simp: rate_allow_def Let_def)

lemma rate_allow_sel [simp]:
  "rl_max_requests (fst (rate_allow l key now clock)) = rl_max_requests l"
  "rl_window_seconds (fst (rate_allow l key now clock)) = rl_window_seconds l"
  by (auto simp: rate_allow_def Let_def)

lemma window_index_allow [simp]:
  "window_index (fst (rate_allow l key now clock)) t = window_index l t"
  by (simp add: window_index_def)

lemma window_index_mono:
  "0 < rl_window_seconds l \<Longrightarrow> s \<le> t \<Longrightarrow> window_index l s \<le> window_index l t"
  unfolding window_index_def fdiv_def
  by (intro floor_mono rnd_mono divide_right_mono) simp_all

text \<open>How often a subject asked, and was admitted, in one window.\<close>

definition asked_in :: "rate_limiter \<Rightarrow> string \<Rightarrow> int \<Rightarrow> (string \<times> pyfloat) list \<Rightarrow> nat" where
  "asked_in l key w calls =
     length (filter (\<lambda>(k, t). k = key \<and> window_index l t = w) calls)"

definition admitted_in :: "rate_limiter \<Rightarrow> string \<Rightarrow> int \<Rightarrow> (string \<times> pyfloat) list \<Rightarrow> nat" where
  "admitted_in l key w calls =
     length (filter (\<lambda>((k, t), ok). ok \<and> k = key \<and> window_index l t = w)
       (zip calls (rate_run l calls)))"

text \<open>Counters never pass the limit, and no counter is ahead of a given window.\<close>

definition counters_ok :: "rate_limiter \<Rightarrow> bool" where
  "counters_ok l =
     (\<forall>k w c. dget (rl_counters l) k = Some (w, c) \<longrightarrow> 0 \<le> c \<and> c \<le> rl_max_requests l)"

definition no_window_after :: "rate_limiter \<Rightarrow> int \<Rightarrow> bool" where
  "no_window_after l w = (\<forall>k w' c. dget (rl_counters l) k = Some (w', c) \<longrightarrow> w' \<le> w)"

lemma counters_ok_count:
  "counters_ok l \<Longrightarrow> 0 \<le> rl_max_requests l \<Longrightarrow>
     0 \<le> count_for l key w \<and> count_for l key w \<le> rl_max_requests l"
  by (auto simp: counters_ok_def count_for_def split: option.splits)

lemma rate_allow_counters_ok [inv_intros]:
  assumes "counters_ok l" and "0 \<le> rl_max_requests l"
  shows "counters_ok (fst (rate_allow l key now clock))"
  using assms counters_ok_count[OF assms, of key "window_index l (opt_or now clock)"]
  by (auto simp: counters_ok_def rate_allow_def Let_def split: if_splits)

lemma count_for_after:
  "count_for (fst (rate_allow l key (Some t) clock)) k w =
     (if k = key \<and> count_for l key (window_index l t) < rl_max_requests l
      then (if w = window_index l t then count_for l key w + 1 else 0)
      else count_for l k w)"
  by (auto simp: rate_allow_def Let_def count_for_def split: option.splits)

lemma count_for_future: "no_window_after l w' \<Longrightarrow> w' < w \<Longrightarrow> count_for l k w = 0"
  by (fastforce simp: no_window_after_def count_for_def split: option.splits)

lemma no_window_after_allow:
  "no_window_after l w \<Longrightarrow> w \<le> window_index l t \<Longrightarrow>
     no_window_after (fst (rate_allow l key (Some t) clock)) (window_index l t)"
  by (fastforce simp: no_window_after_def rate_allow_def Let_def split: if_splits)

lemma asked_in_Cons:
  "asked_in l key w ((k, t) # calls) =
     (if k = key \<and> window_index l t = w then 1 else 0) + asked_in l key w calls"
  by (simp add: asked_in_def)

lemma asked_in_allow [simp]:
  "asked_in (fst (rate_allow l k now clock)) key w calls = asked_in l key w calls"
  by (simp add: asked_in_def)

lemma admitted_in_Cons:
  "admitted_in l key w ((k, t) # calls) =
     (if k = key \<and> window_index l t = w \<and> count_for l k w < rl_max_requests l then 1 else 0) +
     admitted_in (fst (rate_allow l k (Some t) 0)) key w calls"
  using rate_allow_ok_iff[of l k "Some t" 0]
  by (auto simp: admitted_in_def case_prod_beta Let_def)

lemma asked_in_past:
  "0 < rl_window_seconds l \<Longrightarrow> \<forall>(k, t) \<in> set calls. w' \<le> window_index l t \<Longrightarrow> w < w' \<Longrightarrow>
     asked_in l key w calls = 0"
  by (fastforce simp: asked_in_def filter_empty_conv)

text \<open>From any state: what is admitted is what the window still has room for.\<close>

lemma admitted_room:
  assumes "counters_ok l" and "0 \<le> rl_max_requests l" and "0 < rl_window_seconds l"
    and "sorted (map snd calls)" and "no_window_after l w0"
    and "\<forall>(k, t) \<in> set calls. w0 \<le> window_index l t"
  shows "int (admitted_in l key w calls) =
    min (rl_max_requests l - count_for l key w) (int (asked_in l key w calls))"
  using assms
proof (induction calls arbitrary: l w0)
  case Nil
  then show ?case
    using counters_ok_count[of l key w] by (simp add: admitted_in_def asked_in_def)
next
  case (Cons call calls)
  obtain k t where c: "call = (k, t)" by (cases call)
  let ?l = "fst (rate_allow l k (Some t) 0)" and ?w = "window_index l t"
  have later: "\<forall>(k', t') \<in> set calls. ?w \<le> window_index l t'"
    using Cons.prems(3,4) by (auto simp: c intro!: window_index_mono)
  have IH: "int (admitted_in ?l key w calls) =
      min (rl_max_requests l - count_for ?l key w) (int (asked_in l key w calls))"
    using Cons.IH[of ?l ?w] Cons.prems later no_window_after_allow[of l w0 t k 0]
    by (simp add: rate_allow_counters_ok c)
  have past: "w < ?w \<Longrightarrow> asked_in l key w calls = 0"
    using asked_in_past[OF Cons.prems(3) later] by blast
  have future: "?w < w \<Longrightarrow> count_for l key w = 0"
    using count_for_future[OF Cons.prems(5)] Cons.prems(6) by (force simp: c)
  have room: "count_for l key w \<le> rl_max_requests l"
    using counters_ok_count[OF Cons.prems(1,2)] by blast
  show ?case
    using IH past future room counters_ok_count[OF Cons.prems(1,2), of k ?w] Cons.prems(2)
    unfolding c admitted_in_Cons asked_in_Cons count_for_after
    by (cases "w = ?w"; cases "w < ?w") (auto split: if_splits)
qed

text \<open>
  C28. The quota of a window: for calls at non-decreasing times on a fresh
  limiter, a subject is admitted in each window exactly as often as it asked,
  up to \<open>max_requests\<close>, and never more often, whatever other subjects and other
  windows do in between.
\<close>

theorem rate_limiter_window_quota:
  assumes "rate_limiter_init m s = Inr l" and "sorted (map snd calls)"
  shows "int (admitted_in l key w calls) = min m (int (asked_in l key w calls))"
proof (cases calls)
  case Nil
  with assms(1) show ?thesis
    by (auto simp: rate_limiter_init_def admitted_in_def asked_in_def split: if_splits)
next
  case (Cons call rest)
  from assms(1) have l: "l = \<lparr>rl_max_requests = m, rl_window_seconds = s, rl_counters = []\<rparr>"
    and m: "1 \<le> m" "0 < s" by (auto simp: rate_limiter_init_def split: if_splits)
  then have "\<forall>(k, t) \<in> set calls. window_index l (snd call) \<le> window_index l t"
    using assms(2) by (auto simp: Cons intro!: window_index_mono)
  from admitted_room[OF _ _ _ assms(2) _ this, of key w] m show ?thesis
    by (simp add: l counters_ok_def no_window_after_def count_for_def)
qed

theorem rate_limiter_window_quota_witness:
  "\<exists>l. rate_limiter_init 1 2 = Inr l \<and>
     int (admitted_in l ''a'' 0 [(''a'', 0), (''b'', 0), (''a'', 1)]) =
       min 1 (int (asked_in l ''a'' 0 [(''a'', 0), (''b'', 0), (''a'', 1)]))"
  using rate_limiter_window_quota[of 1 2 _ "[(''a'', 0), (''b'', 0), (''a'', 1)]" "''a''" 0]
  by (auto simp: rate_limiter_init_def)

text \<open>
  The controller admits exactly when all three guards do, tests them in the
  documented order, and reports the first that refuses; the only state it
  changes is the rate limiter's, which is charged for a request that load
  shedding or backpressure then refuses.
\<close>

theorem admission_check_order:
  "case admission_check ac key i q clock of (ac', r) \<Rightarrow>
     ac' = ac\<lparr>ac_rate_limiter := fst (rate_allow (ac_rate_limiter ac) key None clock)\<rparr> \<and>
     r = (if \<not> rl_allowed (rate_decision_for (ac_rate_limiter ac) key None clock)
          then raise RateLimitExceededError ''rate limit exceeded''
          else if i < 0 then raise ValueError ''in_flight must be >= 0''
          else if max_in_flight (ac_load_shedding ac) \<le> i
          then raise LoadShedError ''in_flight_limit_exceeded''
          else if q < 0 then raise ValueError ''queue_depth must be >= 0''
          else if max_queue_depth (ac_backpressure ac) \<le> q
          then raise BackpressureExceededError ''queue_depth_limit_exceeded''
          else Inr \<lparr>snap_source_key = key, snap_in_flight = i, snap_queue_depth = q\<rparr>)"
  by (simp add: admission_check_def rate_allow_def rate_decision_for_def Let_def
      load_shedding_enforce_def load_shedding_decision_for_def
      backpressure_enforce_def backpressure_decision_for_def)

end
