(* ===== verification/Circuit_Breaker.thy ===== *)
theory Circuit_Breaker
  imports Exceptions Py_Float
begin

text \<open>
  The circuit breaker, \<open>resilience/circuit_breaker.py\<close>: its three states, the
  admission test before a call, the two outcomes, and \<open>run\<close>, which brackets an
  awaited call. The class's documentation is the abstract machine \<open>breaker_spec\<close>,
  and the code's breaker is proved to implement it.
\<close>

datatype breaker_mode = Closed | Open | HalfOpen

record circuit_breaker =
  cb_failure_threshold :: int
  cb_recovery_timeout :: pyfloat
  cb_state :: breaker_mode
  cb_failure_count :: int
  cb_opened_at :: "pyfloat option"

definition breaker_init :: "int \<Rightarrow> pyfloat \<Rightarrow> circuit_breaker res" where
  "breaker_init failure_threshold recovery_timeout_seconds =
     (if failure_threshold < 1 then raise ValueError ''failure_threshold must be >= 1''
      else if recovery_timeout_seconds \<le> 0
      then raise ValueError ''recovery_timeout_seconds must be > 0''
      else Inr \<lparr>cb_failure_threshold = failure_threshold,
                cb_recovery_timeout = recovery_timeout_seconds,
                cb_state = Closed, cb_failure_count = 0, cb_opened_at = None\<rparr>)"

definition before_call ::
  "circuit_breaker \<Rightarrow> pyfloat option \<Rightarrow> pyfloat \<Rightarrow> circuit_breaker \<times> unit res" where
  "before_call b now clock =
     (let current = opt_or now clock
      in if cb_state b = Open then
           (case cb_opened_at b of
              None \<Rightarrow> (b, raise AssertionError [])
            | Some t \<Rightarrow>
                (let elapsed = fsub current t
                 in if cb_recovery_timeout b \<le> elapsed then (b\<lparr>cb_state := HalfOpen\<rparr>, Inr ())
                    else (b, raise CircuitBreakerOpenError ''circuit breaker is open'')))
         else (b, Inr ()))"

record breaker_status =
  bs_state :: breaker_mode
  bs_failure_count :: int
  bs_opened_at :: "pyfloat option"

definition breaker_snapshot :: "circuit_breaker \<Rightarrow> breaker_status" where
  "breaker_snapshot b =
     \<lparr>bs_state = cb_state b, bs_failure_count = cb_failure_count b, bs_opened_at = cb_opened_at b\<rparr>"

definition record_success :: "circuit_breaker \<Rightarrow> circuit_breaker" where
  "record_success b = b\<lparr>cb_state := Closed, cb_failure_count := 0, cb_opened_at := None\<rparr>"

definition trip_open :: "circuit_breaker \<Rightarrow> pyfloat \<Rightarrow> circuit_breaker" where
  "trip_open b now = b\<lparr>cb_state := Open, cb_opened_at := Some now\<rparr>"

definition record_failure :: "circuit_breaker \<Rightarrow> pyfloat option \<Rightarrow> pyfloat \<Rightarrow> circuit_breaker" where
  "record_failure b now clock =
     (let current = opt_or now clock
      in if cb_state b = HalfOpen then trip_open b current
         else
           (let b' = b\<lparr>cb_failure_count := cb_failure_count b + 1\<rparr>
            in if cb_failure_threshold b' \<le> cb_failure_count b' then trip_open b' current else b'))"

text \<open>
  \<open>run\<close>: the awaited call is a function of the breaker it starts with; it returns
  the breaker as the other tasks left it, the clock when it ended, and its outcome.
\<close>

definition breaker_run ::
  "circuit_breaker \<Rightarrow> pyfloat \<Rightarrow> (circuit_breaker \<Rightarrow> circuit_breaker \<times> pyfloat \<times> 'a res) \<Rightarrow>
     circuit_breaker \<times> 'a res" where
  "breaker_run b clock func =
     (case before_call b None clock of
        (b1, Inl e) \<Rightarrow> (b1, Inl e)
      | (b1, Inr _) \<Rightarrow>
          (case func b1 of
             (b2, clock2, Inl e) \<Rightarrow>
               (if is_exception e then (record_failure b2 None clock2, Inl e) else (b2, Inl e))
           | (b2, _, Inr a) \<Rightarrow> (record_success b2, Inr a)))"

section \<open>Events and the invariant\<close>

datatype breaker_event = Before pyfloat | Success | Failure pyfloat

fun breaker_step :: "circuit_breaker \<Rightarrow> breaker_event \<Rightarrow> circuit_breaker" where
  "breaker_step b (Before now) = fst (before_call b (Some now) 0)"
| "breaker_step b Success = record_success b"
| "breaker_step b (Failure now) = record_failure b (Some now) 0"

abbreviation breaker_steps :: "circuit_breaker \<Rightarrow> breaker_event list \<Rightarrow> circuit_breaker" where
  "breaker_steps \<equiv> foldl breaker_step"

definition breaker_inv :: "circuit_breaker \<Rightarrow> bool" where
  "breaker_inv b =
     (1 \<le> cb_failure_threshold b \<and> 0 \<le> cb_failure_count b \<and> 0 < cb_recovery_timeout b \<and>
      (if cb_state b = Closed
       then cb_opened_at b = None \<and> cb_failure_count b < cb_failure_threshold b
       else cb_opened_at b \<noteq> None \<and> cb_failure_threshold b \<le> cb_failure_count b))"

lemmas breaker_defs = before_call_def record_success_def record_failure_def trip_open_def Let_def

lemma breaker_init_inv [inv_intros]: "breaker_init n r = Inr b \<Longrightarrow> breaker_inv b"
  by (auto simp: breaker_init_def breaker_inv_def split: if_splits)

lemma before_call_inv [inv_intros]: "breaker_inv b \<Longrightarrow> breaker_inv (fst (before_call b now clock))"
  by (auto simp: breaker_inv_def breaker_defs split: option.splits if_splits)

lemma record_success_inv [inv_intros]: "breaker_inv b \<Longrightarrow> breaker_inv (record_success b)"
  by (auto simp: breaker_inv_def breaker_defs)

lemma record_failure_inv [inv_intros]: "breaker_inv b \<Longrightarrow> breaker_inv (record_failure b now clock)"
  by (auto simp: breaker_inv_def breaker_defs split: if_splits)

lemma breaker_step_inv [inv_intros]: "breaker_inv b \<Longrightarrow> breaker_inv (breaker_step b e)"
  by (cases e) (auto intro: inv_intros)

lemma breaker_steps_inv [inv_intros]: "breaker_inv b \<Longrightarrow> breaker_inv (breaker_steps b es)"
  by (induction es arbitrary: b) (auto intro: inv_intros)

text \<open>A snapshot tells when the breaker opened exactly while it is not closed.\<close>

lemma breaker_snapshot_opened:
  "breaker_inv b \<Longrightarrow> bs_opened_at (breaker_snapshot b) = None \<longleftrightarrow> bs_state (breaker_snapshot b) = Closed"
  by (auto simp: breaker_inv_def breaker_snapshot_def split: if_splits)

lemma breaker_step_params [simp]:
  "cb_failure_threshold (breaker_step b e) = cb_failure_threshold b"
  "cb_recovery_timeout (breaker_step b e) = cb_recovery_timeout b"
  by (cases e; auto simp: breaker_defs split: option.splits)+

lemma breaker_steps_recovery [simp]: "cb_recovery_timeout (breaker_steps b es) = cb_recovery_timeout b"
proof (induction es arbitrary: b)
  case (Cons e es)
  from Cons.IH[of "breaker_step b e"] show ?case by (simp del: breaker_step.simps)
qed simp

section \<open>The documented machine\<close>

datatype breaker_spec = SClosed nat | SOpen pyfloat | SHalfOpen

text \<open>
  Failures accumulate while closed; reaching the threshold opens the breaker; once
  the recovery timeout has passed the next call half-opens it; then one success
  closes it and one failure opens it again. A failure that is recorded while the
  breaker is open (of a call admitted earlier) restarts the recovery period.
\<close>

fun spec_step :: "nat \<Rightarrow> pyfloat \<Rightarrow> breaker_spec \<Rightarrow> breaker_event \<Rightarrow> breaker_spec" where
  "spec_step n r (SClosed k) (Failure now) = (if n \<le> Suc k then SOpen now else SClosed (Suc k))"
| "spec_step n r (SOpen t) (Failure now) = SOpen now"
| "spec_step n r SHalfOpen (Failure now) = SOpen now"
| "spec_step n r s Success = SClosed 0"
| "spec_step n r (SOpen t) (Before now) = (if r \<le> fsub now t then SHalfOpen else SOpen t)"
| "spec_step n r s (Before now) = s"

fun spec_admits :: "pyfloat \<Rightarrow> breaker_spec \<Rightarrow> pyfloat \<Rightarrow> bool" where
  "spec_admits r (SOpen t) now = (r \<le> fsub now t)"
| "spec_admits r s now = True"

definition breaker_abs :: "circuit_breaker \<Rightarrow> breaker_spec" where
  "breaker_abs b =
     (case cb_state b of
        Closed \<Rightarrow> SClosed (nat (cb_failure_count b))
      | Open \<Rightarrow> SOpen (opt_or (cb_opened_at b) 0)
      | HalfOpen \<Rightarrow> SHalfOpen)"

lemma breaker_abs_step:
  assumes "breaker_inv b"
  shows "breaker_abs (breaker_step b e) =
    spec_step (nat (cb_failure_threshold b)) (cb_recovery_timeout b) (breaker_abs b) e"
  using assms
  by (cases e; cases "cb_state b")
    (auto simp: breaker_inv_def breaker_abs_def breaker_defs nat_add_distrib nat_le_iff)

lemma breaker_abs_steps:
  "breaker_inv b \<Longrightarrow> breaker_abs (breaker_steps b es) =
     foldl (spec_step (nat (cb_failure_threshold b)) (cb_recovery_timeout b)) (breaker_abs b) es"
  by (induction es arbitrary: b) (simp_all add: breaker_abs_step breaker_step_inv)

lemma before_call_verdict:
  assumes "breaker_inv b"
  shows "snd (before_call b (Some now) clock) =
    (if spec_admits (cb_recovery_timeout b) (breaker_abs b) now then Inr ()
     else raise CircuitBreakerOpenError ''circuit breaker is open'')"
  using assms by (cases "cb_state b") (auto simp: breaker_inv_def breaker_abs_def breaker_defs)

text \<open>
  C15. The breaker implements its documented machine: after any history of calls,
  successes and failures it is in the state the documentation prescribes, and the
  next call is refused, with \<open>CircuitBreakerOpenError\<close> and nothing else, exactly
  when the documented machine refuses it. The assertion on \<open>_opened_at\<close> never fires.
\<close>

theorem breaker_refines_documentation:
  assumes "breaker_init n r = Inr b"
  shows "breaker_abs (breaker_steps b es) = foldl (spec_step (nat n) r) (SClosed 0) es \<and>
    snd (before_call (breaker_steps b es) (Some now) clock) =
      (if spec_admits r (foldl (spec_step (nat n) r) (SClosed 0) es) now then Inr ()
       else raise CircuitBreakerOpenError ''circuit breaker is open'')"
proof -
  have b: "breaker_inv b" by (rule breaker_init_inv[OF assms])
  have sel: "cb_failure_threshold b = n" "cb_recovery_timeout b = r" "breaker_abs b = SClosed 0"
    using assms by (auto simp: breaker_init_def breaker_abs_def split: if_splits)
  have rec: "cb_recovery_timeout (breaker_steps b es) = r" using sel(2) by simp
  have abs: "breaker_abs (breaker_steps b es) = foldl (spec_step (nat n) r) (SClosed 0) es"
    using breaker_abs_steps[OF b, of es] by (simp add: sel)
  show ?thesis
    using before_call_verdict[OF breaker_steps_inv[OF b], of es now clock] abs rec by simp
qed

theorem breaker_refines_documentation_witness:
  "\<exists>b. breaker_init 2 30 = Inr b \<and>
     breaker_abs (breaker_steps b [Failure 1, Failure 2]) = SOpen 2"
  using breaker_refines_documentation[of 2 30 _ "[Failure 1, Failure 2]" 3 0]
  by (auto simp: breaker_init_def)

lemma spec_failures:
  "1 \<le> n \<Longrightarrow> foldl (spec_step n r) (SClosed k) (map Failure ts) =
     (if k < n \<and> k + length ts < n then SClosed (k + length ts)
      else if ts = [] then SClosed k else SOpen (last ts))"
proof (induction ts arbitrary: k)
  case Nil
  then show ?case by simp
next
  case (Cons t ts)
  have open_run: "foldl (spec_step n r) (SOpen u) (map Failure us) = SOpen (last (u # us))" for u us
    by (induction us arbitrary: u) auto
  show ?case using Cons by (auto simp: open_run)
qed

text \<open>
  Opening and shielding: a breaker that sees no success opens with the
  \<open>failure_threshold\<close>-th failure, not before, and from then on refuses every call
  until \<open>recovery_timeout_seconds\<close> have passed since the last recorded failure.
\<close>

theorem breaker_opens_and_shields:
  assumes "breaker_init n r = Inr b"
  shows "(cb_state (breaker_steps b (map Failure ts)) = Open \<longleftrightarrow> n \<le> int (length ts)) \<and>
    (n \<le> int (length ts) \<and> fsub now (last ts) < r \<longrightarrow>
       before_call (breaker_steps b (map Failure ts)) (Some now) clock =
         (breaker_steps b (map Failure ts),
          raise CircuitBreakerOpenError ''circuit breaker is open''))"
proof -
  have n: "1 \<le> n" and inv: "breaker_inv b" and sel: "cb_failure_threshold b = n"
      "cb_recovery_timeout b = r" "breaker_abs b = SClosed 0"
    using assms breaker_init_inv[OF assms]
    by (auto simp: breaker_init_def breaker_abs_def split: if_splits)
  let ?b = "breaker_steps b (map Failure ts)"
  have rec: "cb_recovery_timeout ?b = r" using sel(2) by simp
  have abs: "breaker_abs ?b = (if length ts < nat n then SClosed (length ts) else SOpen (last ts))"
    using breaker_abs_steps[OF inv, of "map Failure ts"] spec_failures[of "nat n" r 0 ts] n
    by (auto simp: sel)
  have st: "cb_state ?b = Open \<longleftrightarrow> n \<le> int (length ts)"
    using abs n by (cases "cb_state ?b") (auto simp: breaker_abs_def split: if_splits)
  moreover have "cb_opened_at ?b = Some (last ts)" if "n \<le> int (length ts)"
    using abs that breaker_steps_inv[OF inv, of "map Failure ts"] st
    by (auto simp: breaker_abs_def breaker_inv_def split: if_splits)
  ultimately show ?thesis using rec by (auto simp: before_call_def Let_def)
qed

theorem breaker_opens_and_shields_witness:
  "\<exists>b. breaker_init 1 30 = Inr b \<and>
     cb_state (breaker_steps b (map Failure [5])) = Open"
  using breaker_opens_and_shields[of 1 30 _ "[5]" 6 0]
  by (auto simp: breaker_init_def)

end
