(* ===== verification/Expiring_Store.thy ===== *)
theory Expiring_Store
  imports Prelude
begin

text \<open>
  The interface of a store whose entries expire, which the idempotency store and
  the replay guard share: \<open>view\<close> is what a lookup at a time would answer, \<open>put\<close>
  stores, \<open>touch\<close> is the clean-up that a lookup or a prune does on the way. The
  laws are the provider's promises for times that do not run backwards; the
  lemma is what a client concludes about any history of operations.
\<close>

datatype ('k, 'v, 't) store_op = Put 'k 'v 't | Touch 'k 't

fun op_time :: "('k, 'v, 't) store_op \<Rightarrow> 't" where
  "op_time (Put k v t) = t"
| "op_time (Touch k t) = t"

text \<open>The value and time of the last \<open>Put\<close> of a key.\<close>

fun last_put :: "('k, 'v, 't) store_op list \<Rightarrow> 'k \<Rightarrow> ('v \<times> 't) option" where
  "last_put [] k = None"
| "last_put (Put k' v t # ops) k =
     (case last_put ops k of
        Some r \<Rightarrow> Some r
      | None \<Rightarrow> if k' = k then Some (v, t) else None)"
| "last_put (Touch k' t # ops) k = last_put ops k"

locale expiring_store =
  fixes view :: "'s \<Rightarrow> 'k \<Rightarrow> 't::linorder \<Rightarrow> 'v option"
    and put :: "'s \<Rightarrow> 'k \<Rightarrow> 'v \<Rightarrow> 't \<Rightarrow> 's"
    and touch :: "'s \<Rightarrow> 'k \<Rightarrow> 't \<Rightarrow> 's"
    and live :: "'t \<Rightarrow> 't \<Rightarrow> bool"
    and inv :: "'s \<Rightarrow> bool"
  assumes inv_put: "inv s \<Longrightarrow> inv (put s k v t)"
    and inv_touch: "inv s \<Longrightarrow> inv (touch s k t)"
    and view_put: "inv s \<Longrightarrow> t \<le> now \<Longrightarrow>
      view (put s k v t) k' now =
        (if k' = k then (if live t now then Some v else None) else view s k' now)"
    and view_touch: "inv s \<Longrightarrow> t \<le> now \<Longrightarrow> view (touch s k t) k' now = view s k' now"
begin

fun apply_op :: "'s \<Rightarrow> ('k, 'v, 't) store_op \<Rightarrow> 's" where
  "apply_op s (Put k v t) = put s k v t"
| "apply_op s (Touch k t) = touch s k t"

lemma inv_run: "inv s \<Longrightarrow> inv (foldl apply_op s ops)"
proof (induction ops arbitrary: s)
  case (Cons x ops)
  then show ?case by (cases x) (simp_all add: inv_put inv_touch)
qed simp

text \<open>The last value put is what is seen until it expires; everything else is as it was.\<close>

lemma view_run:
  assumes "inv s" and "\<forall>x \<in> set ops. op_time x \<le> now"
  shows "view (foldl apply_op s ops) k now =
    (case last_put ops k of
       Some (v, t) \<Rightarrow> if live t now then Some v else None
     | None \<Rightarrow> view s k now)"
  using assms
proof (induction ops arbitrary: s)
  case (Cons x ops)
  then show ?case
    by (cases x) (auto simp: inv_put inv_touch view_put view_touch split: option.splits)
qed simp

end

end
