(* ===== verification/Caches.thy ===== *)
theory Caches
  imports Packet Expiring_Store
begin

text \<open>
  Gate's process-local memories: the idempotency store with its namespaced keys
  (\<open>resilience/idempotency.py\<close>), the replay guard (\<open>replay_guard.py\<close>) and the
  dead-letter queue (\<open>dead_letter_queue.py\<close>). The store's clock counts seconds in
  floats; the guard's clock is a wall clock in microseconds, the resolution of
  \<open>datetime\<close>.
\<close>

section \<open>Idempotency\<close>

definition unit_sep :: char where
  "unit_sep = CHR 0x1F"

definition idempotency_namespace_key :: "packet \<Rightarrow> string option" where
  "idempotency_namespace_key p =
     (case idempotency_key (header p) of
        None \<Rightarrow> None
      | Some raw \<Rightarrow>
          if raw = [] \<or> strip raw = [] then None
          else
            (let tenant = canon (org_id (tenant p)); act = canon (action (header p))
             in Some ((''tenant:'' @ tenant) @ [unit_sep] @ (''action:'' @ act) @ [unit_sep] @
                      (''key:'' @ strip raw))))"

record idempotency_store =
  idem_ttl :: pyfloat
  idem_store :: "(string \<times> (pyfloat \<times> pyval)) list"

definition idempotency_init :: "pyfloat \<Rightarrow> idempotency_store res" where
  "idempotency_init ttl_seconds =
     (if ttl_seconds \<le> 0 then raise ValueError ''ttl_seconds must be > 0''
      else Inr \<lparr>idem_ttl = ttl_seconds, idem_store = []\<rparr>)"

definition idem_live :: "idempotency_store \<Rightarrow> string \<Rightarrow> pyfloat \<Rightarrow> idempotency_store \<times> pyval option" where
  "idem_live s key now =
     (case dget (idem_store s) key of
        None \<Rightarrow> (s, None)
      | Some (stored_at, value) \<Rightarrow>
          if idem_ttl s \<le> fsub now stored_at
          then (s\<lparr>idem_store := AList.delete key (idem_store s)\<rparr>, None)
          else (s, Some value))"

definition idem_get :: "idempotency_store \<Rightarrow> string \<Rightarrow> pyfloat \<Rightarrow> idempotency_store \<times> pyval option" where
  "idem_get s key now = idem_live s key now"

definition idem_set :: "idempotency_store \<Rightarrow> string \<Rightarrow> pyval \<Rightarrow> pyfloat \<Rightarrow> idempotency_store" where
  "idem_set s key value now = s\<lparr>idem_store := dset (idem_store s) key (now, value)\<rparr>"

definition idem_exists :: "idempotency_store \<Rightarrow> string \<Rightarrow> pyfloat \<Rightarrow> idempotency_store \<times> bool" where
  "idem_exists s key now = (let (s', v) = idem_live s key now in (s', v \<noteq> None))"

definition get_for_packet ::
  "idempotency_store \<Rightarrow> packet \<Rightarrow> pyfloat \<Rightarrow> idempotency_store \<times> pyval option" where
  "get_for_packet s p now =
     (case idempotency_namespace_key p of None \<Rightarrow> (s, None) | Some key \<Rightarrow> idem_live s key now)"

definition set_for_packet ::
  "idempotency_store \<Rightarrow> packet \<Rightarrow> pyval \<Rightarrow> pyfloat \<Rightarrow> idempotency_store \<times> bool" where
  "set_for_packet s p value now =
     (case idempotency_namespace_key p of
        None \<Rightarrow> (s, False)
      | Some key \<Rightarrow> (idem_set s key value now, True))"

definition idem_len :: "idempotency_store \<Rightarrow> nat" where
  "idem_len s = length (idem_store s)"

definition enforce_idempotency ::
  "packet \<Rightarrow> idempotency_store \<Rightarrow> pyfloat \<Rightarrow> idempotency_store \<times> pyval option" where
  "enforce_idempotency p s now = get_for_packet s p now"

section \<open>The replay guard\<close>

record replay_guard =
  rg_window :: int
  rg_seen :: "(string \<times> int) list"

definition replay_guard_init :: "int \<Rightarrow> replay_guard res" where
  "replay_guard_init window_seconds =
     (if window_seconds \<le> 0 then raise ValueError ''window_seconds must be > 0''
      else Inr \<lparr>rg_window = window_seconds * 1000000, rg_seen = []\<rparr>)"

definition rg_expire :: "replay_guard \<Rightarrow> int \<Rightarrow> replay_guard" where
  "rg_expire g now =
     (let expired = [k. (k, seen_at) \<leftarrow> rg_seen g, now - seen_at > rg_window g]
      in g\<lparr>rg_seen := fold AList.delete expired (rg_seen g)\<rparr>)"

definition check_and_record :: "replay_guard \<Rightarrow> string \<Rightarrow> int \<Rightarrow> replay_guard \<times> unit res" where
  "check_and_record g pid now =
     (let g' = rg_expire g now
      in case dget (rg_seen g') pid of
           Some seen_at \<Rightarrow>
             if now - seen_at \<le> rg_window g' then (g', raise ValueError ''replay detected'')
             else (g'\<lparr>rg_seen := dset (rg_seen g') pid now\<rparr>, Inr ())
         | None \<Rightarrow> (g'\<lparr>rg_seen := dset (rg_seen g') pid now\<rparr>, Inr ()))"

definition rg_prune :: "replay_guard \<Rightarrow> int \<Rightarrow> replay_guard" where
  "rg_prune g now = rg_expire g now"

definition rg_len :: "replay_guard \<Rightarrow> nat" where
  "rg_len g = length (rg_seen g)"

section \<open>The dead-letter queue\<close>

record dead_letter_entry =
  dle_packet_id :: string
  dle_action :: string
  dle_source_node :: string
  dle_destination_node :: string
  dle_error_type :: string
  dle_error_message :: string
  dle_failed_at :: int
  dle_packet :: pyval

record dead_letter_queue =
  dlq_entries :: "dead_letter_entry list"
  dlq_max_entries :: int

text \<open>\<open>while len(entries) > max_entries: entries.pop(0)\<close>; popping an empty list raises.\<close>

fun dlq_trim :: "int \<Rightarrow> 'a list \<Rightarrow> 'a list \<times> unit res" where
  "dlq_trim m [] = (if m < 0 then ([], raise IndexError ''pop from empty list'') else ([], Inr ()))"
| "dlq_trim m (x # xs) = (if m < int (length (x # xs)) then dlq_trim m xs else (x # xs, Inr ()))"

definition dlq_entry :: "sdk \<Rightarrow> packet \<Rightarrow> exn \<Rightarrow> int \<Rightarrow> dead_letter_entry" where
  "dlq_entry S p e now =
     \<lparr>dle_packet_id = packet_id (header p), dle_action = action (header p),
      dle_source_node = source_node (address p), dle_destination_node = destination_node (address p),
      dle_error_type = class_name (exn_class e), dle_error_message = exn_msg e,
      dle_failed_at = now, dle_packet = sdk_dump S p\<rparr>"

definition dlq_put ::
  "sdk \<Rightarrow> dead_letter_queue \<Rightarrow> packet \<Rightarrow> exn \<Rightarrow> int \<Rightarrow> dead_letter_queue \<times> dead_letter_entry res" where
  "dlq_put S q p e now =
     (let entry = dlq_entry S p e now
      in case dlq_trim (dlq_max_entries q) (dlq_entries q @ [entry]) of
           (es, r) \<Rightarrow> (q\<lparr>dlq_entries := es\<rparr>, rbind r (\<lambda>_. Inr entry)))"

definition dlq_size :: "dead_letter_queue \<Rightarrow> nat" where
  "dlq_size q = length (dlq_entries q)"

definition dlq_latest :: "dead_letter_queue \<Rightarrow> dead_letter_entry option" where
  "dlq_latest q = (if dlq_entries q = [] then None else Some (last (dlq_entries q)))"

definition dlq_clear :: "dead_letter_queue \<Rightarrow> dead_letter_queue" where
  "dlq_clear q = q\<lparr>dlq_entries := []\<rparr>"

section \<open>Both stores as stores whose entries expire\<close>

definition idem_view :: "idempotency_store \<Rightarrow> string \<Rightarrow> pyfloat \<Rightarrow> pyval option" where
  "idem_view s key now = snd (idem_live s key now)"

lemma idem_view_iff:
  "idem_view s key now =
     (case dget (idem_store s) key of
        None \<Rightarrow> None
      | Some (t, v) \<Rightarrow> if idem_ttl s \<le> fsub now t then None else Some v)"
  by (auto simp: idem_view_def idem_live_def split: option.splits)

interpretation idem: expiring_store idem_view idem_set "\<lambda>s k t. fst (idem_live s k t)"
  "\<lambda>t now. \<not> ttl \<le> fsub now t" "\<lambda>s. idem_ttl s = ttl" for ttl
proof unfold_locales
  fix s :: idempotency_store and k k' :: string and t now :: pyfloat
  assume ttl: "idem_ttl s = ttl" and le: "t \<le> now"
  have "ttl \<le> fsub now u" if "ttl \<le> fsub t u" for u
    using that fsub_mono[OF le order_refl, of u] by (rule order_trans)
  then show "idem_view (fst (idem_live s k t)) k' now = idem_view s k' now"
    by (auto simp: idem_view_iff idem_live_def ttl AList.delete_conv' split: option.splits)
qed (auto simp: idem_view_iff idem_set_def idem_live_def split: option.splits)

definition rg_view :: "replay_guard \<Rightarrow> string \<Rightarrow> int \<Rightarrow> unit option" where
  "rg_view g k now =
     (case dget (rg_seen g) k of
        None \<Rightarrow> None
      | Some t \<Rightarrow> if now - t \<le> rg_window g then Some () else None)"

definition rg_record :: "replay_guard \<Rightarrow> string \<Rightarrow> unit \<Rightarrow> int \<Rightarrow> replay_guard" where
  "rg_record g k u now = (rg_expire g now)\<lparr>rg_seen := dset (rg_seen (rg_expire g now)) k now\<rparr>"

lemma dget_fold_delete: "dget (fold AList.delete ks d) k = (if k \<in> set ks then None else dget d k)"
  by (induction ks arbitrary: d) (auto simp: AList.delete_conv')

lemma dwf_fold_delete: "dwf d \<Longrightarrow> dwf (fold AList.delete ks d)"
  by (induction ks arbitrary: d) (auto simp: dwf_def AList.distinct_delete)

lemma rg_expire_sel [simp]: "rg_window (rg_expire g now) = rg_window g"
  by (simp add: rg_expire_def)

lemma dget_rg_expire:
  assumes "dwf (rg_seen g)"
  shows "dget (rg_seen (rg_expire g now)) k =
     (case dget (rg_seen g) k of
        None \<Rightarrow> None
      | Some t \<Rightarrow> if now - t \<le> rg_window g then Some t else None)"
proof -
  have "k \<in> set [k. (k, t) \<leftarrow> rg_seen g, now - t > rg_window g] \<longleftrightarrow>
      (\<exists>t. dget (rg_seen g) k = Some t \<and> now - t > rg_window g)"
    using dget_in_set[OF assms] by auto
  then show ?thesis
    by (auto simp: rg_expire_def dget_fold_delete split: option.splits)
qed

lemma dwf_rg_expire [simp]: "dwf (rg_seen g) \<Longrightarrow> dwf (rg_seen (rg_expire g now))"
  by (simp add: rg_expire_def dwf_fold_delete)

interpretation guard: expiring_store rg_view rg_record "\<lambda>g k t. rg_expire g t"
  "\<lambda>t now. now - t \<le> w" "\<lambda>g. rg_window g = w \<and> dwf (rg_seen g)" for w
proof unfold_locales
qed (auto simp: rg_view_def rg_record_def dget_rg_expire split: option.splits)

lemma check_and_record_step:
  assumes "dwf (rg_seen g)"
  shows "check_and_record g pid now =
     (case rg_view g pid now of
        Some _ \<Rightarrow> (rg_expire g now, raise ValueError ''replay detected'')
      | None \<Rightarrow> (rg_record g pid () now, Inr ()))"
  using assms
  by (auto simp: check_and_record_def Let_def rg_view_def rg_record_def dget_rg_expire
      split: option.splits)

section \<open>What the idempotency store answers\<close>

text \<open>The identity the cache is meant to key on: tenant, action and raw key, normalised.\<close>

definition cache_identity :: "packet \<Rightarrow> (string \<times> string \<times> string) option" where
  "cache_identity p =
     (case idempotency_key (header p) of
        None \<Rightarrow> None
      | Some raw \<Rightarrow>
          if strip raw = [] then None
          else Some (canon (org_id (tenant p)), canon (action (header p)), strip raw))"

text \<open>No separator inside the tenant or the action.\<close>

definition separable :: "packet \<Rightarrow> bool" where
  "separable p = (unit_sep \<notin> set (org_id (tenant p)) \<and> unit_sep \<notin> set (action (header p)))"

datatype cache_event = Stored packet pyval pyfloat | Looked_up packet pyfloat

fun event_packet :: "cache_event \<Rightarrow> packet" where
  "event_packet (Stored p v t) = p"
| "event_packet (Looked_up p t) = p"

fun event_time :: "cache_event \<Rightarrow> pyfloat" where
  "event_time (Stored p v t) = t"
| "event_time (Looked_up p t) = t"

fun cache_apply :: "idempotency_store \<Rightarrow> cache_event \<Rightarrow> idempotency_store" where
  "cache_apply s (Stored p v t) = fst (set_for_packet s p v t)"
| "cache_apply s (Looked_up p t) = fst (enforce_idempotency p s t)"

text \<open>The last answer stored for an identity, with its time.\<close>

fun last_answer ::
  "cache_event list \<Rightarrow> (string \<times> string \<times> string) option \<Rightarrow> (pyval \<times> pyfloat) option" where
  "last_answer [] i = None"
| "last_answer (Stored p v t # es) i =
     (case last_answer es i of
        Some r \<Rightarrow> Some r
      | None \<Rightarrow> if i \<noteq> None \<and> cache_identity p = i then Some (v, t) else None)"
| "last_answer (Looked_up p t # es) i = last_answer es i"

fun event_ops :: "cache_event \<Rightarrow> (string, pyval, pyfloat) store_op list" where
  "event_ops (Stored p v t) =
     (case idempotency_namespace_key p of None \<Rightarrow> [] | Some k \<Rightarrow> [Put k v t])"
| "event_ops (Looked_up p t) =
     (case idempotency_namespace_key p of None \<Rightarrow> [] | Some k \<Rightarrow> [Touch k t])"

lemma sep_split:
  "c \<notin> set xs \<Longrightarrow> c \<notin> set ys \<Longrightarrow> xs @ c # us = ys @ c # vs \<longleftrightarrow> xs = ys \<and> us = vs"
proof (induction xs arbitrary: ys)
  case Nil
  then show ?case by (cases ys) auto
next
  case (Cons x xs)
  then show ?case by (cases ys) auto
qed

lemma strip_Nil [simp]: "strip [] = []"
  by (simp add: strip_def strip_with_def)

lemma unit_sep_lower_char: "lower_char c = unit_sep \<longleftrightarrow> c = unit_sep"
proof -
  obtain n :: nat where n: "n < 256" "c = char_of n" by (rule char_code_cases)
  have u: "unit_sep = char_of (31 :: nat)" by code_simp
  have inj: "char_of a = (char_of b :: char) \<longleftrightarrow> a = b" if "a < 256" "b < 256" for a b :: nat
    using that by (metis of_char_of_small)
  show ?thesis
    unfolding u n(2) lower_char_char_of[OF n(1)] using n(1) by (auto simp: inj simp del: char_of_nat)
qed

lemma unit_sep_canon: "unit_sep \<in> set (canon s) \<Longrightarrow> unit_sep \<in> set s"
proof -
  assume "unit_sep \<in> set (canon s)"
  then obtain c where "c \<in> set (strip s)" and "lower_char c = unit_sep"
    by (auto simp: canon_def lower_def)
  with set_strip[of s] show ?thesis by (auto simp: unit_sep_lower_char)
qed

lemma namespace_key_None: "idempotency_namespace_key p = None \<longleftrightarrow> cache_identity p = None"
  by (auto simp: idempotency_namespace_key_def cache_identity_def Let_def
      split: option.splits)

lemma namespace_key_eq:
  assumes "separable p" and "separable q"
  shows "idempotency_namespace_key p = idempotency_namespace_key q \<longleftrightarrow> cache_identity p = cache_identity q"
proof (cases "cache_identity p = None \<or> cache_identity q = None")
  case True
  then show ?thesis by (metis namespace_key_None)
next
  case False
  have sep: "unit_sep \<notin> set (''tenant:'' @ canon (org_id (tenant p)))"
    "unit_sep \<notin> set (''action:'' @ canon (action (header p)))" if "separable p" for p
    using that unit_sep_canon by (auto simp: separable_def unit_sep_def)
  from False show ?thesis
    using sep_split[OF sep(1)[OF assms(1)] sep(1)[OF assms(2)]]
      sep_split[OF sep(2)[OF assms(1)] sep(2)[OF assms(2)]]
    by (auto simp: idempotency_namespace_key_def cache_identity_def Let_def split: option.splits
        if_splits)
qed

lemma cache_apply_ops:
  "cache_apply s e = foldl (\<lambda>s x. expiring_store.apply_op idem_set (\<lambda>s k t. fst (idem_live s k t)) s x)
     s (event_ops e)"
  by (cases e)
    (auto simp: set_for_packet_def enforce_idempotency_def get_for_packet_def idem.apply_op.simps
      split: option.splits)

lemma cache_run_ops:
  "foldl cache_apply s es =
     foldl (expiring_store.apply_op idem_set (\<lambda>s k t. fst (idem_live s k t))) s (concat (map event_ops es))"
  by (induction es arbitrary: s) (simp_all add: cache_apply_ops)

lemma op_time_event: "x \<in> set (event_ops e) \<Longrightarrow> op_time x = event_time e"
  by (cases e) (auto split: option.splits)

lemma last_put_answer:
  assumes "\<forall>e \<in> set es. separable (event_packet e)" and "separable p"
    and "idempotency_namespace_key p = Some k"
  shows "last_put (concat (map event_ops es)) k = last_answer es (cache_identity p)"
  using assms(1)
proof (induction es)
  case (Cons e es)
  then have "separable (event_packet e)" by simp
  note eq = namespace_key_eq[OF this assms(2)]
  have "cache_identity p \<noteq> None" using assms(3) by (simp flip: namespace_key_None)
  with Cons assms(3) eq show ?case
    by (cases e) (auto simp: namespace_key_None split: option.splits)
qed simp


definition tenant_packet :: "string \<Rightarrow> packet" where
  "tenant_packet org =
     (let p = example_packet ''enrich''
      in p\<lparr>header := (header p)\<lparr>idempotency_key := Some ''order-1''\<rparr>,
           tenant := (tenant p)\<lparr>org_id := org\<rparr>\<rparr>)"


definition keyed_packet :: "string \<Rightarrow> string \<Rightarrow> packet" where
  "keyed_packet org k =
     (let p = tenant_packet org in p\<lparr>header := (header p)\<lparr>idempotency_key := Some k\<rparr>\<rparr>)"

text \<open>
  The separator only keeps names apart that do not hold it. Two tenants that ask
  for the same action can share one key, because the tenant and the raw key are
  stripped at their ends only: the answer stored for the first is served to the
  second.
\<close>

theorem namespace_keys_can_collide:
  "\<exists>p q s. action (header p) = action (header q)
     \<and> canon (org_id (tenant p)) \<noteq> canon (org_id (tenant q))
     \<and> idempotency_init 10 = Inr s
     \<and> snd (enforce_idempotency q s 1) = None
     \<and> snd (enforce_idempotency q (fst (set_for_packet s p (PyStr ''secret of p'') 0)) 1)
         = Some (PyStr ''secret of p'')"
proof -
  let ?u = "[unit_sep]"
  define p where "p = keyed_packet (''acme'' @ ?u @ ''action:enrich'' @ ?u @ ''key:x'') ''k''"
  define q where "q = keyed_packet ''acme'' (''x'' @ ?u @ ''action:enrich'' @ ?u @ ''key:k'')"
  define s where "s = \<lparr>idem_ttl = 10, idem_store = []\<rparr>"
  note defs = p_def q_def s_def
  have "action (header p) = action (header q)" unfolding defs by code_simp
  moreover have "canon (org_id (tenant p)) \<noteq> canon (org_id (tenant q))" unfolding defs by code_simp
  moreover have "idempotency_init 10 = Inr s" unfolding defs by (simp add: idempotency_init_def)
  moreover have "snd (enforce_idempotency q s 1) = None" unfolding defs by code_simp
  moreover have "snd (enforce_idempotency q (fst (set_for_packet s p (PyStr ''secret of p'') 0)) 1)
      = Some (PyStr ''secret of p'')" unfolding defs by code_simp
  ultimately show ?thesis by blast
qed

section \<open>What the replay guard accepts\<close>

text \<open>A history of packet ids with their times; the ids that were accepted, oldest first.\<close>

fun rg_run :: "replay_guard \<Rightarrow> (string \<times> int) list \<Rightarrow> replay_guard \<times> (string \<times> int) list" where
  "rg_run g [] = (g, [])"
| "rg_run g ((pid, now) # calls) =
     (case check_and_record g pid now of
        (g', Inr u) \<Rightarrow> (case rg_run g' calls of (g'', acc) \<Rightarrow> (g'', (pid, now) # acc))
      | (g', Inl e) \<Rightarrow> rg_run g' calls)"

lemma rg_view_expires: "rg_view g k t = None \<Longrightarrow> t \<le> now \<Longrightarrow> rg_view g k now = None"
  by (auto simp: rg_view_def split: option.splits if_splits)

lemma rg_run_view:
  assumes "rg_window g = w \<and> dwf (rg_seen g)" and "rg_run g calls = (g', acc)"
  shows "(rg_window g' = w \<and> dwf (rg_seen g')) \<and>
    (\<forall>k now. (\<forall>c \<in> set calls. snd c \<le> now) \<longrightarrow>
      (rg_view g' k now \<noteq> None \<longleftrightarrow>
        rg_view g k now \<noteq> None \<or> (\<exists>t. (k, t) \<in> set acc \<and> now - t \<le> w)))"
  using assms
proof (induction calls arbitrary: g acc)
  case (Cons c calls)
  obtain pid t where c: "c = (pid, t)" by (cases c)
  note step = check_and_record_step[OF conjunct2[OF Cons.prems(1)], of pid t]
  show ?case
  proof (cases "rg_view g pid t")
    case None
    with Cons.prems(2) step c obtain acc' where run: "rg_run (rg_record g pid () t) calls = (g', acc')"
      and acc: "acc = (pid, t) # acc'"
      by (auto split: prod.splits)
    have "rg_view (rg_record g pid () t) k now =
        (if k = pid then (if now - t \<le> w then Some () else None) else rg_view g k now)"
      if "t \<le> now" for k now
      using guard.view_put[OF Cons.prems(1) that, of pid "()" k] by simp
    moreover note Cons.IH[OF guard.inv_put[OF Cons.prems(1)] run]
    ultimately show ?thesis
      using None rg_view_expires[of g pid t] unfolding acc c by (auto split: if_splits)
  next
    case (Some u)
    with Cons.prems(2) step c have run: "rg_run (rg_expire g t) calls = (g', acc)" by simp
    have "rg_view (rg_expire g t) k now = rg_view g k now" if "t \<le> now" for k now
      using guard.view_touch[OF Cons.prems(1) that] .
    moreover note Cons.IH[OF guard.inv_touch[OF Cons.prems(1)] run]
    ultimately show ?thesis unfolding c by auto
  qed
qed simp

text \<open>
  C20. The replay guard is exact: after any history of checks, a packet id is refused
  as a replay when, and only when, it was accepted at most the window ago, and the
  guard's memory never holds more ids than were accepted within the window.
\<close>

theorem replay_guard_exact:
  assumes "replay_guard_init seconds = Inr g" and "rg_run g calls = (g', acc)"
    and "\<forall>c \<in> set calls. snd c \<le> now"
  shows "snd (check_and_record g' pid now) =
      (if \<exists>t. (pid, t) \<in> set acc \<and> now - t \<le> seconds * 1000000
       then raise ValueError ''replay detected'' else Inr ())
    \<and> rg_len (fst (check_and_record g' pid now)) \<le>
      card {k. \<exists>t. (k, t) \<in> insert (pid, now) (set acc) \<and> now - t \<le> seconds * 1000000}"
proof -
  let ?w = "seconds * 1000000"
  have g: "rg_window g = ?w \<and> dwf (rg_seen g)" "rg_seen g = []" and pos: "0 < seconds"
    using assms(1) by (auto simp: replay_guard_init_def split: if_splits)
  note run = rg_run_view[OF g(1) assms(2)]
  then have inv': "rg_window g' = ?w \<and> dwf (rg_seen g')" by blast
  note step = check_and_record_step[OF conjunct2[OF inv'], of pid now]
  have view: "rg_view g' k now \<noteq> None \<longleftrightarrow> (\<exists>t. (k, t) \<in> set acc \<and> now - t \<le> ?w)" for k
    using run assms(3) g(2) by (auto simp: rg_view_def)
  have "set (dkeys (rg_seen (rg_expire g' now))) \<subseteq> {k. rg_view g' k now \<noteq> None}"
  proof
    fix k assume "k \<in> set (dkeys (rg_seen (rg_expire g' now)))"
    then have "dget (rg_seen (rg_expire g' now)) k \<noteq> None" by (simp add: map_of_eq_None_iff)
    then show "k \<in> {k. rg_view g' k now \<noteq> None}"
      by (auto simp: dget_rg_expire[OF conjunct2[OF inv']] rg_view_def split: option.splits)
  qed
  moreover have "{k. rg_view g' k now \<noteq> None} \<subseteq> {k. \<exists>t. (k, t) \<in> insert (pid, now) (set acc) \<and> now - t \<le> ?w}"
    using view by blast
  moreover have "pid \<in> {k. \<exists>t. (k, t) \<in> insert (pid, now) (set acc) \<and> now - t \<le> ?w}"
    using pos by auto
  moreover have "set (dkeys (rg_seen (fst (check_and_record g' pid now)))) \<subseteq>
      insert pid (set (dkeys (rg_seen (rg_expire g' now))))"
    unfolding step rg_record_def by (auto simp: dkeys_dset simp del: set_map split: option.splits)
  ultimately have "set (dkeys (rg_seen (fst (check_and_record g' pid now)))) \<subseteq>
      {k. \<exists>t. (k, t) \<in> insert (pid, now) (set acc) \<and> now - t \<le> ?w}" (is "?K \<subseteq> ?S")
    by blast
  moreover have "?S \<subseteq> insert pid (fst ` set acc)" by force
  then have "finite ?S" by (rule finite_subset) simp
  moreover have "distinct (dkeys (rg_seen (fst (check_and_record g' pid now))))"
    using guard.inv_put[OF inv', of pid "()" now] guard.inv_touch[OF inv', of now] unfolding step
    by (simp add: dwf_def split: option.splits)
  ultimately have "rg_len (fst (check_and_record g' pid now)) \<le> card ?S"
    using card_mono[of ?S ?K] distinct_card[of "dkeys (rg_seen (fst (check_and_record g' pid now)))"]
    by (simp add: rg_len_def)
  moreover have "snd (check_and_record g' pid now) =
      (if \<exists>t. (pid, t) \<in> set acc \<and> now - t \<le> ?w then raise ValueError ''replay detected'' else Inr ())"
    using view[of pid] unfolding step by (auto split: option.splits)
  ultimately show ?thesis by blast
qed

theorem replay_guard_exact_witness:
  "\<exists>g g' acc. replay_guard_init 300 = Inr g
     \<and> rg_run g [(''a'', 0), (''a'', 5), (''b'', 7)] = (g', acc)
     \<and> snd (check_and_record g' ''b'' 8) = raise ValueError ''replay detected''
     \<and> snd (check_and_record g' ''a'' 300000001) = Inr ()"
proof -
  obtain g where g: "replay_guard_init 300 = Inr g" by (simp add: replay_guard_init_def)
  let ?calls = "[(''a'', 0), (''a'', 5), (''b'', 7)] :: (string \<times> int) list"
  define g' where "g' = fst (rg_run g ?calls)"
  have run: "rg_run g ?calls = (g', [(''a'', 0), (''b'', 7)])"
    using g by (auto simp: g'_def replay_guard_init_def check_and_record_def rg_expire_def)
  from replay_guard_exact[OF g this, of 8 "''b''"] replay_guard_exact[OF g this, of 300000001 "''a''"]
  have "snd (check_and_record g' ''b'' 8) = raise ValueError ''replay detected''"
    and "snd (check_and_record g' ''a'' 300000001) = Inr ()"
    by simp_all
  with g run show ?thesis by blast
qed

section \<open>What the dead-letter queue keeps\<close>

lemma dlq_trim_keeps:
  "0 \<le> m \<Longrightarrow> dlq_trim m xs = (drop (length xs - nat m) xs, Inr ())"
proof (induction xs)
  case (Cons x xs)
  show ?case
  proof (cases "m < int (length (x # xs))")
    case True
    then have "length (x # xs) - nat m = Suc (length xs - nat m)" using Cons.prems by auto
    with True Cons show ?thesis by simp
  next
    case False
    then have "length (x # xs) - nat m = 0" by linarith
    with False show ?thesis by simp
  qed
qed simp

lemma dlq_trim_negative: "m < 0 \<Longrightarrow> dlq_trim m xs = ([], raise IndexError ''pop from empty list'')"
  by (induction xs) auto

fun dlq_run ::
  "sdk \<Rightarrow> dead_letter_queue \<Rightarrow> (packet \<times> exn \<times> int) list \<Rightarrow>
     dead_letter_queue \<times> dead_letter_entry res list" where
  "dlq_run S q [] = (q, [])"
| "dlq_run S q ((p, e, now) # failures) =
     (case dlq_put S q p e now of
        (q', r) \<Rightarrow> (case dlq_run S q' failures of (q'', rs) \<Rightarrow> (q'', r # rs)))"

text \<open>
  With a bound of zero or more the dead-letter queue holds the most recent
  failures, oldest first, at most the bound of them, and every failure is recorded;
  with a negative bound it holds nothing and every put raises, after the entry was
  appended and popped again.
\<close>

theorem dead_letters_keep_latest:
  "dlq_run S \<lparr>dlq_entries = [], dlq_max_entries = m\<rparr> failures =
     (let es = map (\<lambda>(p, e, now). dlq_entry S p e now) failures
      in if m < 0
         then (\<lparr>dlq_entries = [], dlq_max_entries = m\<rparr>,
               map (\<lambda>_. raise IndexError ''pop from empty list'') failures)
         else (\<lparr>dlq_entries = drop (length es - nat m) es, dlq_max_entries = m\<rparr>, map Inr es))"
proof -
  let ?e = "\<lambda>(p, e, now). dlq_entry S p e now"
  have neg: "dlq_run S \<lparr>dlq_entries = [], dlq_max_entries = m\<rparr> fs =
      (\<lparr>dlq_entries = [], dlq_max_entries = m\<rparr>,
       map (\<lambda>_. raise IndexError ''pop from empty list'') fs)" if "m < 0" for fs
    using that by (induction fs) (auto simp: dlq_put_def dlq_trim_negative)
  have pos: "dlq_run S \<lparr>dlq_entries = drop (length hs - nat m) hs, dlq_max_entries = m\<rparr> fs =
      (\<lparr>dlq_entries = drop (length (hs @ map ?e fs) - nat m) (hs @ map ?e fs), dlq_max_entries = m\<rparr>,
       map (\<lambda>x. Inr (?e x)) fs)" if "0 \<le> m" for fs hs
  proof (induction fs arbitrary: hs)
    case (Cons f fs)
    obtain p e now where f: "f = (p, e, now)" by (cases f)
    let ?old = "drop (length hs - nat m) hs @ [?e f]"
    have "drop (length ?old - nat m) ?old = drop (length (hs @ [?e f]) - nat m) (hs @ [?e f])"
      by (cases "length hs \<le> nat m") (auto simp: Suc_diff_le)
    then have "dlq_put S \<lparr>dlq_entries = drop (length hs - nat m) hs, dlq_max_entries = m\<rparr> p e now =
      (\<lparr>dlq_entries = drop (length (hs @ [?e f]) - nat m) (hs @ [?e f]), dlq_max_entries = m\<rparr>,
       Inr (?e f))"
      using that by (simp add: dlq_put_def dlq_trim_keeps f Let_def)
    with Cons.IH[of "hs @ [?e f]"] show ?case by (simp add: f)
  qed simp
  show ?thesis using neg[of failures] pos[of "[]" failures] by (auto simp: Let_def)
qed

end
