(* ===== verification/Deadlines.thy ===== *)
theory Deadlines
  imports Packet
begin

text \<open>
  Time budgets and retries: the monotonic packet deadline
  (\<open>resilience/deadline.py\<close>), the timeout policy that reserves Gate's margin
  (\<open>timeout_policy.py\<close>), the replay-safety registry (\<open>replay_safety.py\<close>), the
  failure classes (\<open>failure_policy.py\<close>) and the retry loop (\<open>retry_policy.py\<close>).

  A method that reads its clock takes the reading as an argument. The retry loop
  threads a state of the world: the awaited function and the sleep transform it,
  and the clock is read from it.
\<close>

text \<open>\<open>x or d\<close> on an optional integer: zero counts as absent.\<close>

definition int_or :: "int option \<Rightarrow> int \<Rightarrow> int" where
  "int_or x d = (case x of None \<Rightarrow> d | Some n \<Rightarrow> if n = 0 then d else n)"

section \<open>Deadlines\<close>

record deadline =
  dl_total_seconds :: pyfloat
  dl_started_at :: pyfloat

definition deadline_init :: "pyfloat \<Rightarrow> pyfloat \<Rightarrow> deadline res" where
  "deadline_init total_seconds now =
     (if total_seconds \<le> 0 then raise ValueError ''total_seconds must be > 0''
      else Inr \<lparr>dl_total_seconds = total_seconds, dl_started_at = now\<rparr>)"

definition elapsed_seconds :: "deadline \<Rightarrow> pyfloat \<Rightarrow> pyfloat" where
  "elapsed_seconds d now = max 0 (fsub now (dl_started_at d))"

definition remaining_seconds :: "deadline \<Rightarrow> pyfloat \<Rightarrow> pyfloat" where
  "remaining_seconds d now = max 0 (fsub (dl_total_seconds d) (elapsed_seconds d now))"

definition expired :: "deadline \<Rightarrow> pyfloat \<Rightarrow> bool" where
  "expired d now = (remaining_seconds d now \<le> 0)"

definition raise_if_expired :: "deadline \<Rightarrow> pyfloat \<Rightarrow> unit res" where
  "raise_if_expired d now =
     (if expired d now then raise DeadlineExceeded ''packet execution deadline exceeded''
      else Inr ())"

definition bounded_by :: "deadline \<Rightarrow> pyfloat \<Rightarrow> pyfloat option \<Rightarrow> pyfloat res" where
  "bounded_by d now cap_seconds =
     (let remaining = remaining_seconds d now
      in case cap_seconds of
           None \<Rightarrow> Inr remaining
         | Some cap \<Rightarrow>
             if cap \<le> 0 then raise ValueError ''cap_seconds must be > 0 when provided''
             else Inr (min remaining cap))"

definition deadline_for_packet :: "packet \<Rightarrow> int \<Rightarrow> pyfloat \<Rightarrow> deadline res" where
  "deadline_for_packet p default_timeout_ms now =
     deadline_init (fdiv (float_of_int (int_or (timeout_ms (header p)) default_timeout_ms)) 1000) now"

section \<open>Timeout policy\<close>

record timeout_policy =
  default_timeout_ms :: int
  response_margin_ms :: int

definition timeout_policy_init :: "int \<Rightarrow> int \<Rightarrow> timeout_policy res" where
  "timeout_policy_init dflt margin =
     (if margin < 0 then raise ValueError ''response_margin_ms must be >= 0''
      else Inr \<lparr>default_timeout_ms = dflt, response_margin_ms = margin\<rparr>)"

definition budget_ms :: "timeout_policy \<Rightarrow> packet \<Rightarrow> int" where
  "budget_ms t p =
     (let advertised = int_or (timeout_ms (header p)) (default_timeout_ms t)
      in if response_margin_ms t \<noteq> 0 \<and> 2 * response_margin_ms t < advertised
         then advertised - response_margin_ms t
         else advertised)"

definition timeout_resolve :: "timeout_policy \<Rightarrow> packet \<Rightarrow> pyfloat" where
  "timeout_resolve t p = fdiv (float_of_int (budget_ms t p)) 1000"

section \<open>Replay safety\<close>

definition gate_replay_safe_actions :: "string list" where
  "gate_replay_safe_actions = []"

definition worker_owned_retry_actions :: "string list" where
  "worker_owned_retry_actions =
     [''converge'', ''enrich'', ''enrich-and-sync'', ''graph-inference-result'', ''match'',
      ''sync'', ''outcomes'']"

definition default_max_attempts :: int where
  "default_max_attempts = 1"

definition replay_safe_max_attempts :: int where
  "replay_safe_max_attempts = 3"

definition normalize_action :: "string \<Rightarrow> string" where
  "normalize_action a = canon a"

definition is_declared_replay_safe :: "string \<Rightarrow> bool" where
  "is_declared_replay_safe a = List.member gate_replay_safe_actions (normalize_action a)"

definition max_attempts_for :: "string \<Rightarrow> bool \<Rightarrow> int" where
  "max_attempts_for a has_idempotency_key =
     (if \<not> is_declared_replay_safe a then default_max_attempts
      else if \<not> has_idempotency_key then default_max_attempts
      else replay_safe_max_attempts)"

section \<open>Failure classes\<close>

definition classify :: "exn \<Rightarrow> string" where
  "classify e =
     (if isinstance e TimeoutError then ''timeout''
      else if isinstance e ValueError then ''validation''
      else ''internal'')"

definition should_retry_category :: "string \<Rightarrow> bool" where
  "should_retry_category c = List.member [''timeout'', ''internal''] c"

section \<open>Retries\<close>

record retry_decision =
  should_retry :: bool
  delay :: pyfloat

record retry_policy =
  max_attempts :: int
  delay_seconds :: pyfloat
  backoff_multiplier :: pyfloat
  retryable_exceptions :: "pyclass list"

definition retry_policy_init ::
  "int \<Rightarrow> pyfloat \<Rightarrow> pyfloat \<Rightarrow> pyclass list \<Rightarrow> retry_policy res" where
  "retry_policy_init n d m cs =
     (if n < 1 then raise ValueError ''max_attempts must be >= 1''
      else if d < 0 then raise ValueError ''delay_seconds must be >= 0''
      else if m < 1 then raise ValueError ''backoff_multiplier must be >= 1.0''
      else Inr \<lparr>max_attempts = n, delay_seconds = d, backoff_multiplier = m,
                retryable_exceptions = cs\<rparr>)"

definition retry_decision_for :: "retry_policy \<Rightarrow> int \<Rightarrow> exn \<Rightarrow> retry_decision res" where
  "retry_decision_for p attempt e =
     (if attempt < 1 then raise ValueError ''attempt must be >= 1''
      else
        (let is_retryable = list_ex (isinstance e) (retryable_exceptions p)
         in if \<not> is_retryable \<or> max_attempts p \<le> attempt
            then Inr \<lparr>should_retry = False, delay = 0\<rparr>
            else Inr \<lparr>should_retry = True,
              delay = fmul (delay_seconds p) (rnd (backoff_multiplier p ^ nat (attempt - 1)))\<rparr>))"

text \<open>
  The body of the \<open>except\<close> branch: \<open>None\<close> re-raises, \<open>Some w\<close> goes on to the next
  attempt in world \<open>w\<close>.
\<close>

definition retry_handler ::
  "retry_policy \<Rightarrow> deadline option \<Rightarrow> ('w \<Rightarrow> pyfloat) \<Rightarrow> (pyfloat \<Rightarrow> 'w \<Rightarrow> 'w) \<Rightarrow> int \<Rightarrow> exn \<Rightarrow> 'w \<Rightarrow>
     'w \<times> bool res" where
  "retry_handler p dl clock sleep attempt e w =
     (case retry_decision_for p attempt e of
        Inl e' \<Rightarrow> (w, Inl e')
      | Inr decision \<Rightarrow>
          if \<not> should_retry decision then (w, Inr False)
          else if (case dl of None \<Rightarrow> False | Some d \<Rightarrow> remaining_seconds d (clock w) \<le> delay decision)
          then (w, Inr False)
          else
            (let w' = (if 0 < delay decision then sleep (delay decision) w else w)
             in (w', Inr (case dl of None \<Rightarrow> True | Some d \<Rightarrow> \<not> expired d (clock w')))))"

text \<open>The loop over the attempts that are left; \<open>last_exc\<close> is the last failure.\<close>

fun retry_loop ::
  "retry_policy \<Rightarrow> deadline option \<Rightarrow> ('w \<Rightarrow> pyfloat) \<Rightarrow> (pyfloat \<Rightarrow> 'w \<Rightarrow> 'w) \<Rightarrow>
     ('w \<Rightarrow> 'w \<times> 'a res) \<Rightarrow> nat \<Rightarrow> exn \<Rightarrow> 'w \<Rightarrow> 'w \<times> 'a res" where
  "retry_loop p dl clock sleep func 0 last_exc w = (w, Inl last_exc)"
| "retry_loop p dl clock sleep func (Suc left) last_exc w =
     (case func w of
        (w1, Inr a) \<Rightarrow> (w1, Inr a)
      | (w1, Inl e) \<Rightarrow>
          (case retry_handler p dl clock sleep (max_attempts p - int left) e w1 of
             (w2, Inl e') \<Rightarrow> (w2, Inl e')
           | (w2, Inr True) \<Rightarrow> retry_loop p dl clock sleep func left e w2
           | (w2, Inr False) \<Rightarrow> (w2, Inl e)))"

definition retry_run ::
  "retry_policy \<Rightarrow> deadline option \<Rightarrow> ('w \<Rightarrow> pyfloat) \<Rightarrow> (pyfloat \<Rightarrow> 'w \<Rightarrow> 'w) \<Rightarrow>
     ('w \<Rightarrow> 'w \<times> 'a res) \<Rightarrow> 'w \<Rightarrow> 'w \<times> 'a res" where
  "retry_run p dl clock sleep func w =
     retry_loop p dl clock sleep func (nat (max_attempts p)) (mk_exn AssertionError []) w"

section \<open>Properties\<close>

subsection \<open>Deadlines\<close>

lemma remaining_nonneg [simp]: "0 \<le> remaining_seconds d now"
  by (simp add: remaining_seconds_def)

lemma elapsed_nonneg [simp]: "0 \<le> elapsed_seconds d now"
  by (simp add: elapsed_seconds_def)

lemma elapsed_mono: "s \<le> t \<Longrightarrow> elapsed_seconds d s \<le> elapsed_seconds d t"
  unfolding elapsed_seconds_def by (rule max.mono[OF order_refl]) (simp add: fsub_mono)

lemma remaining_antimono: "s \<le> t \<Longrightarrow> remaining_seconds d t \<le> remaining_seconds d s"
  unfolding remaining_seconds_def
  by (rule max.mono[OF order_refl], rule fsub_mono) (simp_all add: elapsed_mono)

lemma remaining_le_total:
  assumes "is_float (dl_total_seconds d)" and "0 \<le> dl_total_seconds d"
  shows "remaining_seconds d now \<le> dl_total_seconds d"
  using assms rnd_le_float[OF assms(1), of "dl_total_seconds d - elapsed_seconds d now"]
  by (simp add: remaining_seconds_def fsub_def)

lemma expired_mono: "expired d s \<Longrightarrow> s \<le> t \<Longrightarrow> expired d t"
  using remaining_antimono[of s t d] by (simp add: expired_def)

lemma remaining_start: "is_float (dl_total_seconds d) \<Longrightarrow> 0 \<le> dl_total_seconds d \<Longrightarrow>
  t \<le> dl_started_at d \<Longrightarrow> remaining_seconds d t = dl_total_seconds d"
proof -
  assume f: "is_float (dl_total_seconds d)" "0 \<le> dl_total_seconds d" and t: "t \<le> dl_started_at d"
  have "fsub t (dl_started_at d) \<le> 0" using t by (simp flip: not_less)
  then have "elapsed_seconds d t = 0" by (simp add: elapsed_seconds_def max_absorb1)
  with f show ?thesis by (simp add: remaining_seconds_def fsub_def is_float_def)
qed

text \<open>
  C34. One budget for every stage: what a stage is granted never exceeds the
  packet's total, nor what an earlier stage could have been granted, nor the
  stage's own cap; once expired a deadline stays expired.
\<close>

theorem deadline_budget_only_shrinks:
  assumes "is_float tot" and "deadline_init tot now = Inr d"
    and "s \<le> t" and "bounded_by d t cap = Inr b" and "bounded_by d s cap = Inr b'"
  shows "0 \<le> b \<and> b \<le> b' \<and> b' \<le> tot \<and> (\<forall>c. cap = Some c \<longrightarrow> b \<le> c) \<and>
    (expired d s \<longrightarrow> expired d t \<and> b = 0)"
proof -
  from assms(2) have d: "dl_total_seconds d = tot" "0 < tot"
    by (auto simp: deadline_init_def split: if_splits)
  have r: "remaining_seconds d t \<le> remaining_seconds d s" "remaining_seconds d s \<le> tot"
    using assms(1,3) d remaining_le_total[of d s] by (auto simp: remaining_antimono)
  have b: "b = (case cap of None \<Rightarrow> remaining_seconds d t | Some c \<Rightarrow> min (remaining_seconds d t) c)"
    "b' = (case cap of None \<Rightarrow> remaining_seconds d s | Some c \<Rightarrow> min (remaining_seconds d s) c)"
    "\<forall>c. cap = Some c \<longrightarrow> 0 < c"
    using assms(4,5) by (auto simp: bounded_by_def Let_def split: option.splits if_splits)
  have e: "expired d s \<Longrightarrow> expired d t \<and> remaining_seconds d t = 0"
    using remaining_nonneg[of d t] expired_mono[OF _ assms(3), of d] unfolding expired_def by (metis order_antisym)
  show ?thesis
    using b r e remaining_nonneg[of d t] by (cases cap) auto
qed

theorem deadline_budget_only_shrinks_witness:
  "\<exists>d. deadline_init 2 0 = Inr d \<and>
     remaining_seconds d 1 \<le> 2 \<and> bounded_by d 0 None = Inr 2"
proof -
  obtain d where d: "deadline_init 2 0 = Inr d" by (simp add: deadline_init_def)
  then have "dl_total_seconds d = 2" "dl_started_at d = 0" by (auto simp: deadline_init_def)
  then have "bounded_by d 0 None = Inr 2"
    using remaining_start[of d 0] is_float_of_int[of 2] by (simp add: bounded_by_def)
  moreover have "bounded_by d 1 None = Inr (remaining_seconds d 1)" by (simp add: bounded_by_def)
  moreover have "is_float (2 :: rat)" using is_float_of_int[of 2] by simp
  ultimately show ?thesis
    using deadline_budget_only_shrinks[OF _ d, of 0 1 None "remaining_seconds d 1" 2] d by auto
qed

subsection \<open>Timeout policy\<close>

text \<open>
  Gate answers first: with a positive margin, the budget Gate waits for is
  the advertised one less the margin whenever the advertised budget is more than
  twice the margin, and the whole of it otherwise, so Gate's wait is always
  positive, never more than advertised, and at least half of it.
\<close>

theorem timeout_margin_bounds:
  assumes "timeout_policy_init dflt margin = Inr t"
    and "timeout_ms (header p) = Some adv" and "1 \<le> adv"
  shows "(2 * margin < adv \<longrightarrow> budget_ms t p = adv - margin) \<and>
    (adv \<le> 2 * margin \<longrightarrow> budget_ms t p = adv) \<and>
    0 < budget_ms t p \<and> budget_ms t p \<le> adv \<and> adv \<le> 2 * budget_ms t p"
  using assms
  by (auto simp: timeout_policy_init_def budget_ms_def int_or_def Let_def split: if_splits)

theorem timeout_margin_bounds_witness:
  "\<exists>t. timeout_policy_init 30000 500 = Inr t \<and> budget_ms t (example_packet ''match'') = 29500"
proof -
  obtain t where t: "timeout_policy_init 30000 500 = Inr t" by (simp add: timeout_policy_init_def)
  have "timeout_ms (header (example_packet ''match'')) = Some 30000" by (simp add: example_packet_def)
  from timeout_margin_bounds[OF t this] t show ?thesis by simp
qed

subsection \<open>Retries\<close>

lemma retry_decision_attempt_ok:
  "1 \<le> attempt \<Longrightarrow> \<exists>d. retry_decision_for p attempt e = Inr d \<and>
     (should_retry d \<longrightarrow> attempt < max_attempts p \<and> list_ex (isinstance e) (retryable_exceptions p))"
  by (auto simp: retry_decision_for_def Let_def)

lemma retry_handler_go_on:
  assumes "retry_handler p dl clock sleep attempt e w = (w', Inr True)"
  shows "attempt < max_attempts p" and "list_ex (isinstance e) (retryable_exceptions p)"
    and "\<And>d. dl = Some d \<Longrightarrow> \<not> expired d (clock w')" and "w' = w \<or> (\<exists>s. w' = sleep s w)"
  using assms
  by (auto simp: retry_handler_def retry_decision_for_def Let_def
      split: sum.splits if_splits option.splits)

lemma retry_handler_world:
  "retry_handler p dl clock sleep attempt e w = (w', r) \<Longrightarrow> w' = w \<or> (\<exists>s. w' = sleep s w)"
  by (auto simp: retry_handler_def Let_def split: sum.splits if_splits option.splits)

lemma retry_handler_last:
  "1 \<le> attempt \<Longrightarrow> max_attempts p \<le> attempt \<Longrightarrow>
     retry_handler p dl clock sleep attempt e w = (w, Inr False)"
  by (simp add: retry_handler_def retry_decision_for_def Let_def)

text \<open>With one attempt the wrapper is transparent.\<close>

lemma retry_run_single:
  assumes "max_attempts p = 1"
  shows "retry_run p dl clock sleep func w = func w"
  using assms
  by (auto simp: retry_run_def retry_handler_last split: prod.splits sum.splits)

lemma retry_loop_counts:
  assumes "\<And>w. cnt (fst (func w)) = cnt w + 1" and "\<And>s w. cnt (sleep s w) = cnt w"
  shows "cnt (fst (retry_loop p dl clock sleep func left l w)) \<le> cnt w + left \<and>
    (0 < left \<longrightarrow> cnt w < cnt (fst (retry_loop p dl clock sleep func left l w)))"
proof (induction left arbitrary: l w)
  case 0
  then show ?case by simp
next
  case (Suc left)
  obtain w1 r where f: "func w = (w1, r)" by (cases "func w")
  with assms(1)[of w] have c1: "cnt w1 = cnt w + (1::nat)" by simp
  show ?case
  proof (cases r)
    case (Inr a)
    with f c1 show ?thesis by simp
  next
    case (Inl e)
    obtain w2 h where h: "retry_handler p dl clock sleep (max_attempts p - int left) e w1 = (w2, h)"
      by (cases "retry_handler p dl clock sleep (max_attempts p - int left) e w1")
    have c2: "cnt w2 = cnt w1" using retry_handler_world[OF h] assms(2) by auto
    show ?thesis
      using f Inl h c1 c2 Suc.IH[of e w2] by (auto split: sum.splits bool.splits)
  qed
qed

text \<open>The function is only ever started at the first state or at one the deadline leaves open.\<close>

lemma retry_loop_agree:
  assumes "\<And>w. (\<And>d. dl = Some d \<Longrightarrow> \<not> expired d (clock w)) \<Longrightarrow> func w = func' w"
    and "func w = func' w"
  shows "retry_loop p dl clock sleep func left l w = retry_loop p dl clock sleep func' left l w"
  using assms(2)
proof (induction left arbitrary: l w)
  case 0
  then show ?case by simp
next
  case (Suc left)
  have "retry_loop p dl clock sleep func left e w2 = retry_loop p dl clock sleep func' left e w2"
    if "retry_handler p dl clock sleep a e w1 = (w2, Inr True)" for a e w1 w2
    using Suc.IH assms(1) retry_handler_go_on(3)[OF that] by blast
  then show ?case
    using Suc.prems by (auto split: prod.splits sum.splits bool.splits)
qed

text \<open>
  C35. The attempt budget: a run calls the function at least once and at most
  \<open>max_attempts\<close> times, as any counter that the function bumps and sleeping
  leaves alone shows.
\<close>

theorem retry_attempts_bounded:
  assumes "retry_policy_init n d m cs = Inr p"
    and "\<And>w. cnt (fst (func w)) = cnt w + (1::nat)" and "\<And>s w. cnt (sleep s w) = cnt w"
  shows "cnt w + 1 \<le> cnt (fst (retry_run p dl clock sleep func w)) \<and>
    cnt (fst (retry_run p dl clock sleep func w)) \<le> cnt w + nat n"
proof -
  from assms(1) have "max_attempts p = n" "1 \<le> n"
    by (auto simp: retry_policy_init_def split: if_splits)
  then show ?thesis
    using retry_loop_counts[of cnt func sleep p dl clock "nat n" "mk_exn AssertionError []" w]
      assms(2,3)
    by (simp add: retry_run_def)
qed

theorem retry_attempts_bounded_witness:
  "\<exists>p. retry_policy_init 3 (1/8) 1 [TimeoutError] = Inr p \<and>
     fst (retry_run p None (\<lambda>_. 0) (\<lambda>_ w. w)
       (\<lambda>w. (w + 1, (raise TimeoutError [] :: unit res))) 0) \<le> nat 3"
proof -
  obtain p where p: "retry_policy_init 3 (1/8) 1 [TimeoutError] = Inr p"
    by (simp add: retry_policy_init_def)
  show ?thesis
    using retry_attempts_bounded[OF p, of id "\<lambda>w. (w + 1, (raise TimeoutError [] :: unit res))"
        "\<lambda>_ w. w" 0 None "\<lambda>_. 0"] p by auto
qed

text \<open>
  No attempt starts late: whatever the function would do when started at a
  state where the deadline has expired does not matter to a run, because after
  the first attempt it is never started there.
\<close>

theorem retry_never_starts_expired:
  assumes "\<And>w'. \<not> expired d (clock w') \<Longrightarrow> func w' = func' w'" and "func w = func' w"
  shows "retry_run p (Some d) clock sleep func w = retry_run p (Some d) clock sleep func' w"
  unfolding retry_run_def
  by (rule retry_loop_agree) (simp_all add: assms)

theorem retry_never_starts_expired_witness:
  "retry_run \<lparr>max_attempts = 3, delay_seconds = 0, backoff_multiplier = 1,
       retryable_exceptions = [TimeoutError]\<rparr> (Some \<lparr>dl_total_seconds = 1, dl_started_at = 0\<rparr>)
     id (\<lambda>_ w. w) (\<lambda>w. (w + 2, raise TimeoutError [])) 0 =
   retry_run \<lparr>max_attempts = 3, delay_seconds = 0, backoff_multiplier = 1,
       retryable_exceptions = [TimeoutError]\<rparr> (Some \<lparr>dl_total_seconds = 1, dl_started_at = 0\<rparr>)
     id (\<lambda>_ w. w) (\<lambda>w. if 1 \<le> w then (w, Inr ()) else (w + 2, raise TimeoutError [])) 0"
proof (rule retry_never_starts_expired)
  fix w :: rat
  assume ne: "\<not> expired \<lparr>dl_total_seconds = 1, dl_started_at = 0\<rparr> (id w)"
  have "expired \<lparr>dl_total_seconds = 1, dl_started_at = 0\<rparr> 1"
    by (simp add: expired_def remaining_seconds_def elapsed_seconds_def fsub_def)
  with ne have "\<not> 1 \<le> w" using expired_mono by fastforce
  then show "(w + 2, raise TimeoutError []) =
      (if 1 \<le> w then (w, Inr ()) else (w + 2, raise TimeoutError []))" by simp
qed simp

text \<open>
  No action is replayed: the effective attempt budget of every action, with or
  without an idempotency key, is one, because no action is declared replay-safe.
\<close>

theorem every_action_is_attempted_once:
  "max_attempts_for a k = 1 \<and> \<not> is_declared_replay_safe a"
  by (simp add: max_attempts_for_def is_declared_replay_safe_def gate_replay_safe_actions_def
      default_max_attempts_def)

end
