(* ===== verification/Observability.thy ===== *)
theory Observability
  imports Boundary
begin

text \<open>
  What Gate reports about itself, \<open>observability/\<close>:
  the request context, the root logger, the fields of a log line, the trace of a packet, and the
  metrics. A counter of \<open>prometheus_client\<close> is the sequence of the label values it was
  incremented with, a histogram the sequence of its observations; the current time is
  an argument.
\<close>

section \<open>The request context\<close>

type_synonym log_context = "payload option"

definition get_context :: "log_context \<Rightarrow> payload" where
  "get_context c = (case c of None \<Rightarrow> [] | Some d \<Rightarrow> d)"

definition set_context :: "log_context \<Rightarrow> payload \<Rightarrow> log_context" where
  "set_context c vals = Some (dupdate (get_context c) vals)"

definition clear_context :: "log_context \<Rightarrow> log_context" where
  "clear_context c = Some []"

section \<open>The root logger\<close>

text \<open>Handlers are Gate's own, JSON lines to the standard output, or those a host installed.\<close>

datatype log_handler = Json_to_stdout | Host_handler string

record root_logger =
  log_level :: int
  log_handlers :: "log_handler list"

definition configure_logging :: "int \<Rightarrow> root_logger \<Rightarrow> root_logger" where
  "configure_logging level logger = logger\<lparr>log_handlers := [Json_to_stdout], log_level := level\<rparr>"

section \<open>Log lines and events\<close>

definition packet_log_context :: "packet \<Rightarrow> payload" where
  "packet_log_context p =
     [(''packet_id'', PyStr (packet_id (header p))), (''root_id'', PyStr (root_id (lineage p))),
      (''action'', PyStr (action (header p))), (''source_node'', PyStr (source_node (address p))),
      (''destination_node'', PyStr (destination_node (address p))),
      (''origin_kind'', PyStr (origin_kind (provenance p))),
      (''hop_count'', PyInt (int (length (hop_trace p)))), (''generation'', PyInt (generation (lineage p)))]"

record log_record =
  lr_level :: string
  lr_logger :: string
  lr_message :: string
  lr_event :: "string option"
  lr_context :: "payload option"

definition log_packet_event :: "log_context \<Rightarrow> string \<Rightarrow> string \<Rightarrow> packet \<Rightarrow> payload \<Rightarrow> log_record" where
  "log_packet_event c logger event p extra =
     \<lparr>lr_level = ''INFO'', lr_logger = logger, lr_message = event, lr_event = Some event,
      lr_context = Some (dupdate (dupdate (get_context c) (packet_log_context p)) extra)\<rparr>"

text \<open>The object \<open>JsonLogFormatter.format\<close> serializes with sorted keys.\<close>

definition json_log_fields :: "log_record \<Rightarrow> payload" where
  "json_log_fields r =
     (let base = [(''level'', PyStr (lower (lr_level r))), (''logger'', PyStr (lr_logger r)),
                  (''message'', PyStr (lr_message r))];
          with_event = (case lr_event r of None \<Rightarrow> base | Some e \<Rightarrow> dset base ''event'' (PyStr e))
      in case lr_context r of None \<Rightarrow> with_event | Some c \<Rightarrow> dupdate with_event c)"

text \<open>The line itself: the object in the order of its keys, as \<open>json\<close> writes it.\<close>

definition json_log_format :: "(payload \<Rightarrow> string) \<Rightarrow> log_record \<Rightarrow> string" where
  "json_log_format dumps r = dumps (sort_key fst (json_log_fields r))"

definition ingress_event :: "packet \<Rightarrow> payload" where
  "ingress_event p = dset (packet_log_context p) ''event'' (PyStr ''gate.ingress'')"

definition dispatch_event :: "packet \<Rightarrow> string \<Rightarrow> payload" where
  "dispatch_event p target = dupdate (packet_log_context p)
     [(''event'', PyStr ''gate.dispatch''), (''target_node'', PyStr (canon target))]"

definition workflow_step_event :: "packet \<Rightarrow> string \<Rightarrow> payload" where
  "workflow_step_event p step = dupdate (packet_log_context p)
     [(''event'', PyStr ''gate.workflow_step''), (''step_name'', PyStr (canon step))]"

definition failure_event :: "packet \<Rightarrow> exn \<Rightarrow> payload" where
  "failure_event p e = dupdate (packet_log_context p)
     [(''event'', PyStr ''gate.failure''), (''error_type'', PyStr (class_name (exn_class e))),
      (''error_message'', PyStr (exn_msg e))]"

section \<open>Traces\<close>

definition packet_trace :: "packet \<Rightarrow> string \<Rightarrow> payload" where
  "packet_trace p now =
     [(''trace_id'', opt_str (trace_id (header p))),
      (''correlation_id'', opt_str (correlation_id (header p))),
      (''packet_id'', PyStr (packet_id (header p))), (''root_id'', PyStr (root_id (lineage p))),
      (''parent_id'', opt_str (parent_id (lineage p))), (''generation'', PyInt (generation (lineage p))),
      (''hop_count'', PyInt (int (length (hop_trace p)))), (''timestamp'', PyStr now)]"

definition dispatch_trace :: "packet \<Rightarrow> string \<Rightarrow> string \<Rightarrow> payload" where
  "dispatch_trace p target now = dupdate (packet_trace p now)
     [(''target_node'', PyStr (canon target)),
      (''requested_action'', PyStr (requested_action (provenance p))),
      (''resolved_by_gate'', PyBool (resolved_by_gate (provenance p)))]"

section \<open>Metrics\<close>

record metrics =
  m_requests :: "(string \<times> string) list"
  m_dispatches :: "(string \<times> string \<times> string) list"
  m_in_flight :: int
  m_latency :: "(string \<times> pyfloat) list"

definition metrics_init :: metrics where
  "metrics_init = \<lparr>m_requests = [], m_dispatches = [], m_in_flight = 0, m_latency = []\<rparr>"

definition record_request :: "metrics \<Rightarrow> string \<Rightarrow> string \<Rightarrow> metrics" where
  "record_request m act stat = m\<lparr>m_requests := m_requests m @ [(canon act, canon stat)]\<rparr>"

definition record_dispatch :: "metrics \<Rightarrow> string \<Rightarrow> string \<Rightarrow> string \<Rightarrow> metrics" where
  "record_dispatch m act target stat =
     m\<lparr>m_dispatches := m_dispatches m @ [(canon act, canon target, canon stat)]\<rparr>"

definition observe_execution_latency :: "metrics \<Rightarrow> string \<Rightarrow> pyfloat \<Rightarrow> metrics" where
  "observe_execution_latency m act seconds = m\<lparr>m_latency := m_latency m @ [(canon act, seconds)]\<rparr>"

definition increment_in_flight :: "metrics \<Rightarrow> metrics" where
  "increment_in_flight m = m\<lparr>m_in_flight := m_in_flight m + 1\<rparr>"

definition decrement_in_flight :: "metrics \<Rightarrow> metrics" where
  "decrement_in_flight m = m\<lparr>m_in_flight := m_in_flight m - 1\<rparr>"

section \<open>Which value a log line carries\<close>

lemma dwf_packet_context [simp]: "dwf (packet_log_context p)"
  by (simp add: packet_log_context_def dwf_def)

text \<open>
  In the context of a log line the extra fields of the call win over those of the
  packet, and those of the packet over the request's, so a request cannot forge the
  packet a line is about.
\<close>

theorem log_line_precedence:
  assumes "dwf extra"
  shows "\<exists>d. lr_context (log_packet_event c logger event p extra) = Some d \<and>
    dget d k = (case dget extra k of Some v \<Rightarrow> Some v
      | None \<Rightarrow> (case dget (packet_log_context p) k of Some v \<Rightarrow> Some v | None \<Rightarrow> dget (get_context c) k))"
  using assms by (simp add: log_packet_event_def dget_dupdate split: option.splits)

theorem log_line_precedence_witness:
  "\<exists>d. lr_context (log_packet_event (Some [(''action'', PyStr ''forged'')]) ''g'' ''gate.ingress''
      (example_packet ''match'') []) = Some d \<and> dget d ''action'' = Some (PyStr ''match'')"
  using log_line_precedence[of "[]" "Some [(''action'', PyStr ''forged'')]" "''g''" "''gate.ingress''"
      "example_packet ''match''" "''action''"]
  by (simp add: packet_log_context_def example_packet_def)

text \<open>A line lists every field once, in the order of the keys, whatever the record carries.\<close>

lemma dwf_json_log_fields: "dwf (json_log_fields r)"
  by (auto simp: json_log_fields_def Let_def dwf_def intro!: dwf_dupdate[unfolded dwf_def] dwf_dset[unfolded dwf_def]
      split: option.splits)

lemma log_line_lists_fields:
  "sorted (dkeys (sort_key fst (json_log_fields r))) \<and> distinct (dkeys (sort_key fst (json_log_fields r)))
     \<and> dget (sort_key fst (json_log_fields r)) = dget (json_log_fields r)"
proof -
  let ?d = "json_log_fields r"
  have d: "distinct (map fst ?d)" using dwf_json_log_fields by (simp add: dwf_def)
  then have "distinct (map fst (sort_key fst ?d))"
    by (metis distinct_map mset_eq_imp_distinct_iff mset_map mset_sort)
  then have "map_of (sort_key fst ?d) = map_of ?d" using d by (intro map_of_inject_set[THEN iffD2]) auto
  with \<open>distinct (map fst (sort_key fst ?d))\<close> show ?thesis by simp
qed

end
