(* ===== verification/Execute_Service.thy ===== *)
theory Execute_Service
  imports Admission Circuit_Breaker Caches Deadlines Observability
begin

text \<open>
  The execution coordinator, \<open>services/execute_service.py\<close>. One call of \<open>execute\<close>
  suspends once, while it waits for the worker or the workflow; it is modelled as
  what runs before (\<open>exec_begin\<close>) and after (\<open>exec_settle\<close>) that wait, so calls can
  interleave, and as the whole (\<open>execute\<close>) for one call alone. The validated packet or
  the failure of validation is an argument, as are the readings of the clocks and the
  collaborators: the dispatcher and the workflow engine, which act on a world \<open>'w\<close>.
\<close>

section \<open>Results worth caching\<close>

text \<open>The loop over the reversed hop trace: the last response hop decides.\<close>

fun response_hop_ok :: "hop list \<Rightarrow> bool" where
  "response_hop_ok [] = True"
| "response_hop_ok (h # hs) =
     (if direction h = ''response'' then status h \<noteq> ''failed'' else response_hop_ok hs)"

definition is_terminal_success :: "packet \<Rightarrow> bool" where
  "is_terminal_success r =
     (if packet_type (header r) = ''failure'' then False else response_hop_ok (rev (hop_trace r)))"

section \<open>The service\<close>

record exec_service =
  ex_local_node :: string
  ex_idempotency :: idempotency_store
  ex_replay :: replay_guard
  ex_retry :: retry_policy
  ex_timeout :: timeout_policy
  ex_rate :: rate_limiter
  ex_breaker :: circuit_breaker
  ex_load :: load_shedding_policy
  ex_back :: backpressure_policy
  ex_dlq :: dead_letter_queue
  ex_in_flight :: int
  ex_metrics :: metrics
  ex_log :: "log_record list"

definition exec_service_init :: "string \<Rightarrow> pyfloat \<Rightarrow> int \<Rightarrow> exec_service res" where
  "exec_service_init local_node ttl margin =
     rbind (idempotency_init ttl) (\<lambda>idem.
     rbind (replay_guard_init 300) (\<lambda>replay.
     rbind (retry_policy_init replay_safe_max_attempts (rnd (1 / 10)) 1 [TimeoutError]) (\<lambda>retry.
     rbind (timeout_policy_init 30000 margin) (\<lambda>timeout.
     rbind (rate_limiter_init 1000000 1) (\<lambda>rate.
     rbind (breaker_init 1000000 30) (\<lambda>breaker.
     rbind (load_shedding_init 1000000) (\<lambda>load.
     rbind (backpressure_init 1000000) (\<lambda>back.
       Inr \<lparr>ex_local_node = canon local_node, ex_idempotency = idem, ex_replay = replay,
            ex_retry = retry, ex_timeout = timeout, ex_rate = rate, ex_breaker = breaker,
            ex_load = load, ex_back = back,
            ex_dlq = \<lparr>dlq_entries = [], dlq_max_entries = 1000\<rparr>, ex_in_flight = 0,
            ex_metrics = metrics_init, ex_log = []\<rparr>))))))))"

definition retry_policy_for :: "exec_service \<Rightarrow> packet \<Rightarrow> retry_policy res" where
  "retry_policy_for s p =
     (let template = ex_retry s;
          resolved = max_attempts_for (action (header p))
            (idempotency_key (header p) \<noteq> None \<and> idempotency_key (header p) \<noteq> Some []);
          effective = min resolved (max_attempts template)
      in if effective = max_attempts template then Inr template
         else retry_policy_init effective (delay_seconds template) (backoff_multiplier template)
                (retryable_exceptions template))"

text \<open>
  \<open>_validate\<close>: \<open>None\<close> is a validator without a method \<open>validate\<close>; the method answers \<open>None\<close>
  for a value that is not a \<open>TransportPacket\<close>.
\<close>

definition exec_validate :: "('b \<Rightarrow> packet option res) option \<Rightarrow> 'b \<Rightarrow> packet res" where
  "exec_validate validator body =
     (case validator of
        None \<Rightarrow> raise TypeError ''ingress_validator must expose validate(body) -> TransportPacket''
      | Some f \<Rightarrow> rbind (f body) (\<lambda>r.
          case r of
            None \<Rightarrow> raise TypeError ''ingress_validator returned non-TransportPacket result''
          | Some p \<Rightarrow> Inr p))"

text \<open>The clock readings of one call, in the order of their use.\<close>

record readings =
  at_start :: pyfloat
  at_rate :: pyfloat
  at_breaker :: pyfloat
  at_lookup :: pyfloat
  at_replay :: int
  at_deadline :: pyfloat
  at_trace :: string
  at_end :: pyfloat

section \<open>Before the wait\<close>

definition exec_log :: "log_context \<Rightarrow> string \<Rightarrow> packet \<Rightarrow> payload \<Rightarrow> exec_service \<Rightarrow> exec_service" where
  "exec_log c event p extra s =
     s\<lparr>ex_log := ex_log s @ [log_packet_event c ''constellation_gate.execute'' event p extra]\<rparr>"

definition trace_field :: "packet \<Rightarrow> string \<Rightarrow> payload" where
  "trace_field p now = [(''trace'', payload_val (packet_trace p now))]"

definition exec_admission :: "readings \<Rightarrow> int \<Rightarrow> exec_service \<Rightarrow> packet \<Rightarrow> exec_service \<times> unit res" where
  "exec_admission t queue_depth s p =
     (case rate_allow (ex_rate s) (source_node (address p)) None (at_rate t) of
        (rate, Inl e) \<Rightarrow> (s\<lparr>ex_rate := rate\<rparr>, Inl e)
      | (rate, Inr u) \<Rightarrow>
          (let s1 = s\<lparr>ex_rate := rate\<rparr>
           in case load_shedding_enforce (ex_load s1) (ex_in_flight s1) of
                Inl e \<Rightarrow> (s1, Inl e)
              | Inr u \<Rightarrow>
                  (case backpressure_enforce (ex_back s1) queue_depth of
                     Inl e \<Rightarrow> (s1, Inl e)
                   | Inr u \<Rightarrow>
                       (case before_call (ex_breaker s1) None (at_breaker t) of
                          (breaker, r) \<Rightarrow> (s1\<lparr>ex_breaker := breaker\<rparr>, r)))))"

definition exec_enter :: "exec_service \<Rightarrow> exec_service" where
  "exec_enter s = s\<lparr>ex_metrics := increment_in_flight (ex_metrics s), ex_in_flight := ex_in_flight s + 1\<rparr>"

text \<open>The \<open>finally\<close> clause of a call that counted itself.\<close>

definition exec_leave :: "exec_service \<Rightarrow> exec_service" where
  "exec_leave s = s\<lparr>ex_in_flight := ex_in_flight s - 1, ex_metrics := decrement_in_flight (ex_metrics s)\<rparr>"

text \<open>The outer \<open>except Exception\<close> clause; \<open>act\<close> is \<open>action_for_metrics\<close>.\<close>

definition exec_failed ::
  "log_context \<Rightarrow> packet option \<Rightarrow> string \<Rightarrow> exn \<Rightarrow> exec_service \<Rightarrow> exec_service" where
  "exec_failed c p act e s =
     (if \<not> is_exception e then s
      else
        (let s1 = s\<lparr>ex_metrics := record_request (ex_metrics s) act ''failed''\<rparr>;
             s2 = (case p of
                     None \<Rightarrow> s1
                   | Some q \<Rightarrow> exec_log c ''gate.failure'' q
                       [(''error_type'', PyStr (class_name (exn_class e))),
                        (''error_message'', PyStr (exn_msg e))] s1)
         in s2\<lparr>ex_log := ex_log s2 @
              [\<lparr>lr_level = ''ERROR'', lr_logger = ''constellation_gate.execute'',
                lr_message = ''gate.failure'', lr_event = None, lr_context = None\<rparr>]\<rparr>))"

record running =
  run_packet :: packet
  run_timeout :: pyfloat
  run_deadline :: deadline
  run_policy :: retry_policy

datatype progress = Answered packet | Running running

text \<open>From the idempotency lookup to the wait.\<close>

definition exec_lookup ::
  "sdk \<Rightarrow> log_context \<Rightarrow> readings \<Rightarrow> exec_service \<Rightarrow> packet \<Rightarrow> exec_service \<times> progress res" where
  "exec_lookup S c t s p =
     (case enforce_idempotency p (ex_idempotency s) (at_lookup t) of
        (idem, Some cached) \<Rightarrow>
          (let s1 = s\<lparr>ex_idempotency := idem\<rparr>
           in case sdk_model_validate S cached of
                Inl e \<Rightarrow> (s1, Inl e)
              | Inr cached_packet \<Rightarrow>
                  (let m = observe_execution_latency
                         (record_request (ex_metrics s1) (action (header p)) ''cached'')
                         (action (header p)) (fsub (at_end t) (at_start t))
                   in (exec_log c ''gate.cached'' cached_packet (trace_field cached_packet (at_trace t))
                         (s1\<lparr>ex_metrics := m\<rparr>), Inr (Answered cached_packet))))
      | (idem, None) \<Rightarrow>
          (case check_and_record (ex_replay s) (packet_id (header p)) (at_replay t) of
             (replay, Inl e) \<Rightarrow> (s\<lparr>ex_idempotency := idem, ex_replay := replay\<rparr>, Inl e)
           | (replay, Inr u) \<Rightarrow>
               (let s1 = s\<lparr>ex_idempotency := idem, ex_replay := replay\<rparr>;
                    timeout = timeout_resolve (ex_timeout s1) p
                in (s1, rbind (deadline_init timeout (at_deadline t)) (\<lambda>dl.
                        rbind (retry_policy_for s1 p) (\<lambda>policy.
                          Inr (Running \<lparr>run_packet = p, run_timeout = timeout, run_deadline = dl,
                            run_policy = policy\<rparr>)))))))"

definition exec_begin ::
  "sdk \<Rightarrow> log_context \<Rightarrow> readings \<Rightarrow> int \<Rightarrow> exec_service \<Rightarrow> packet res \<Rightarrow> exec_service \<times> progress res" where
  "exec_begin S c t queue_depth s validated =
     (case validated of
        Inl e \<Rightarrow> (exec_failed c None ''unknown'' e s, Inl e)
      | Inr p \<Rightarrow>
          (case exec_admission t queue_depth
                  (exec_log c ''gate.ingress'' p (trace_field p (at_trace t)) s) p of
             (s1, Inl e) \<Rightarrow> (exec_failed c (Some p) (action (header p)) e s1, Inl e)
           | (s1, Inr u) \<Rightarrow>
               (case exec_lookup S c t (exec_enter s1) p of
                  (s2, Inl e) \<Rightarrow> (exec_leave (exec_failed c (Some p) (action (header p)) e s2), Inl e)
                | (s2, Inr (Answered q)) \<Rightarrow> (exec_leave s2, Inr (Answered q))
                | (s2, Inr (Running r)) \<Rightarrow> (s2, Inr (Running r)))))"

section \<open>After the wait\<close>

definition exec_completed ::
  "sdk \<Rightarrow> log_context \<Rightarrow> readings \<Rightarrow> exec_service \<Rightarrow> packet \<Rightarrow> packet \<Rightarrow> exec_service" where
  "exec_completed S c t s p result =
     (let s1 = s\<lparr>ex_breaker := record_success (ex_breaker s)\<rparr>;
          s2 = (if is_terminal_success result
                then s1\<lparr>ex_idempotency :=
                  fst (set_for_packet (ex_idempotency s1) p (sdk_dump S result) (at_lookup t))\<rparr>
                else s1);
          m = record_request (ex_metrics s2) (action (header p)) ''completed'';
          m1 = (if source_node (address result) = ex_local_node s2
                   \<and> destination_node (address result) \<noteq> ex_local_node s2
                then record_dispatch m (action (header p)) (destination_node (address result)) ''delegated''
                else m);
          elapsed = fsub (at_end t) (at_start t);
          m2 = observe_execution_latency m1 (action (header p)) elapsed
      in exec_log c ''gate.completed'' result
           (trace_field result (at_trace t) @ [(''duration_ms'', PyInt (int_of_float (fmul elapsed 1000)))])
           (s2\<lparr>ex_metrics := m2\<rparr>))"

definition exec_settle ::
  "sdk \<Rightarrow> log_context \<Rightarrow> readings \<Rightarrow> exec_service \<Rightarrow> running \<Rightarrow> packet res \<Rightarrow> exec_service \<times> packet res" where
  "exec_settle S c t s r outcome =
     (let p = run_packet r
      in case outcome of
           Inr result \<Rightarrow> (exec_leave (exec_completed S c t s p result), Inr result)
         | Inl e \<Rightarrow>
             if \<not> is_exception e then (exec_leave s, Inl e)
             else
               (let s1 = s\<lparr>ex_breaker := record_failure (ex_breaker s) None (at_breaker t)\<rparr>
                in case dlq_put S (ex_dlq s1) p e (at_replay t) of
                     (q, put) \<Rightarrow>
                       (let raised = (case put of Inl e' \<Rightarrow> e' | Inr entry \<Rightarrow> e)
                        in (exec_leave (exec_failed c (Some p) (action (header p)) raised (s1\<lparr>ex_dlq := q\<rparr>)),
                            Inl raised))))"

section \<open>The wait\<close>

text \<open>
  An injected collaborator: the parameters \<open>inspect.signature\<close> shows (the name, and
  whether it is a \<open>**kwargs\<close>; \<open>None\<close> when there is no signature), and the awaited
  call; it answers \<open>None\<close> for a value that is not a \<open>TransportPacket\<close>.
\<close>

record 'w collaborator =
  co_signature :: "(string \<times> bool) list option"
  co_call :: "packet \<Rightarrow> deadline option \<Rightarrow> 'w \<Rightarrow> 'w \<times> packet option res"

definition accepts_deadline :: "(string \<times> bool) list option \<Rightarrow> bool" where
  "accepts_deadline sig =
     (case sig of
        None \<Rightarrow> False
      | Some ps \<Rightarrow> list_ex (\<lambda>(n, var_keyword). n = ''deadline'') ps \<or> list_ex snd ps)"

definition call_with_optional_deadline ::
  "'w collaborator \<Rightarrow> packet \<Rightarrow> deadline \<Rightarrow> 'w \<Rightarrow> 'w \<times> packet option res" where
  "call_with_optional_deadline co p dl w =
     co_call co p (if accepts_deadline (co_signature co) then Some dl else None) w"

definition as_transport_packet :: "packet option \<Rightarrow> packet res" where
  "as_transport_packet r =
     (case r of None \<Rightarrow> raise TypeError ''must return TransportPacket'' | Some p \<Rightarrow> Inr p)"

definition run_dispatch :: "'w collaborator \<Rightarrow> packet \<Rightarrow> deadline \<Rightarrow> 'w \<Rightarrow> 'w \<times> packet res" where
  "run_dispatch dispatcher p dl w =
     (case call_with_optional_deadline dispatcher p dl w of (w', r) \<Rightarrow> (w', rbind r as_transport_packet))"

definition run_workflow :: "'w collaborator \<Rightarrow> packet \<Rightarrow> deadline \<Rightarrow> 'w \<Rightarrow> 'w \<times> packet res" where
  "run_workflow engine p dl w =
     (case call_with_optional_deadline engine p dl w of (w', r) \<Rightarrow> (w', rbind r as_transport_packet))"

record 'w collaborators =
  cs_has_workflow :: "string \<Rightarrow> bool"
  cs_engine :: "'w collaborator"
  cs_dispatcher :: "'w collaborator"
  cs_clock :: "'w \<Rightarrow> pyfloat"
  cs_sleep :: "pyfloat \<Rightarrow> 'w \<Rightarrow> 'w"

definition run_once :: "'w collaborators \<Rightarrow> packet \<Rightarrow> deadline \<Rightarrow> 'w \<Rightarrow> 'w \<times> packet res" where
  "run_once C p dl w =
     (if cs_has_workflow C (action (header p)) then run_workflow (cs_engine C) p dl w
      else run_dispatch (cs_dispatcher C) p dl w)"

definition exec_run :: "'w collaborators \<Rightarrow> running \<Rightarrow> 'w \<Rightarrow> 'w \<times> packet res" where
  "exec_run C r w =
     retry_run (run_policy r) (Some (run_deadline r)) (cs_clock C) (cs_sleep C)
       (run_once C (run_packet r) (run_deadline r)) w"

text \<open>
  \<open>wait_for\<close>: \<open>ended\<close> is what ended the wait early, if anything did: the timeout or the
  cancellation of the caller. The collaborator that is then cancelled is one whose call
  answers with a cancellation; what it did to the world until then stays done.
\<close>

definition wait_for :: "pyclass option \<Rightarrow> packet res \<Rightarrow> packet res" where
  "wait_for ended r = (case ended of None \<Rightarrow> r | Some c \<Rightarrow> raise c [])"

definition execute ::
  "sdk \<Rightarrow> log_context \<Rightarrow> readings \<Rightarrow> int \<Rightarrow> 'w collaborators \<Rightarrow> pyclass option \<Rightarrow> packet res \<Rightarrow>
     exec_service \<Rightarrow> 'w \<Rightarrow> exec_service \<times> 'w \<times> packet res" where
  "execute S c t queue_depth C ended validated s w =
     (case exec_begin S c t queue_depth s validated of
        (s1, Inl e) \<Rightarrow> (s1, w, Inl e)
      | (s1, Inr (Answered q)) \<Rightarrow> (s1, w, Inr q)
      | (s1, Inr (Running r)) \<Rightarrow>
          (case exec_run C r w of
             (w', outcome) \<Rightarrow>
               (case exec_settle S c t s1 r (wait_for ended outcome) of (s2, res) \<Rightarrow> (s2, w', res))))"

section \<open>What each piece leaves alone\<close>

lemma exec_log_sel [simp]:
  "ex_in_flight (exec_log c ev p x s) = ex_in_flight s" "ex_metrics (exec_log c ev p x s) = ex_metrics s"
  "ex_load (exec_log c ev p x s) = ex_load s" "ex_idempotency (exec_log c ev p x s) = ex_idempotency s"
  "ex_replay (exec_log c ev p x s) = ex_replay s" "ex_dlq (exec_log c ev p x s) = ex_dlq s"
  "ex_breaker (exec_log c ev p x s) = ex_breaker s" "ex_retry (exec_log c ev p x s) = ex_retry s"
  by (simp_all add: exec_log_def)

lemma metrics_sel [simp]:
  "m_in_flight (record_request m a st) = m_in_flight m"
  "m_in_flight (record_dispatch m a g st) = m_in_flight m"
  "m_in_flight (observe_execution_latency m a x) = m_in_flight m"
  by (simp_all add: record_request_def record_dispatch_def observe_execution_latency_def)

lemma exec_failed_sel [simp]:
  "ex_in_flight (exec_failed c q a e s) = ex_in_flight s"
  "m_in_flight (ex_metrics (exec_failed c q a e s)) = m_in_flight (ex_metrics s)"
  "ex_load (exec_failed c q a e s) = ex_load s" "ex_idempotency (exec_failed c q a e s) = ex_idempotency s"
  "ex_replay (exec_failed c q a e s) = ex_replay s" "ex_dlq (exec_failed c q a e s) = ex_dlq s"
  "ex_breaker (exec_failed c q a e s) = ex_breaker s" "ex_retry (exec_failed c q a e s) = ex_retry s"
  by (simp_all add: exec_failed_def Let_def split: option.splits)

lemma exec_count_sel [simp]:
  "ex_in_flight (exec_enter s) = ex_in_flight s + 1" "ex_in_flight (exec_leave s) = ex_in_flight s - 1"
  "m_in_flight (ex_metrics (exec_enter s)) = m_in_flight (ex_metrics s) + 1"
  "m_in_flight (ex_metrics (exec_leave s)) = m_in_flight (ex_metrics s) - 1"
  "ex_load (exec_enter s) = ex_load s" "ex_load (exec_leave s) = ex_load s"
  "ex_idempotency (exec_enter s) = ex_idempotency s" "ex_idempotency (exec_leave s) = ex_idempotency s"
  "ex_replay (exec_enter s) = ex_replay s" "ex_replay (exec_leave s) = ex_replay s"
  "ex_dlq (exec_enter s) = ex_dlq s" "ex_dlq (exec_leave s) = ex_dlq s"
  "ex_breaker (exec_enter s) = ex_breaker s" "ex_breaker (exec_leave s) = ex_breaker s"
  "ex_retry (exec_enter s) = ex_retry s" "ex_retry (exec_leave s) = ex_retry s"
  by (simp_all add: exec_enter_def exec_leave_def increment_in_flight_def decrement_in_flight_def)

lemma before_call_count:
  "before_call b now clock = (b', r) \<Longrightarrow> cb_failure_count b' = cb_failure_count b"
  by (auto simp: before_call_def Let_def split: if_splits option.splits)

lemma exec_admission_sel:
  assumes "exec_admission t depth s p = (s', r)"
  shows "ex_in_flight s' = ex_in_flight s" "ex_metrics s' = ex_metrics s" "ex_load s' = ex_load s"
    "ex_idempotency s' = ex_idempotency s" "ex_replay s' = ex_replay s" "ex_dlq s' = ex_dlq s"
    "ex_retry s' = ex_retry s" "cb_failure_count (ex_breaker s') = cb_failure_count (ex_breaker s)"
    "r = Inr () \<Longrightarrow> 0 \<le> ex_in_flight s \<and> ex_in_flight s < max_in_flight (ex_load s)"
  using assms
  by (auto simp: exec_admission_def Let_def load_shedding.enforce_ok split: prod.splits sum.splits
      dest: before_call_count)

text \<open>A lookup can only drop entries that have expired.\<close>

lemma enforce_shrinks:
  "enforce_idempotency p s now = (s', v) \<Longrightarrow> set (idem_store s') \<subseteq> set (idem_store s)"
  by (auto simp: enforce_idempotency_def get_for_packet_def idem_live_def AList.delete_eq
      split: option.splits if_splits prod.splits)

lemma enforce_answer:
  "enforce_idempotency p s now = (s', Some v) \<Longrightarrow> \<exists>k u. (k, u, v) \<in> set (idem_store s)"
  unfolding enforce_idempotency_def get_for_packet_def idem_live_def
  by (force split: option.splits if_splits dest: map_of_SomeD)

lemma exec_lookup_sel:
  assumes "exec_lookup S c t s p = (s', r)"
  shows "ex_in_flight s' = ex_in_flight s" "m_in_flight (ex_metrics s') = m_in_flight (ex_metrics s)"
    "ex_load s' = ex_load s" "ex_dlq s' = ex_dlq s" "ex_breaker s' = ex_breaker s" "ex_retry s' = ex_retry s"
    "set (idem_store (ex_idempotency s')) \<subseteq> set (idem_store (ex_idempotency s))"
  using assms
  by (auto simp: exec_lookup_def Let_def split: prod.splits option.splits sum.splits dest!: enforce_shrinks)

text \<open>The replay guard is asked exactly when the cache has no answer.\<close>

lemma exec_lookup_replay:
  assumes "exec_lookup S c t s p = (s', r)"
  shows "ex_replay s' = ex_replay s \<and> (\<forall>x. r \<noteq> Inr (Running x)) \<or>
    (\<exists>u. check_and_record (ex_replay s) (packet_id (header p)) (at_replay t) = (ex_replay s', u)
       \<and> (\<forall>x. r = Inr (Running x) \<longrightarrow> u = Inr () \<and> run_packet x = p))"
  using assms
  by (auto simp: exec_lookup_def Let_def rbind_Inr_iff split: prod.splits option.splits sum.splits)

lemma exec_lookup_answer:
  assumes "exec_lookup S c t s p = (s', Inr (Answered q))"
  obtains k u v where "(k, u, v) \<in> set (idem_store (ex_idempotency s))" "sdk_model_validate S v = Inr q"
  using assms
  by (auto simp: exec_lookup_def Let_def rbind_Inr_iff split: prod.splits option.splits sum.splits
      dest!: enforce_answer)

lemma retry_policy_for_cong: "ex_retry s1 = ex_retry s \<Longrightarrow> retry_policy_for s1 p = retry_policy_for s p"
  by (simp add: retry_policy_for_def)

lemma exec_lookup_policy:
  assumes "exec_lookup S c t s p = (s', Inr (Running x))"
  shows "retry_policy_for s p = Inr (run_policy x)"
  using assms
  by (auto simp: exec_lookup_def Let_def rbind_Inr_iff
      retry_policy_for_cong[of "s\<lparr>ex_idempotency := i, ex_replay := g\<rparr>" s for i g]
      split: prod.splits option.splits sum.splits)

text \<open>The three ways a call begins.\<close>

lemma exec_begin_cases:
  assumes "exec_begin S c t depth s validated = (s', r)"
  obtains (invalid) e where "validated = Inl e" "r = Inl e" "s' = exec_failed c None ''unknown'' e s"
  | (refused) p e s1 where "validated = Inr p" "r = Inl e"
      "exec_admission t depth (exec_log c ''gate.ingress'' p (trace_field p (at_trace t)) s) p = (s1, Inl e)"
      "s' = exec_failed c (Some p) (action (header p)) e s1"
  | (admitted) p s1 s2 x where "validated = Inr p" "r = x"
      "exec_admission t depth (exec_log c ''gate.ingress'' p (trace_field p (at_trace t)) s) p = (s1, Inr ())"
      "exec_lookup S c t (exec_enter s1) p = (s2, x)"
      "s' = (case x of Inl e \<Rightarrow> exec_leave (exec_failed c (Some p) (action (header p)) e s2)
         | Inr (Answered q) \<Rightarrow> exec_leave s2 | Inr (Running y) \<Rightarrow> s2)"
  using assms
  by (auto simp: exec_begin_def split: sum.splits prod.splits progress.splits)

lemma exec_begin_keeps:
  assumes "exec_begin S c t depth s validated = (s', r)"
  shows "ex_in_flight s' = ex_in_flight s + (case r of Inr (Running x) \<Rightarrow> 1 | _ \<Rightarrow> 0)
    \<and> m_in_flight (ex_metrics s') = m_in_flight (ex_metrics s) + (case r of Inr (Running x) \<Rightarrow> 1 | _ \<Rightarrow> 0)
    \<and> ex_load s' = ex_load s \<and> ex_dlq s' = ex_dlq s \<and> ex_retry s' = ex_retry s
    \<and> cb_failure_count (ex_breaker s') = cb_failure_count (ex_breaker s)
    \<and> set (idem_store (ex_idempotency s')) \<subseteq> set (idem_store (ex_idempotency s))
    \<and> (\<forall>x. r = Inr (Running x) \<longrightarrow> 0 \<le> ex_in_flight s \<and> ex_in_flight s < max_in_flight (ex_load s))"
  using assms
proof (cases rule: exec_begin_cases)
  case (refused p e s1)
  with exec_admission_sel[OF refused(3)] show ?thesis by simp
next
  case (admitted p s1 s2 x)
  note keeps = exec_admission_sel[OF admitted(3)] exec_lookup_sel[OF admitted(4)]
  show ?thesis
  proof (cases x)
    case (Inr y)
    with admitted keeps show ?thesis by (cases y) simp_all
  qed (use admitted keeps in simp)
qed simp

lemma exec_settle_keeps:
  assumes "exec_settle S c t s r outcome = (s', res)"
  shows "ex_in_flight s' = ex_in_flight s - 1 \<and> m_in_flight (ex_metrics s') = m_in_flight (ex_metrics s) - 1
    \<and> ex_load s' = ex_load s \<and> ex_replay s' = ex_replay s \<and> ex_retry s' = ex_retry s"
  using assms
  by (auto simp: exec_settle_def exec_completed_def Let_def split: sum.splits if_splits prod.splits)

text \<open>What a settled call leaves in the cache: at most the answer of a terminal success.\<close>

lemma exec_settle_cache:
  assumes "exec_settle S c t s r outcome = (s', res)"
    and "(k, u, v) \<in> set (idem_store (ex_idempotency s'))"
  shows "(k, u, v) \<in> set (idem_store (ex_idempotency s)) \<or>
    (\<exists>result. outcome = Inr result \<and> is_terminal_success result \<and> v = sdk_dump S result)"
  using assms set_dset_subset
  by (fastforce simp: exec_settle_def exec_completed_def set_for_packet_def idem_set_def Let_def
      split: sum.splits if_splits prod.splits option.splits)

section \<open>Interleaved calls\<close>

record exec_system =
  sy_service :: exec_service
  sy_running :: "running list"
  sy_now :: int
  sy_started :: "(string \<times> int) list"

text \<open>
  The calls of one process: any number are between their two halves, and every wait
  may end in any way. \<open>sy_started\<close> records, latest first, the packets whose execution
  began; the wall clock does not run backwards.
\<close>

inductive exec_reach :: "sdk \<Rightarrow> exec_system \<Rightarrow> bool" for S where
  Start: "exec_service_init l ttl m = Inr s \<Longrightarrow>
    exec_reach S \<lparr>sy_service = s\<lparr>ex_rate := rate, ex_breaker := breaker, ex_load := load, ex_back := bp\<rparr>,
      sy_running = [], sy_now = now, sy_started = []\<rparr>"
| Begin: "exec_reach S sys \<Longrightarrow> sy_now sys \<le> at_replay t \<Longrightarrow>
    exec_begin S c t depth (sy_service sys) validated = (s', r) \<Longrightarrow>
    exec_reach S (sys\<lparr>sy_service := s', sy_now := at_replay t,
      sy_running := (case r of Inr (Running x) \<Rightarrow> x # sy_running sys | _ \<Rightarrow> sy_running sys),
      sy_started := (case r of Inr (Running x) \<Rightarrow>
        (packet_id (header (run_packet x)), at_replay t) # sy_started sys | _ \<Rightarrow> sy_started sys)\<rparr>)"
| Settle: "exec_reach S sys \<Longrightarrow> x \<in> set (sy_running sys) \<Longrightarrow>
    exec_settle S c t (sy_service sys) x outcome = (s', res) \<Longrightarrow>
    exec_reach S (sys\<lparr>sy_service := s', sy_running := remove1 x (sy_running sys)\<rparr>)"

definition exec_counted :: "exec_system \<Rightarrow> bool" where
  "exec_counted sys \<longleftrightarrow>
     ex_in_flight (sy_service sys) = int (length (sy_running sys))
     \<and> m_in_flight (ex_metrics (sy_service sys)) = int (length (sy_running sys))
     \<and> (sy_running sys = [] \<or> int (length (sy_running sys)) \<le> max_in_flight (ex_load (sy_service sys)))
     \<and> 1 \<le> max_attempts (ex_retry (sy_service sys))"

lemma exec_init_sel:
  assumes "exec_service_init l ttl m = Inr s"
  shows "ex_in_flight s = 0" "ex_metrics s = metrics_init" "rg_window (ex_replay s) = 300000000"
    "rg_seen (ex_replay s) = []" "idem_store (ex_idempotency s) = []" "max_attempts (ex_retry s) = 3"
  using assms
  by (auto simp: exec_service_init_def rbind_Inr_iff replay_guard_init_def idempotency_init_def
      retry_policy_init_def replay_safe_max_attempts_def split: if_splits)

lemma exec_counted_reach: "exec_reach S sys \<Longrightarrow> exec_counted sys"
proof (induction rule: exec_reach.induct)
  case (Start l ttl m s)
  then show ?case using exec_init_sel[OF Start] by (simp add: exec_counted_def metrics_init_def)
next
  case (Begin sys t c depth validated s' r)
  from exec_begin_keeps[OF Begin.hyps(3)] Begin.IH show ?case
    by (auto simp: exec_counted_def split: sum.splits progress.splits)
next
  case (Settle sys x c t outcome s' res)
  have "Suc 0 \<le> length (sy_running sys)" using Settle.hyps(2) by (cases "sy_running sys") auto
  then have "int (length (remove1 x (sy_running sys))) = int (length (sy_running sys)) - 1"
    using Settle.hyps(2) by (simp add: length_remove1 of_nat_diff)
  with exec_settle_keeps[OF Settle.hyps(3)] Settle.IH show ?case
    by (auto simp: exec_counted_def)
qed

text \<open>
  However calls interleave and however each of them ends, worker answers, timeouts,
  failures of the dead-letter queue and cancellations included, the in-flight counter
  and the in-flight gauge are the number of calls that are waiting, and load shedding
  keeps that number within its limit.
\<close>

theorem in_flight_is_exact:
  assumes "exec_reach S sys"
  shows "ex_in_flight (sy_service sys) = int (length (sy_running sys))
    \<and> m_in_flight (ex_metrics (sy_service sys)) = int (length (sy_running sys))
    \<and> (sy_running sys = [] \<or> int (length (sy_running sys)) \<le> max_in_flight (ex_load (sy_service sys)))"
  using exec_counted_reach[OF assms] by (simp add: exec_counted_def)

section \<open>No packet runs twice\<close>

text \<open>What the replay guard remembers of the calls that began.\<close>

definition replay_covers :: "exec_system \<Rightarrow> bool" where
  "replay_covers sys \<longleftrightarrow>
     rg_window (ex_replay (sy_service sys)) = 300000000 \<and> dwf (rg_seen (ex_replay (sy_service sys)))
     \<and> (\<forall>(i, u) \<in> set (sy_started sys). u \<le> sy_now sys \<and>
          (sy_now sys - u \<le> 300000000 \<longrightarrow>
             (\<exists>u'. dget (rg_seen (ex_replay (sy_service sys))) i = Some u' \<and> u \<le> u')))"

fun spaced :: "int \<Rightarrow> (string \<times> int) list \<Rightarrow> bool" where
  "spaced w [] = True"
| "spaced w ((i, u) # xs) = ((\<forall>(j, v) \<in> set xs. j = i \<longrightarrow> w < u - v) \<and> spaced w xs)"

text \<open>One call to the guard keeps what it knows of the past, at the time of the call.\<close>

lemma check_and_record_covers:
  assumes "check_and_record g pid now = (g', r)" and "dwf (rg_seen g)"
    and "dget (rg_seen g) i = Some u'" and "now - u' \<le> rg_window g"
  shows "\<exists>u''. dget (rg_seen g') i = Some u'' \<and> min u' now \<le> u''"
  using assms
  by (auto simp: check_and_record_step rg_record_def dget_rg_expire split: option.splits if_splits)

lemma check_and_record_sel:
  assumes "check_and_record g pid now = (g', r)" and "dwf (rg_seen g)"
  shows "rg_window g' = rg_window g \<and> dwf (rg_seen g')
    \<and> (r = Inr () \<longrightarrow> dget (rg_seen g') pid = Some now
         \<and> (\<forall>u. dget (rg_seen g) pid = Some u \<longrightarrow> rg_window g < now - u))"
  using assms
  by (auto simp: check_and_record_step rg_record_def rg_view_def split: option.splits if_splits)

lemma exec_begin_replay:
  assumes "exec_begin S c t depth s validated = (s', r)"
  shows "ex_replay s' = ex_replay s \<and> (\<forall>x. r \<noteq> Inr (Running x)) \<or>
    (\<exists>pid u. check_and_record (ex_replay s) pid (at_replay t) = (ex_replay s', u)
       \<and> (\<forall>x. r = Inr (Running x) \<longrightarrow> u = Inr () \<and> packet_id (header (run_packet x)) = pid))"
  using assms
proof (cases rule: exec_begin_cases)
  case (refused p e s1)
  with exec_admission_sel(5)[OF refused(3)] show ?thesis by simp
next
  case (admitted p s1 s2 x)
  have same: "ex_replay s' = ex_replay s2" using admitted(5) by (auto split: sum.splits progress.splits)
  have "ex_replay (exec_enter s1) = ex_replay s" using exec_admission_sel(5)[OF admitted(3)] by simp
  with exec_lookup_replay[OF admitted(4)] same admitted(2) show ?thesis by auto
qed simp

lemma asked_keeps_seen:
  assumes "check_and_record g pid now = (g', v)" and "dwf (rg_seen g)" and "u \<le> now"
    and "\<exists>u'. dget (rg_seen g) i = Some u' \<and> u \<le> u'" and "now - u \<le> rg_window g"
  shows "\<exists>u'. dget (rg_seen g') i = Some u' \<and> u \<le> u'"
proof -
  from assms(4) obtain u' where u': "dget (rg_seen g) i = Some u'" "u \<le> u'" by blast
  with assms(5) have "now - u' \<le> rg_window g" by simp
  from check_and_record_covers[OF assms(1,2) u'(1) this] u'(2) assms(3) show ?thesis by fastforce
qed

lemma accepted_is_far:
  assumes "check_and_record g pid now = (g', Inr ())" and "dwf (rg_seen g)"
    and "now - u \<le> rg_window g \<Longrightarrow> \<exists>u'. dget (rg_seen g) pid = Some u' \<and> u \<le> u'"
  shows "rg_window g < now - u"
  using check_and_record_sel[OF assms(1,2)] assms(3) by (force simp: not_less)

text \<open>What the guard knows of a call that began, at a later time.\<close>

lemma replay_covers_seen:
  assumes "replay_covers sys" and "(i, u) \<in> set (sy_started sys)" and "sy_now sys \<le> now" and "now - u \<le> 300000000"
  shows "u \<le> now \<and> (\<exists>u'. dget (rg_seen (ex_replay (sy_service sys))) i = Some u' \<and> u \<le> u')"
  using assms by (fastforce simp: replay_covers_def)

lemma begin_covers:
  assumes cov: "replay_covers sys" and time: "sy_now sys \<le> at_replay t"
    and b: "exec_begin S c t depth (sy_service sys) validated = (s', r)"
  shows "replay_covers (sys\<lparr>sy_service := s', sy_now := at_replay t\<rparr>)"
proof -
  let ?g = "ex_replay (sy_service sys)" and ?w = "300000000 :: int"
  have g: "rg_window ?g = ?w" "dwf (rg_seen ?g)" and past: "\<And>i u. (i, u) \<in> set (sy_started sys) \<Longrightarrow> u \<le> at_replay t"
    using cov time by (auto simp: replay_covers_def)
  note seen = replay_covers_seen[OF cov _ time]
  from exec_begin_replay[OF b] consider (same) "ex_replay s' = ?g"
    | (asked) pid v where "check_and_record ?g pid (at_replay t) = (ex_replay s', v)" by blast
  then show ?thesis
  proof cases
    case same
    then show ?thesis using g past seen by (fastforce simp: replay_covers_def)
  next
    case asked
    have "\<exists>u'. dget (rg_seen (ex_replay s')) i = Some u' \<and> u \<le> u'"
      if "(i, u) \<in> set (sy_started sys)" "at_replay t - u \<le> ?w" for i u
      using asked_keeps_seen[OF asked g(2), of u i] seen[OF that] that(2) g(1) by simp
    with check_and_record_sel[OF asked g(2)] g(1) past show ?thesis by (auto simp: replay_covers_def)
  qed
qed

lemma begin_starts:
  assumes cov: "replay_covers sys" and time: "sy_now sys \<le> at_replay t"
    and b: "exec_begin S c t depth (sy_service sys) validated = (s', Inr (Running x))"
  shows "dget (rg_seen (ex_replay s')) (packet_id (header (run_packet x))) = Some (at_replay t)"
    and "(packet_id (header (run_packet x)), u) \<in> set (sy_started sys) \<Longrightarrow> 300000000 < at_replay t - u"
proof -
  let ?g = "ex_replay (sy_service sys)"
  have g: "rg_window ?g = 300000000" "dwf (rg_seen ?g)" using cov by (simp_all add: replay_covers_def)
  have asked: "check_and_record ?g (packet_id (header (run_packet x))) (at_replay t) = (ex_replay s', Inr ())"
    using exec_begin_replay[OF b] by auto
  from check_and_record_sel[OF asked g(2)]
  show "dget (rg_seen (ex_replay s')) (packet_id (header (run_packet x))) = Some (at_replay t)" by simp
  show "300000000 < at_replay t - u" if "(packet_id (header (run_packet x)), u) \<in> set (sy_started sys)"
    using accepted_is_far[OF asked g(2), of u] replay_covers_seen[OF cov that time] g(1) by simp
qed

lemma replay_covers_reach:
  "exec_reach S sys \<Longrightarrow> replay_covers sys \<and> spaced 300000000 (sy_started sys)"
proof (induction rule: exec_reach.induct)
  case (Start l ttl m s)
  then show ?case using exec_init_sel[OF Start] by (simp add: replay_covers_def)
next
  case (Begin sys t c depth validated s' r)
  then have cov: "replay_covers sys" by simp
  note keeps = begin_covers[OF cov Begin.hyps(2,3)]
  show ?case
  proof (cases "\<exists>x. r = Inr (Running x)")
    case True
    then obtain x where x: "r = Inr (Running x)" ..
    from keeps begin_starts[OF cov Begin.hyps(2) Begin.hyps(3)[unfolded x]] Begin.IH x
    show ?thesis by (auto simp: replay_covers_def)
  next
    case False
    with keeps Begin.IH show ?thesis by (auto simp: replay_covers_def split: sum.splits progress.splits)
  qed
next
  case (Settle sys x c t outcome s' res)
  with exec_settle_keeps[OF Settle.hyps(3)] show ?case by (simp add: replay_covers_def)
qed

text \<open>The effective attempt budget is one, whatever the template allows.\<close>

lemma retry_policy_single:
  assumes "retry_policy_for s p = Inr policy" and "1 \<le> max_attempts (ex_retry s)"
  shows "max_attempts policy = 1"
  using assms every_action_is_attempted_once
  by (auto simp: retry_policy_for_def retry_policy_init_def Let_def min_def split: if_splits)

lemma exec_begin_single:
  assumes "exec_begin S c t depth s validated = (s', Inr (Running x))" and "1 \<le> max_attempts (ex_retry s)"
  shows "max_attempts (run_policy x) = 1"
  using assms(1)
proof (cases rule: exec_begin_cases)
  case (admitted p s1 s2 y)
  have "ex_retry (exec_enter s1) = ex_retry s" using exec_admission_sel(7)[OF admitted(3)] by simp
  with exec_lookup_policy[of S c t "exec_enter s1" p s2 x] admitted assms(2) retry_policy_single
  show ?thesis by metis
qed simp_all

lemma running_single:
  "exec_reach S sys \<Longrightarrow> x \<in> set (sy_running sys) \<Longrightarrow> max_attempts (run_policy x) = 1"
proof (induction arbitrary: x rule: exec_reach.induct)
  case (Begin sys t c depth validated s' r)
  have "1 \<le> max_attempts (ex_retry (sy_service sys))"
    using exec_counted_reach[OF Begin.hyps(1)] by (simp add: exec_counted_def)
  with Begin exec_begin_single show ?case by (auto split: sum.splits progress.splits)
next
  case (Settle sys y c t outcome s' res)
  then show ?case using notin_set_remove1 by fastforce
qed simp

text \<open>
  C9. However calls interleave, two executions of one packet id begin more than the
  replay window of 300 seconds apart, and the execution that begins asks its worker or
  its workflow once: the retry loop around it never repeats the call.
\<close>

theorem packet_runs_once_per_window:
  assumes "exec_reach S sys"
  shows "spaced 300000000 (sy_started sys)
    \<and> (\<forall>x \<in> set (sy_running sys). exec_run C x w = run_once C (run_packet x) (run_deadline x) w)"
  using replay_covers_reach[OF assms] running_single[OF assms] by (simp add: exec_run_def retry_run_single)

section \<open>Only successes are served again\<close>

definition cache_of_successes :: "sdk \<Rightarrow> exec_system \<Rightarrow> bool" where
  "cache_of_successes S sys \<longleftrightarrow>
     (\<forall>(k, u, v) \<in> set (idem_store (ex_idempotency (sy_service sys))).
        \<exists>result. is_terminal_success result \<and> v = sdk_dump S result)"

lemma cache_of_successes_reach: "exec_reach S sys \<Longrightarrow> cache_of_successes S sys"
proof (induction rule: exec_reach.induct)
  case (Start l ttl m s)
  then show ?case using exec_init_sel[OF Start] by (simp add: cache_of_successes_def)
next
  case (Begin sys t c depth validated s' r)
  then show ?case using exec_begin_keeps[OF Begin.hyps(3)] by (auto simp: cache_of_successes_def)
next
  case (Settle sys x c t outcome s' res)
  then show ?case using exec_settle_cache[OF Settle.hyps(3)] by (fastforce simp: cache_of_successes_def)
qed

text \<open>What the SDK documents of its codec: decoding a dump gives back the type and the journal.\<close>

definition codec_ok :: "sdk \<Rightarrow> bool" where
  "codec_ok S = (\<forall>p q. sdk_model_validate S (sdk_dump S p) = Inr q \<longrightarrow>
     packet_type (header q) = packet_type (header p) \<and> hop_trace q = hop_trace p)"

text \<open>
  C14. A cached answer is always the answer of an earlier terminal success: neither a
  worker's failure packet nor a response whose response hop reports failure is ever
  served from the cache, so a retry after a failure is executed afresh.
\<close>

theorem cached_answers_are_successes:
  assumes "exec_reach S sys" and "codec_ok S"
    and "exec_begin S c t depth (sy_service sys) validated = (s', Inr (Answered q))"
  shows "is_terminal_success q \<and> packet_type (header q) \<noteq> ''failure''"
  using assms(3)
proof (cases rule: exec_begin_cases)
  case (admitted p s1 s2 x)
  then have "exec_lookup S c t (exec_enter s1) p = (s2, Inr (Answered q))" by simp
  then obtain k u v where kv: "(k, u, v) \<in> set (idem_store (ex_idempotency (sy_service sys)))"
    and q: "sdk_model_validate S v = Inr q"
    by (rule exec_lookup_answer) (use exec_admission_sel(4)[OF admitted(3)] in simp)
  from cache_of_successes_reach[OF assms(1)] kv obtain result
    where "is_terminal_success result" "v = sdk_dump S result" by (auto simp: cache_of_successes_def)
  with q assms(2) have "is_terminal_success q" by (auto simp: codec_ok_def is_terminal_success_def)
  then show ?thesis by (auto simp: is_terminal_success_def split: if_splits)
qed simp_all

text \<open>
  A request that no worker sees, refused by validation, admission control or the
  replay guard or answered from the cache, leaves the in-flight count, the dead-letter
  queue and the breaker's failure count as they were and adds nothing to the cache.
\<close>

theorem unexecuted_requests_leave_no_trace:
  assumes "exec_begin S c t depth s validated = (s', r)" and "\<forall>x. r \<noteq> Inr (Running x)"
  shows "ex_in_flight s' = ex_in_flight s \<and> m_in_flight (ex_metrics s') = m_in_flight (ex_metrics s)
    \<and> ex_dlq s' = ex_dlq s \<and> cb_failure_count (ex_breaker s') = cb_failure_count (ex_breaker s)
    \<and> set (idem_store (ex_idempotency s')) \<subseteq> set (idem_store (ex_idempotency s))"
  using exec_begin_keeps[OF assms(1)] assms(2) by (auto split: sum.splits progress.splits)

section \<open>Examples\<close>

definition enc_hop :: "hop \<Rightarrow> pyval" where
  "enc_hop h = PyList [PyStr (hop_node h), PyStr (hop_action h), PyStr (direction h), PyStr (status h),
     opt_str (hop_target h)]"

fun dec_hop :: "pyval \<Rightarrow> hop res" where
  "dec_hop (PyList [PyStr n, PyStr a, PyStr d, PyStr st, g]) =
     Inr \<lparr>hop_node = n, hop_action = a, direction = d, status = st,
          hop_target = (case g of PyStr x \<Rightarrow> Some x | _ \<Rightarrow> None)\<rparr>"
| "dec_hop v = raise ValueError ''hop''"

fun dec_packet :: "pyval \<Rightarrow> packet res" where
  "dec_packet (PyList [PyStr ty, PyList hops]) =
     rbind (rmap dec_hop hops) (\<lambda>hs.
       let p = example_packet ''match''
       in Inr (p\<lparr>header := (header p)\<lparr>packet_type := ty\<rparr>, hop_trace := hs\<rparr>))"
| "dec_packet v = raise ValueError ''packet''"

definition codec_sdk :: sdk where
  "codec_sdk = (ref_sdk dec_packet)\<lparr>sdk_dump := \<lambda>p.
     PyList [PyStr (packet_type (header p)), PyList (map enc_hop (hop_trace p))]\<rparr>"

lemma dec_enc_hops: "rmap dec_hop (map enc_hop hs) = Inr hs"
  by (induction hs) (auto simp: enc_hop_def opt_str_def split: option.splits)

lemma codec_sdk_ok: "codec_ok codec_sdk"
  by (auto simp: codec_ok_def codec_sdk_def dec_enc_hops Let_def)

definition reading_at :: "int \<Rightarrow> readings" where
  "reading_at n = \<lparr>at_start = of_int n, at_rate = of_int n, at_breaker = of_int n, at_lookup = of_int n,
     at_replay = n, at_deadline = of_int n, at_trace = ''now'', at_end = of_int n\<rparr>"

definition sample_answer :: packet where
  "sample_answer =
     (let p = example_packet ''match''
      in p\<lparr>header := (header p)\<lparr>packet_type := ''response''\<rparr>\<rparr>)"

definition sample_exec :: exec_service where
  "sample_exec =
     \<lparr>ex_local_node = ''gate'', ex_idempotency = \<lparr>idem_ttl = 86400, idem_store = []\<rparr>,
      ex_replay = \<lparr>rg_window = 300000000, rg_seen = []\<rparr>,
      ex_retry = \<lparr>max_attempts = 3, delay_seconds = 3602879701896397 / 36028797018963968,
        backoff_multiplier = 1, retryable_exceptions = [TimeoutError]\<rparr>,
      ex_timeout = \<lparr>default_timeout_ms = 30000, response_margin_ms = 500\<rparr>,
      ex_rate = \<lparr>rl_max_requests = 1000000, rl_window_seconds = 1, rl_counters = []\<rparr>,
      ex_breaker = \<lparr>cb_failure_threshold = 1000000, cb_recovery_timeout = 30, cb_state = Closed,
        cb_failure_count = 0, cb_opened_at = None\<rparr>,
      ex_load = \<lparr>max_in_flight = 1000000\<rparr>, ex_back = \<lparr>max_queue_depth = 1000000\<rparr>,
      ex_dlq = \<lparr>dlq_entries = [], dlq_max_entries = 1000\<rparr>, ex_in_flight = 0,
      ex_metrics = metrics_init, ex_log = []\<rparr>"

lemma sample_exec_init: "exec_service_init ''gate'' 86400 500 = Inr sample_exec"
  by code_simp

lemma sample_started: "exec_reach S \<lparr>sy_service = sample_exec, sy_running = [], sy_now = 0, sy_started = []\<rparr>"
  using exec_reach.Start[OF sample_exec_init, where rate = "ex_rate sample_exec" and breaker = "ex_breaker sample_exec"
      and load = "ex_load sample_exec" and bp = "ex_back sample_exec" and now = 0 and S = S] by simp

text \<open>One packet begun, its answer recorded, and the same packet sent again.\<close>

definition sample_run :: "exec_service \<times> running" where
  "sample_run =
     (case exec_begin codec_sdk None (reading_at 0) 0 sample_exec (Inr (example_packet ''match'')) of
        (s, Inr (Running x)) \<Rightarrow> (s, x) | (s, _) \<Rightarrow> undefined)"

lemma sample_begin:
  "exec_begin codec_sdk None (reading_at 0) 0 sample_exec (Inr (example_packet ''match''))
     = (fst sample_run, Inr (Running (snd sample_run)))"
  "packet_id (header (run_packet (snd sample_run))) = ''p''"
proof -
  have "case exec_begin codec_sdk None (reading_at 0) 0 sample_exec (Inr (example_packet ''match'')) of
      (s, Inr (Running x)) \<Rightarrow> packet_id (header (run_packet x)) = ''p'' | _ \<Rightarrow> False" by code_simp
  then show "exec_begin codec_sdk None (reading_at 0) 0 sample_exec (Inr (example_packet ''match''))
      = (fst sample_run, Inr (Running (snd sample_run)))" "packet_id (header (run_packet (snd sample_run))) = ''p''"
    by (auto simp: sample_run_def split: prod.splits sum.splits progress.splits)
qed

lemma sample_again:
  "case exec_begin codec_sdk None (reading_at 1) 0
          (fst (exec_settle codec_sdk None (reading_at 0) (fst sample_run) (snd sample_run) (Inr sample_answer)))
          (Inr (example_packet ''match'')) of
     (s, Inr (Answered q)) \<Rightarrow> packet_type (header q) = ''response'' | _ \<Rightarrow> False"
  unfolding sample_run_def by code_simp

lemma sample_running:
  "exec_reach codec_sdk \<lparr>sy_service = fst sample_run, sy_running = [snd sample_run], sy_now = 0,
      sy_started = [(''p'', 0)]\<rparr>"
  using exec_reach.Begin[OF sample_started[of codec_sdk], of "reading_at 0" None 0 "Inr (example_packet ''match'')"
    "fst sample_run" "Inr (Running (snd sample_run))"] sample_begin by (simp add: reading_at_def)

theorem in_flight_is_exact_witness:
  "\<exists>sys. exec_reach codec_sdk sys \<and> ex_in_flight (sy_service sys) = 1"
  using sample_running in_flight_is_exact[OF sample_running] by fastforce

theorem packet_runs_once_per_window_witness:
  "\<exists>sys x. exec_reach codec_sdk sys \<and> x \<in> set (sy_running sys) \<and> sy_started sys = [(''p'', 0)]
     \<and> (\<forall>C (w :: nat). exec_run C x w = run_once C (run_packet x) (run_deadline x) w)"
  using sample_running packet_runs_once_per_window[OF sample_running] by fastforce

theorem cached_answers_are_successes_witness:
  "\<exists>sys s' q. exec_reach codec_sdk sys
     \<and> exec_begin codec_sdk None (reading_at 1) 0 (sy_service sys) (Inr (example_packet ''match'')) = (s', Inr (Answered q))
     \<and> is_terminal_success q"
proof -
  let ?s = "fst sample_run" and ?x = "snd sample_run"
  obtain s2 res where settle: "exec_settle codec_sdk None (reading_at 0) ?s ?x (Inr sample_answer) = (s2, res)"
    by fastforce
  from exec_reach.Settle[OF sample_running, of ?x None "reading_at 0" "Inr sample_answer" s2 res] settle
  have r: "exec_reach codec_sdk \<lparr>sy_service = s2, sy_running = [], sy_now = 0, sy_started = [(''p'', 0)]\<rparr>" by simp
  from sample_again settle obtain s' q where
    "exec_begin codec_sdk None (reading_at 1) 0 s2 (Inr (example_packet ''match'')) = (s', Inr (Answered q))"
    by (auto split: prod.splits sum.splits progress.splits)
  then show ?thesis using r cached_answers_are_successes[OF r codec_sdk_ok, of None "reading_at 1" 0] by fastforce
qed

theorem unexecuted_requests_leave_no_trace_witness:
  "\<exists>s s' e. exec_service_init ''gate'' 86400 500 = Inr s
     \<and> exec_begin codec_sdk None (reading_at 0) 0 s (raise IngressValidationError ''bad'') = (s', Inl e)
     \<and> ex_in_flight s' = ex_in_flight s"
proof -
  have "exec_begin codec_sdk None (reading_at 0) 0 sample_exec (raise IngressValidationError ''bad'') =
      (exec_failed None None ''unknown'' (mk_exn IngressValidationError ''bad'') sample_exec, raise IngressValidationError ''bad'')"
    by (simp add: exec_begin_def)
  with unexecuted_requests_leave_no_trace[OF this] sample_exec_init show ?thesis by fastforce
qed

end
