(* ===== verification/Http_Errors.thy ===== *)
theory Http_Errors
  imports Exceptions
begin

text \<open>
  The translation of Gate's exceptions to HTTP responses, \<open>api/errors.py\<close>: one
  chain of \<open>isinstance\<close> tests, most specific first, in the order of the source.
  A response body is a dictionary from field names to strings or null.
\<close>

record http_exception =
  status_code :: nat
  detail :: "(string \<times> string option) list"

definition internal_error_detail :: "(string \<times> string option) list" where
  "internal_error_detail =
     [(''code'', Some ''internal_error''), (''message'', Some ''internal server error'')]"

definition admission_errors :: "pyclass list" where
  "admission_errors =
     [RateLimitExceededError, LoadShedError, BackpressureExceededError, CircuitBreakerOpenError]"

definition http_error :: "nat \<Rightarrow> string \<Rightarrow> exn \<Rightarrow> http_exception" where
  "http_error status code e =
     \<lparr>status_code = status, detail = [(''code'', Some code), (''message'', Some (exn_msg e))]\<rparr>"

definition http_error_at :: "nat \<Rightarrow> string \<Rightarrow> exn \<Rightarrow> http_exception" where
  "http_error_at status code e =
     \<lparr>status_code = status,
      detail = [(''code'', Some code), (''message'', Some (exn_msg e)), (''node'', exn_node e)]\<rparr>"

definition internal_error :: http_exception where
  "internal_error = \<lparr>status_code = 500, detail = internal_error_detail\<rparr>"

definition to_http_exception :: "exn \<Rightarrow> http_exception" where
  "to_http_exception e =
     (if isinstance e IngressAuthorizationError then http_error 403 ''action_not_permitted'' e
      else if isinstance e IngressValidationError then http_error 400 ''invalid_transport_packet'' e
      else if list_ex (isinstance e) admission_errors then http_error 429 ''admission_rejected'' e
      else if isinstance e RoutingPolicyError then http_error 403 ''routing_policy_violation'' e
      else if isinstance e PermissionError then http_error 401 ''admin_auth_failed'' e
      else if isinstance e NoHealthyNodeError then http_error 503 ''no_healthy_node'' e
      else if isinstance e LookupError then http_error 404 ''not_found'' e
      else if isinstance e TimeoutError then http_error 504 ''execution_timeout'' e
      else if isinstance e GateDispatchAuthorityError \<or> isinstance e GateDispatchConfigurationError
        then internal_error
      else if isinstance e GateDispatchSecurityError
        then (if exn_direction e = ''outbound'' then internal_error
              else http_error_at 502 ''worker_response_untrusted'' e)
      else if isinstance e GateDispatchError then http_error_at 502 ''worker_transport_failed'' e
      else if isinstance e ValueError then http_error 400 ''invalid_request'' e
      else internal_error)"

section \<open>Lemmas\<close>

lemmas http_error_defs = http_error_def http_error_at_def internal_error_def internal_error_detail_def

text \<open>The exceptions whose handling discloses nothing but the constant body.\<close>

definition gate_fault :: "exn \<Rightarrow> bool" where
  "gate_fault e =
     (case exn_class e of
        GateDispatchSecurityError \<Rightarrow> exn_direction e = ''outbound''
      | c \<Rightarrow> List.member
          [GateDispatchAuthorityError, GateDispatchConfigurationError, RuntimeError, TypeError,
           AssertionError, ZeroDivisionError, NodeLimitExceededError, SyntaxError, PyException,
           BaseException, CancelledError, OtherException] c)"

lemma to_http_internal_iff: "to_http_exception e = internal_error \<longleftrightarrow> gate_fault e"
  by (cases "exn_class e")
    (simp_all add: to_http_exception_def gate_fault_def isinstance_def admission_errors_def
      http_error_defs)

lemma status_500_iff: "status_code (to_http_exception e) = 500 \<longleftrightarrow> gate_fault e"
  by (cases "exn_class e")
    (simp_all add: to_http_exception_def gate_fault_def isinstance_def admission_errors_def
      http_error_defs)

text \<open>
  A fault of Gate itself is answered with one fixed body: the response is a
  500 exactly for the exceptions that are Gate's own faults, and every 500
  carries the same detail, so two internal failures cannot be told apart by
  what they disclose, whatever their messages.
\<close>

theorem internal_faults_are_opaque:
  "(status_code (to_http_exception e) = 500 \<longleftrightarrow> gate_fault e) \<and>
   (status_code (to_http_exception e) = 500 \<longrightarrow>
      detail (to_http_exception e) = internal_error_detail)"
  using to_http_internal_iff[of e] status_500_iff[of e]
  by (auto simp: internal_error_def)

theorem internal_faults_are_opaque_witness:
  "detail (to_http_exception (mk_exn RuntimeError ''secret'')) = internal_error_detail"
  using internal_faults_are_opaque[of "mk_exn RuntimeError ''secret''"]
  by (simp add: gate_fault_def)

end
