(* ===== verification/Routing.thy ===== *)
theory Routing
  imports Registry
begin

text \<open>
  The readers of the registry: the route resolver (\<open>routing/resolver.py\<close>), the health
  monitor (\<open>routing/health_monitor.py\<close>), routing readiness
  (\<open>runtime/routing_readiness.py\<close>) and the registry status
  (\<open>runtime/registry_status.py\<close>).
\<close>

section \<open>The resolver\<close>

definition resolve_gate_bound :: "registry \<Rightarrow> packet \<Rightarrow> node res" where
  "resolve_gate_bound nodes p =
     (let a = canon (action (header p))
      in if a = [] then raise LookupError ''packet action must not be empty for Gate-bound resolution''
         else resolve_action nodes a)"

definition resolve_gate_dispatch :: "registry \<Rightarrow> string \<Rightarrow> packet \<Rightarrow> node res" where
  "resolve_gate_dispatch nodes local_node p =
     (let destination = canon (destination_node (address p))
      in if destination = local_node
         then raise LookupError ''Gate-authored dispatch packets must not target Gate itself''
         else if \<not> resolved_by_gate (provenance p)
         then raise LookupError ''Gate-authored dispatch packets must set resolved_by_gate=true''
         else if canon (source_node (address p)) \<noteq> local_node
         then raise LookupError ''Gate-authored dispatch packet source_node must equal local Gate node''
         else resolve_destination nodes destination)"

definition route_resolve :: "registry \<Rightarrow> string \<Rightarrow> packet \<Rightarrow> node res" where
  "route_resolve nodes local_node p =
     (let destination = canon (destination_node (address p))
      in if destination = local_node then resolve_gate_bound nodes p
         else if origin_kind (provenance p) = ''gate'' then resolve_gate_dispatch nodes local_node p
         else raise LookupError ''packet destination is not routable'')"

lemma resolve_destination_Inr:
  "resolve_destination nodes n = Inr r \<longleftrightarrow> canon n \<noteq> [] \<and> dget nodes (canon n) = Some r \<and> healthy r"
  by (auto simp: resolve_destination_def Let_def split: option.splits)

lemma route_resolve_registered:
  assumes "registry_wf nodes" and "route_resolve nodes local_node p = Inr r"
  shows "dget nodes (node_name r) = Some r \<and> healthy r \<and> wf_node (node_name r) r"
proof -
  obtain k where k: "dget nodes k = Some r" "healthy r"
  proof (cases "canon (destination_node (address p)) = local_node")
    case True
    with assms(2) have "resolve_action nodes (canon (action (header p))) = Inr r"
      by (auto simp: route_resolve_def resolve_gate_bound_def Let_def split: if_splits)
    from resolve_action_Inr[OF this] assms(1) show ?thesis
      by (auto simp: resolve_action_known registry_wf_def dget_in_set intro: that)
  next
    case False
    with assms(2) show ?thesis
      by (auto simp: route_resolve_def resolve_gate_dispatch_def resolve_destination_Inr Let_def
          split: if_splits intro: that)
  qed
  with registry_wf_get[OF assms(1) k(1)] show ?thesis by (auto simp: wf_node_def)
qed

text \<open>
  C22. The resolver only answers healthy registered nodes, and only for the two shapes of
  packet Gate routes: a packet addressed to Gate gets a node that serves its action;
  any other packet must be authored and marked resolved by this Gate and gets exactly
  the node it names. A client's or a node's packet that names a worker is never routed.
\<close>

theorem resolver_routes_only_known_shapes:
  assumes "registry_wf nodes" and "route_resolve nodes local_node p = Inr r"
  shows "dget nodes (node_name r) = Some r \<and> healthy r \<and>
    (if canon (destination_node (address p)) = local_node
     then canon (action (header p)) \<in> set (supported_actions r)
     else origin_kind (provenance p) = ''gate'' \<and> resolved_by_gate (provenance p)
        \<and> canon (source_node (address p)) = local_node
        \<and> node_name r = canon (destination_node (address p)))"
proof (cases "canon (destination_node (address p)) = local_node")
  case True
  with assms(2) have "resolve_action nodes (canon (action (header p))) = Inr r"
    by (auto simp: route_resolve_def resolve_gate_bound_def Let_def split: if_splits)
  from resolve_action_Inr[OF this] True route_resolve_registered[OF assms] show ?thesis
    by (simp add: known_for_def)
next
  case False
  with assms(2) have "origin_kind (provenance p) = ''gate''" "resolved_by_gate (provenance p)"
    "canon (source_node (address p)) = local_node"
    "dget nodes (canon (destination_node (address p))) = Some r"
    by (auto simp: route_resolve_def resolve_gate_dispatch_def resolve_destination_Inr Let_def
        split: if_splits)
  with registry_wf_get[OF assms(1), of _ r] route_resolve_registered[OF assms] False show ?thesis
    by (simp add: wf_node_def)
qed

theorem resolver_routes_only_known_shapes_witness:
  "healthy (sample_node ''graph'' [''match''] [])"
proof -
  let ?nodes = "foldl (registry_step sample_typed) registry_init
     [Register ''graph'' (sample_node ''graph'' [''match''] []) False]"
  have "registry_wf ?nodes" by (rule registry_run_wf) (auto dest: sample_typed_name)
  moreover have "route_resolve ?nodes ''gate'' (example_packet ''match'') =
      Inr (sample_node ''graph'' [''match''] [])" by code_simp
  ultimately show ?thesis using resolver_routes_only_known_shapes by blast
qed

section \<open>The health monitor\<close>

text \<open>What a probe's HTTP request does; every failure of it counts as unhealthy.\<close>

datatype probe_result = Status int | Http_error | Other_error

fun probe_node :: "probe_result \<Rightarrow> bool" where
  "probe_node (Status c) = (c = 200)"
| "probe_node Http_error = False"
| "probe_node Other_error = False"

record health_monitor =
  hm_interval :: pyfloat
  hm_probe_timeout :: pyfloat
  hm_running :: bool
  hm_stop :: bool
  hm_rounds :: nat

definition health_monitor_init :: "pyfloat \<Rightarrow> pyfloat \<Rightarrow> health_monitor res" where
  "health_monitor_init interval probe_timeout =
     (if interval \<le> 0 then raise ValueError ''interval_seconds must be > 0''
      else if probe_timeout \<le> 0 then raise ValueError ''probe_timeout_seconds must be > 0''
      else Inr \<lparr>hm_interval = interval, hm_probe_timeout = probe_timeout, hm_running = False,
                hm_stop = False, hm_rounds = 0\<rparr>)"

definition health_monitor_start :: "health_monitor \<Rightarrow> health_monitor" where
  "health_monitor_start m =
     (if hm_running m then m else m\<lparr>hm_stop := False, hm_running := True\<rparr>)"

text \<open>\<open>stop\<close> sets the event and waits for the task, which ends after the round it is in.\<close>

definition health_monitor_stop :: "health_monitor \<Rightarrow> health_monitor" where
  "health_monitor_stop m = m\<lparr>hm_stop := True, hm_running := False\<rparr>"

text \<open>
  One round probes the nodes of a snapshot in turn. Every probe suspends the loop;
  \<open>others i\<close> is what the rest of Gate does to the registry during the \<open>i\<close>th probe.
\<close>

definition probe_step :: "registry \<Rightarrow> string \<times> node \<Rightarrow> bool \<Rightarrow> registry \<times> unit res" where
  "probe_step nodes entry h =
     (case entry of
        (name, registration) \<Rightarrow>
          if h = healthy registration then (nodes, Inr ())
          else if h then mark_healthy nodes name
          else mark_unhealthy nodes name)"

fun probe_nodes ::
  "(string \<Rightarrow> probe_result) \<Rightarrow> (nat \<Rightarrow> registry \<Rightarrow> registry) \<Rightarrow> nat \<Rightarrow> registry \<Rightarrow> registry \<Rightarrow>
     registry \<times> unit res" where
  "probe_nodes answers during i nodes [] = (nodes, Inr ())"
| "probe_nodes answers during i nodes ((name, r) # snap) =
     (case probe_step (during i nodes) (name, r)
             (probe_node (answers (internal_url r @ health_endpoint r))) of
        (nodes', Inl e) \<Rightarrow> (nodes', Inl e)
      | (nodes', Inr u) \<Rightarrow> probe_nodes answers during (Suc i) nodes' snap)"

definition probe_once ::
  "(string \<Rightarrow> probe_result) \<Rightarrow> (nat \<Rightarrow> registry \<Rightarrow> registry) \<Rightarrow> health_monitor \<Rightarrow> registry \<Rightarrow>
     health_monitor \<times> registry \<times> unit res" where
  "probe_once answers during m nodes =
     (case probe_nodes answers during 0 nodes (registry_snapshot nodes) of
        (nodes', Inl e) \<Rightarrow> (m, nodes', Inl e)
      | (nodes', Inr u) \<Rightarrow> (m\<lparr>hm_rounds := hm_rounds m + 1\<rparr>, nodes', Inr ()))"

text \<open>The loop outlives a round that raises; it runs one round per entry of \<open>rounds\<close>.\<close>

fun monitor_loop ::
  "((string \<Rightarrow> probe_result) \<times> (nat \<Rightarrow> registry \<Rightarrow> registry)) list \<Rightarrow> health_monitor \<Rightarrow> registry \<Rightarrow>
     health_monitor \<times> registry" where
  "monitor_loop [] m nodes = (m, nodes)"
| "monitor_loop ((answers, during) # rounds) m nodes =
     (if hm_stop m then (m, nodes)
      else case probe_once answers during m nodes of
             (m', nodes', r) \<Rightarrow> monitor_loop rounds m' nodes')"

text \<open>The health a quiet round leaves at a node.\<close>

definition probed :: "(string \<Rightarrow> probe_result) \<Rightarrow> node \<Rightarrow> node" where
  "probed answers r = r\<lparr>healthy := probe_node (answers (internal_url r @ health_endpoint r))\<rparr>"

lemma probe_step_present:
  assumes "canon k = k" and "dget nodes k = Some r"
  shows "probe_step nodes (k, r) h = (if h = healthy r then nodes else dset nodes k (r\<lparr>healthy := h\<rparr>), Inr ())"
  using assms
  by (auto simp: probe_step_def mark_healthy_def mark_unhealthy_def set_health_def)

lemma probe_nodes_quiet:
  assumes "\<forall>(k, r) \<in> set snap. canon k = k \<and> dget nodes k = Some r" and "dwf snap"
  shows "snd (probe_nodes answers (\<lambda>_ x. x) i nodes snap) = Inr ()
    \<and> (\<forall>k. dget (fst (probe_nodes answers (\<lambda>_ x. x) i nodes snap)) k =
         (case dget snap k of None \<Rightarrow> dget nodes k | Some r \<Rightarrow> Some (probed answers r)))"
  using assms
proof (induction snap arbitrary: nodes i)
  case (Cons kr snap)
  obtain k r where kr: "kr = (k, r)" by (cases kr)
  let ?h = "probe_node (answers (internal_url r @ health_endpoint r))"
  let ?nodes = "if ?h = healthy r then nodes else dset nodes k (r\<lparr>healthy := ?h\<rparr>)"
  from Cons.prems have k: "canon k = k" "dget nodes k = Some r" and snap: "dwf snap" "dget snap k = None"
    by (auto simp: kr dwf_def map_of_eq_None_iff)
  have "\<forall>(j, q) \<in> set snap. canon j = j \<and> dget ?nodes j = Some q"
  proof clarify
    fix j q assume jq: "(j, q) \<in> set snap"
    then have "j \<noteq> k" using snap by (auto simp: map_of_eq_None_iff image_iff)
    with Cons.prems(1) jq show "canon j = j \<and> dget ?nodes j = Some q" by (auto simp: kr)
  qed
  from Cons.IH[OF this snap(1), of "Suc i"] snap(2) k show ?case
    by (auto simp: kr probe_step_present[OF k] probed_def split: option.splits)
qed simp

text \<open>
  C39. A round of the health monitor that nothing interferes with leaves every node with
  exactly the health its own probe showed, changes nothing else about any node, and
  never raises, so a worker that answers again returns to routing and one that does
  not leaves it.
\<close>

theorem probe_round_sets_health:
  assumes "registry_wf nodes" and "probe_once answers (\<lambda>_ x. x) m nodes = (m', nodes', r)"
  shows "r = Inr () \<and> hm_rounds m' = hm_rounds m + 1
    \<and> (\<forall>k. dget nodes' k = map_option (probed answers) (dget nodes k))"
proof -
  have "\<forall>(k, r) \<in> set nodes. canon k = k \<and> dget nodes k = Some r"
    using assms(1) by (auto simp: registry_wf_def wf_node_def dget_in_set)
  moreover have "dwf nodes" using assms(1) by (simp add: registry_wf_def)
  ultimately show ?thesis
    using assms(2) probe_nodes_quiet[of nodes nodes answers 0]
    by (auto simp: probe_once_def registry_snapshot_def split: prod.splits sum.splits option.splits)
qed

theorem probe_round_sets_health_witness:
  "\<exists>m. health_monitor_init 30 5 = Inr m \<and>
     (case probe_once (\<lambda>url. Http_error) (\<lambda>_ x. x) m [(''w'', sample_node ''w'' [''x''] [])] of
        (m', nodes', r) \<Rightarrow> hm_rounds m' = 1 \<and> map_option healthy (dget nodes' ''w'') = Some False)"
proof -
  have wf: "registry_wf [(''w'', sample_node ''w'' [''x''] [])]"
  proof -
    have "wf_node ''w'' (sample_node ''w'' [''x''] [])" by code_simp
    then show ?thesis by (simp add: registry_wf_def dwf_def)
  qed
  obtain m where m: "health_monitor_init 30 5 = Inr m" "hm_rounds m = 0"
    by (auto simp: health_monitor_init_def)
  then show ?thesis
    using probe_round_sets_health[OF wf, of "\<lambda>url. Http_error" m]
    by (auto simp: probed_def split: prod.splits)
qed

section \<open>Readiness\<close>

definition DEFAULT_REQUIRED_ACTIONS :: "string list" where
  "DEFAULT_REQUIRED_ACTIONS = SEAM_ACTIONS"

record routability =
  rt_action :: string
  rt_routable :: bool
  rt_required_owner :: "string option"
  rt_resolved_node :: "string option"
  rt_advertising :: "string list"
  rt_healthy_advertising :: "string list"
  rt_owners :: "(string \<times> string option) list"
  rt_problem :: "string option"

definition action_routability :: "registry \<Rightarrow> string \<Rightarrow> routability" where
  "action_routability nodes a =
     (let normalized_action = canon a;
          required_owner = required_owner_for_action normalized_action;
          advertised = filter (\<lambda>(n, r). normalized_action \<in> set (supported_actions r))
            (sort_key fst (registry_snapshot nodes));
          owners = map (\<lambda>(n, r). (n, owner_for_registration n (node_metadata r))) advertised;
          (resolved_node, resolution_error) =
            (case resolve_action nodes normalized_action of
               Inr r \<Rightarrow> (Some (node_name r), None)
             | Inl e \<Rightarrow> (None, Some (exn_msg e)));
          (owner_ok, owner_problem) =
            (case required_owner of
               None \<Rightarrow> (True, None)
             | Some required \<Rightarrow>
                 (case resolved_node of
                    None \<Rightarrow> (False, Some ''no healthy node resolves the action'')
                  | Some n \<Rightarrow>
                      if normalize_owner (opt_or (dget owners n) None) True \<noteq> Some required
                      then (False, Some ''resolved to a node of another owner'')
                      else (True, None)))
      in \<lparr>rt_action = normalized_action, rt_routable = (resolved_node \<noteq> None \<and> owner_ok),
          rt_required_owner = required_owner, rt_resolved_node = resolved_node,
          rt_advertising = map fst advertised,
          rt_healthy_advertising = map fst (filter (\<lambda>(n, r). healthy r) advertised),
          rt_owners = owners,
          rt_problem = (case owner_problem of None \<Rightarrow> resolution_error | Some s \<Rightarrow> Some s)\<rparr>)"

record readiness =
  rd_ready :: bool
  rd_status :: string
  rd_required :: "string list"
  rd_actions :: "routability list"
  rd_problems :: "string list"

definition routing_readiness :: "registry \<Rightarrow> string list \<Rightarrow> readiness" where
  "routing_readiness nodes required_actions =
     (let actions = map (action_routability nodes) required_actions;
          blocking = filter (\<lambda>e. \<not> rt_routable e) actions
      in \<lparr>rd_ready = (blocking = []),
          rd_status = (if blocking = [] then ''ready'' else ''not_ready''),
          rd_required = required_actions, rd_actions = actions,
          rd_problems = [the (rt_problem e). e \<leftarrow> blocking, str_or (rt_problem e) [] \<noteq> []]\<rparr>)"

record registry_report =
  rs_node_count :: nat
  rs_nodes :: "string list"

definition registry_status :: "registry \<Rightarrow> registry_report" where
  "registry_status nodes =
     \<lparr>rs_node_count = card (known_nodes nodes), rs_nodes = sorted_list_of_set (known_nodes nodes)\<rparr>"

lemma required_owner_cases:
  "required_owner_for_action a = Some owner \<Longrightarrow> owner = ''ceg'' \<or> owner = ''eie''"
  unfolding required_owner_for_action_def CANONICAL_ACTION_OWNERS_def by (auto split: if_splits)

lemma normalize_canonical_owner:
  "required_owner_for_action a = Some owner \<Longrightarrow> normalize_owner (Some owner) True = Some owner"
proof -
  have "normalize_owner (Some ''ceg'') True = Some ''ceg''" by code_simp
  moreover have "normalize_owner (Some ''eie'') True = Some ''eie''" by code_simp
  moreover assume "required_owner_for_action a = Some owner"
  ultimately show ?thesis using required_owner_cases by blast
qed

lemma dget_sorted: "dwf d \<Longrightarrow> dget (sort_key fst d) k = dget d k"
proof -
  assume "dwf d"
  moreover from this have "dwf (sort_key fst d)"
    unfolding dwf_def by (metis distinct_map distinct_sort set_sort)
  ultimately have "dget (sort_key fst d) k = Some v \<longleftrightarrow> dget d k = Some v" for v
    by (simp flip: dget_in_set)
  then show ?thesis by (cases "dget d k"; cases "dget (sort_key fst d) k") auto
qed

lemma routable_iff:
  assumes "registry_wf nodes"
  shows "rt_routable (action_routability nodes a) \<longleftrightarrow>
    (\<exists>r. resolve_action nodes a = Inr r \<and>
      (\<forall>required. required_owner_for_action a = Some required \<longrightarrow>
         normalize_owner (node_owner (node_name r) r) True = Some required))"
proof (cases "resolve_action nodes (canon a)")
  case (Inl e)
  then have "resolve_action nodes a = Inl e" by (simp add: resolve_action_def)
  with Inl show ?thesis by (auto simp: action_routability_def Let_def split: option.splits)
next
  case (Inr r)
  then have r: "resolve_action nodes a = Inr r" by (simp add: resolve_action_def)
  from resolve_action_Inr[OF r] obtain k where k: "(k, r) \<in> set nodes" "canon a \<in> set (supported_actions r)"
    by (auto simp: resolve_action_known)
  from assms have dwf: "dwf nodes" by (simp add: registry_wf_def)
  with k have get: "dget nodes k = Some r" by (simp add: dget_in_set)
  with registry_wf_get[OF assms this] have name: "node_name r = k" by (simp add: wf_node_def)
  have "dwf (sort_key fst nodes)"
    using dwf unfolding dwf_def by (metis distinct_map distinct_sort set_sort)
  then have "dget (filter (\<lambda>(n, r). canon a \<in> set (supported_actions r)) (sort_key fst nodes)) k = Some r"
    using k(2) get dwf by (simp add: dget_filter dget_sorted)
  then have "dget (map (\<lambda>(n, r). (n, owner_for_registration n (node_metadata r)))
      (filter (\<lambda>(n, r). canon a \<in> set (supported_actions r)) (sort_key fst nodes))) k =
      Some (node_owner k r)"
    by (simp add: dget_map node_owner_def)
  with Inr r name show ?thesis
    by (auto simp: action_routability_def Let_def registry_snapshot_def split: option.splits)
qed

text \<open>
  C37. Readiness means what it says. For a registry that only registrations built, Gate is
  ready exactly when every required action has a healthy node that serves it; for any
  well-formed registry, however it was loaded, a routable canonical action resolves to
  a node whose owner normalises to the owner of the table.
\<close>

theorem readiness_is_exact:
  assumes "registry_wf nodes"
  shows "(registry_owned nodes \<longrightarrow> rd_ready (routing_readiness nodes required) =
      (\<forall>a \<in> set required. canon a \<noteq> [] \<and>
        (\<exists>(k, r) \<in> set nodes. healthy r \<and> canon a \<in> set (supported_actions r))))
    \<and> (\<forall>a owner. rt_routable (action_routability nodes a) \<longrightarrow> required_owner_for_action a = Some owner \<longrightarrow>
        (\<exists>r. resolve_action nodes a = Inr r \<and>
             normalize_owner (node_owner (node_name r) r) True = Some owner))"
proof (intro conjI impI)
  have resolves: "(\<exists>r. resolve_action nodes a = Inr r) \<longleftrightarrow>
      canon a \<noteq> [] \<and> (\<exists>(k, r) \<in> set nodes. healthy r \<and> canon a \<in> set (supported_actions r))" for a
    by (force simp: resolve_action_def Let_def known_for_def filter_empty_conv)
  assume owned: "registry_owned nodes"
  have "rt_routable (action_routability nodes a) \<longleftrightarrow> (\<exists>r. resolve_action nodes a = Inr r)" for a
  proof -
    have "node_owner (node_name r) r = Some required"
      if r: "resolve_action nodes a = Inr r" and req: "required_owner_for_action a = Some required" for r required
    proof -
      from resolve_action_Inr[OF r] obtain k where k: "(k, r) \<in> set nodes" "canon a \<in> set (supported_actions r)"
        by (auto simp: resolve_action_known)
      then have get: "dget nodes k = Some r" using assms by (simp add: registry_wf_def dget_in_set)
      with registry_wf_get[OF assms this] have "node_name r = k" by (simp add: wf_node_def)
      moreover from get owned have "owned_by_table k r" by (simp add: registry_owned_def)
      ultimately show ?thesis using k(2) req required_owner_canon[of a] by (auto simp: owned_by_table_def)
    qed
    then show ?thesis using routable_iff[OF assms] normalize_canonical_owner by metis
  qed
  then show "rd_ready (routing_readiness nodes required) =
      (\<forall>a \<in> set required. canon a \<noteq> [] \<and>
        (\<exists>(k, r) \<in> set nodes. healthy r \<and> canon a \<in> set (supported_actions r)))"
    using resolves by (auto simp: routing_readiness_def Let_def filter_empty_conv)
next
  show "\<forall>a owner. rt_routable (action_routability nodes a) \<longrightarrow> required_owner_for_action a = Some owner \<longrightarrow>
      (\<exists>r. resolve_action nodes a = Inr r \<and> normalize_owner (node_owner (node_name r) r) True = Some owner)"
    using routable_iff[OF assms] by blast
qed

theorem readiness_is_exact_witness:
  "rd_ready (routing_readiness [(''graph'', sample_node ''graph'' [''match''] [])] ['' Match''])
   \<and> \<not> rd_ready (routing_readiness [(''graph'', sample_node ''graph'' [''match''] [])] DEFAULT_REQUIRED_ACTIONS)"
proof -
  let ?n = "[(''graph'', sample_node ''graph'' [''match''] [])]"
  have w: "wf_node ''graph'' (sample_node ''graph'' [''match''] [])" by code_simp
  then have wf: "registry_wf ?n" by (simp add: registry_wf_def dwf_def)
  have "node_owner ''graph'' (sample_node ''graph'' [''match''] []) = Some ''ceg''" by code_simp
  moreover have "required_owner_for_action ''match'' = Some ''ceg''" by code_simp
  ultimately have owned: "registry_owned ?n"
    by (auto simp: registry_owned_def owned_by_table_def compatible_def sample_node_def split: if_splits)
  have c: "canon '' Match'' = ''match''" "canon ''enrich'' = ''enrich''" by code_simp+
  have e: "''enrich'' \<in> set DEFAULT_REQUIRED_ACTIONS"
    by (simp add: DEFAULT_REQUIRED_ACTIONS_def SEAM_ACTIONS_def)
  have exact: "rd_ready (routing_readiness ?n required) =
      (\<forall>a \<in> set required. canon a \<noteq> [] \<and>
        (\<exists>(k, r) \<in> set ?n. healthy r \<and> canon a \<in> set (supported_actions r)))" for required
    using readiness_is_exact[OF wf, of required] owned by blast
  have "rd_ready (routing_readiness ?n ['' Match''])"
    unfolding exact using c by (simp add: sample_node_def)
  moreover have "\<not> rd_ready (routing_readiness ?n DEFAULT_REQUIRED_ACTIONS)"
    unfolding exact using c(2) by (intro notI) (drule bspec[OF _ e], simp add: sample_node_def)
  ultimately show ?thesis by blast
qed

end
