(* ===== verification/Runtime.thy ===== *)
theory Runtime
  imports Exceptions Packet
begin

text \<open>
  The process scaffolding: the lifecycle flags (\<open>runtime/lifecycle.py\<close>), the shared
  HTTP client (\<open>runtime/http_client.py\<close>), the service container
  (\<open>runtime/app_state.py\<close>) and the health report (\<open>runtime/health.py\<close>).
\<close>

section \<open>Lifecycle\<close>

record lifecycle =
  lc_started :: bool
  lc_stopped :: bool

definition lifecycle_init :: lifecycle where
  "lifecycle_init = \<lparr>lc_started = False, lc_stopped = False\<rparr>"

text \<open>The second component is what the transition logs.\<close>

definition lifecycle_start :: "lifecycle \<Rightarrow> lifecycle \<times> string list" where
  "lifecycle_start s =
     (if lc_started s then (s, []) else (s\<lparr>lc_started := True\<rparr>, [''gate.lifecycle.start'']))"

definition lifecycle_stop :: "lifecycle \<Rightarrow> lifecycle \<times> string list" where
  "lifecycle_stop s =
     (if lc_stopped s then (s, []) else (s\<lparr>lc_stopped := True\<rparr>, [''gate.lifecycle.stop'']))"

section \<open>The shared HTTP client\<close>

text \<open>A client is known by the number of the one that was opened; \<open>hc_opened\<close> and
  \<open>hc_closed\<close> are the clients opened and closed so far.\<close>

record http_client =
  hc_max_connections :: int
  hc_max_keepalive :: int
  hc_timeout :: rat
  hc_client :: "nat option"
  hc_opened :: nat
  hc_closed :: "nat list"

definition http_client_init :: "int \<Rightarrow> int \<Rightarrow> rat \<Rightarrow> http_client res" where
  "http_client_init mc mk t =
     (if mc < 1 then raise ValueError ''max_connections must be >= 1''
      else if mk < 0 then raise ValueError ''max_keepalive_connections must be >= 0''
      else if t \<le> 0 then raise ValueError ''default_timeout_seconds must be > 0''
      else Inr \<lparr>hc_max_connections = mc, hc_max_keepalive = mk, hc_timeout = t, hc_client = None,
                hc_opened = 0, hc_closed = []\<rparr>)"

definition http_startup :: "http_client \<Rightarrow> http_client" where
  "http_startup s =
     (if hc_client s \<noteq> None then s
      else s\<lparr>hc_client := Some (hc_opened s), hc_opened := hc_opened s + 1\<rparr>)"

definition http_shutdown :: "http_client \<Rightarrow> http_client" where
  "http_shutdown s =
     (case hc_client s of
        None \<Rightarrow> s
      | Some c \<Rightarrow> s\<lparr>hc_closed := hc_closed s @ [c], hc_client := None\<rparr>)"

definition http_get_client :: "http_client \<Rightarrow> nat res" where
  "http_get_client s =
     (case hc_client s of
        None \<Rightarrow> raise RuntimeError ''AsyncHttpClientManager not started''
      | Some c \<Rightarrow> Inr c)"

definition http_started :: "http_client \<Rightarrow> bool" where
  "http_started s = (hc_client s \<noteq> None)"

datatype client_event = Startup | Shutdown

fun client_step :: "http_client \<Rightarrow> client_event \<Rightarrow> http_client" where
  "client_step s Startup = http_startup s"
| "client_step s Shutdown = http_shutdown s"

definition client_inv :: "http_client \<Rightarrow> bool" where
  "client_inv s =
     (case hc_client s of
        None \<Rightarrow> hc_closed s = [0..<hc_opened s]
      | Some c \<Rightarrow> hc_closed s = [0..<c] \<and> hc_opened s = c + 1)"

lemma client_inv_step: "client_inv s \<Longrightarrow> client_inv (client_step s e)"
  by (cases e) (auto simp: client_inv_def http_startup_def http_shutdown_def split: option.splits)

lemma client_inv_run: "client_inv s \<Longrightarrow> client_inv (foldl client_step s es)"
  by (induction es arbitrary: s) (simp_all add: client_inv_step)

text \<open>
  However startups and shutdowns follow each other, at most one client is open, every
  client that was ever opened and is not the open one was closed, exactly once, and the
  accessor answers precisely while a client is open.
\<close>

theorem clients_are_closed_once:
  assumes "http_client_init mc mk t = Inr s" and "s' = foldl client_step s events"
  shows "(case hc_client s' of
        None \<Rightarrow> hc_closed s' = [0..<hc_opened s'] \<and> http_get_client s' = raise RuntimeError
          ''AsyncHttpClientManager not started''
      | Some c \<Rightarrow> hc_closed s' = [0..<c] \<and> hc_opened s' = c + 1 \<and> http_get_client s' = Inr c)
    \<and> (http_started s' \<longleftrightarrow> events \<noteq> [] \<and> last events = Startup)"
proof -
  have init: "client_inv s" "hc_client s = None"
    using assms(1) by (auto simp: http_client_init_def client_inv_def split: if_splits)
  then have inv: "client_inv s'" using client_inv_run assms(2) by blast
  have "http_started (foldl client_step s es) \<longleftrightarrow> es \<noteq> [] \<and> last es = Startup" for es
  proof (induction es rule: rev_induct)
    case Nil
    then show ?case using init(2) by (simp add: http_started_def)
  next
    case (snoc e es)
    then show ?case
      by (cases e) (auto simp: http_started_def http_startup_def http_shutdown_def split: option.splits)
  qed
  with inv assms(2) show ?thesis by (auto simp: http_get_client_def client_inv_def split: option.splits)
qed

theorem clients_are_closed_once_witness:
  "\<exists>s. http_client_init 256 64 30 = Inr s \<and>
     hc_client (foldl client_step s [Startup, Startup, Shutdown, Startup]) \<noteq> None"
proof -
  obtain s where s: "http_client_init 256 64 30 = Inr s" by (simp add: http_client_init_def)
  from clients_are_closed_once[OF s refl, of "[Startup, Startup, Shutdown, Startup]"] s show ?thesis
    by (auto simp: http_started_def)
qed

section \<open>The service container\<close>

text \<open>\<open>'a\<close> is what the services are.\<close>

record 'a app_state =
  as_services :: "(string \<times> 'a) list"
  as_http_client_manager :: "'a option"
  as_node_limiter_manager :: "'a option"
  as_lifecycle_manager :: "'a option"

definition app_state_init :: "'a app_state" where
  "app_state_init =
     \<lparr>as_services = [], as_http_client_manager = None, as_node_limiter_manager = None,
      as_lifecycle_manager = None\<rparr>"

definition app_register :: "'a app_state \<Rightarrow> string \<Rightarrow> 'a \<Rightarrow> 'a app_state" where
  "app_register s name service = s\<lparr>as_services := dset (as_services s) name service\<rparr>"

definition app_get :: "'a app_state \<Rightarrow> string \<Rightarrow> 'a res" where
  "app_get s name =
     (case dget (as_services s) name of
        None \<Rightarrow> raise KeyError ''service not found''
      | Some service \<Rightarrow> Inr service)"

definition attach_runtime :: "'a app_state \<Rightarrow> 'a option \<Rightarrow> 'a option \<Rightarrow> 'a option \<Rightarrow> 'a app_state" where
  "attach_runtime s http limiter lifecycle =
     s\<lparr>as_http_client_manager := http, as_node_limiter_manager := limiter,
       as_lifecycle_manager := lifecycle\<rparr>"

section \<open>The health report\<close>

definition health_status :: "string \<Rightarrow> string \<Rightarrow> string \<Rightarrow> (string \<times> string) list" where
  "health_status service_name node environment =
     [(''status'', ''healthy''), (''service_name'', service_name), (''node_name'', node),
      (''environment'', environment)]"

end
