(* ===== verification/Node_Limits.thy ===== *)
theory Node_Limits
  imports Concurrency_Limit
begin

text \<open>
  The per-node limiter of one Gate process, \<open>runtime/node_limits.py\<close>. \<open>acquire\<close> is a
  coroutine that counts the permit and then suspends once (\<open>await asyncio.sleep(0)\<close>);
  \<open>limiter_acquire\<close> is the part before the suspension, and \<open>acquire_resumed\<close> what the
  caller sees after it: a cancelled caller never learns that the permit was counted.
\<close>

record limiter =
  lim_limits :: "(string \<times> int) list"
  lim_active :: "(string \<times> int) list"

record node_limit_snapshot =
  snap_node_name :: string
  snap_max_concurrent :: int
  snap_active :: int

definition limiter_init :: limiter where
  "limiter_init = \<lparr>lim_limits = [], lim_active = []\<rparr>"

definition ensure_node_limit :: "limiter \<Rightarrow> string \<Rightarrow> int \<Rightarrow> limiter \<times> unit res" where
  "ensure_node_limit s name mc =
     (let normalized = canon name
      in if normalized = [] then (s, raise ValueError ''node_name must not be empty'')
         else if mc < 1 then (s, raise ValueError ''max_concurrent must be >= 1'')
         else (s\<lparr>lim_limits := dset (lim_limits s) normalized mc,
                 lim_active := dsetdefault (lim_active s) normalized 0\<rparr>, Inr ()))"

definition limiter_acquire :: "limiter \<Rightarrow> string \<Rightarrow> limiter \<times> unit res" where
  "limiter_acquire s name =
     (let normalized = canon name
      in case dget (lim_limits s) normalized of
           None \<Rightarrow> (s, raise LookupError ''node limit not configured'')
         | Some limit \<Rightarrow>
             (case dget (lim_active s) normalized of
                None \<Rightarrow> (s, raise KeyError normalized)
              | Some active \<Rightarrow>
                  if limit \<le> active
                  then (s, raise NodeLimitExceededError ''node concurrency limit reached'')
                  else (s\<lparr>lim_active := dset (lim_active s) normalized (active + 1)\<rparr>, Inr ())))"

definition acquire_resumed :: "bool \<Rightarrow> unit res \<Rightarrow> unit res" where
  "acquire_resumed cancelled r =
     (case r of
        Inl e \<Rightarrow> Inl e
      | Inr u \<Rightarrow> if cancelled then raise CancelledError '''' else Inr ())"

definition limiter_release :: "limiter \<Rightarrow> string \<Rightarrow> limiter \<times> unit res" where
  "limiter_release s name =
     (let normalized = canon name
      in case dget (lim_active s) normalized of
           None \<Rightarrow> (s, raise LookupError ''node limit not configured'')
         | Some active \<Rightarrow>
             (s\<lparr>lim_active := dset (lim_active s) normalized (max 0 (active - 1))\<rparr>, Inr ()))"

definition active_count :: "limiter \<Rightarrow> string \<Rightarrow> int" where
  "active_count s name = opt_or (dget (lim_active s) (canon name)) 0"

definition limiter_snapshot :: "limiter \<Rightarrow> string \<Rightarrow> node_limit_snapshot res" where
  "limiter_snapshot s name =
     (let normalized = canon name
      in case dget (lim_limits s) normalized of
           None \<Rightarrow> raise LookupError ''node limit not configured''
         | Some limit \<Rightarrow>
             (case dget (lim_active s) normalized of
                None \<Rightarrow> raise KeyError normalized
              | Some active \<Rightarrow>
                  Inr \<lparr>snap_node_name = normalized, snap_max_concurrent = limit, snap_active = active\<rparr>))"

definition permits :: "limiter \<Rightarrow> string \<Rightarrow> int option" where
  "permits s k = dget (lim_active s) k"

definition permit_cap :: "limiter \<Rightarrow> string \<Rightarrow> int option" where
  "permit_cap s k = dget (lim_limits s) k"

interpretation permit: concurrency_limit permits permit_cap canon limiter_acquire limiter_release
proof unfold_locales
qed (auto simp: permits_def permit_cap_def limiter_acquire_def limiter_release_def Let_def fun_eq_iff
    split: option.splits)

text \<open>Every limit has its counter, so neither lookup of a counter raises \<open>KeyError\<close>.\<close>

definition limiter_inv :: "limiter \<Rightarrow> bool" where
  "limiter_inv s \<longleftrightarrow> set (dkeys (lim_limits s)) \<subseteq> set (dkeys (lim_active s))
     \<and> (\<forall>k n. dget (lim_active s) k = Some n \<longrightarrow> 0 \<le> n)"

lemma limiter_inv_dset:
  "limiter_inv s \<Longrightarrow> 0 \<le> n \<Longrightarrow> limiter_inv (s\<lparr>lim_active := dset (lim_active s) k n\<rparr>)"
  by (auto simp: limiter_inv_def dkeys_dset simp del: set_map)

lemma limiter_inv_init [simp]: "limiter_inv limiter_init"
  by (simp add: limiter_inv_def limiter_init_def)

lemma limiter_inv_ensure [inv_intros]: "limiter_inv s \<Longrightarrow> limiter_inv (fst (ensure_node_limit s k mc))"
  by (auto simp: ensure_node_limit_def limiter_inv_def Let_def dsetdefault_def dkeys_dset
      map_of_eq_None_iff simp del: set_map split: option.splits dest: dget_dkeys)

lemma limiter_inv_acquire [inv_intros]: "limiter_inv s \<Longrightarrow> limiter_inv (fst (limiter_acquire s k))"
  unfolding limiter_acquire_def Let_def
  by (auto split: option.splits intro!: limiter_inv_dset simp: limiter_inv_def[of s])

lemma limiter_inv_release [inv_intros]: "limiter_inv s \<Longrightarrow> limiter_inv (fst (limiter_release s k))"
  unfolding limiter_release_def Let_def by (auto split: option.splits intro!: limiter_inv_dset)

lemma limiter_no_key_error:
  assumes "limiter_inv s" and "snd (limiter_acquire s k) = Inl e"
  shows "exn_class e = LookupError \<or> exn_class e = NodeLimitExceededError"
proof -
  have "dget (lim_active s) (canon k) \<noteq> None" if "dget (lim_limits s) (canon k) = Some l" for l
    using assms(1) that unfolding limiter_inv_def
    by (metis dhas_def dhas_iff option.discI subsetD)
  with assms(2) show ?thesis
    by (auto simp: limiter_acquire_def Let_def mk_exn_def split: option.splits if_splits)
qed

text \<open>
  A history of the limiter, with the callers that are cancelled while they are suspended
  in \<open>acquire\<close>. A caller that holds a permit knows it and gives it back; one that was
  cancelled does not.
\<close>

datatype limiter_event = Ensure string int | Take string bool | Give string

fun limiter_step :: "limiter \<Rightarrow> limiter_event \<Rightarrow> limiter" where
  "limiter_step s (Ensure k mc) = fst (ensure_node_limit s k mc)"
| "limiter_step s (Take k cancelled) = fst (limiter_acquire s k)"
| "limiter_step s (Give k) = fst (limiter_release s k)"

text \<open>What a caller believes after \<open>await acquire(k)\<close>.\<close>

definition take_outcome :: "limiter \<Rightarrow> string \<Rightarrow> bool \<Rightarrow> unit res" where
  "take_outcome s k cancelled = acquire_resumed cancelled (snd (limiter_acquire s k))"

text \<open>
  Cancelling a caller inside \<open>acquire\<close> loses a permit for good: its \<open>await\<close> raises
  \<open>CancelledError\<close>, so it holds nothing to give back, but the counter went up. With a
  cap of one, one such cancellation closes the node to every later caller.
\<close>

theorem cancelled_acquire_leaks:
  "take_outcome (fst (ensure_node_limit limiter_init ''w'' 1)) ''w'' True = raise CancelledError ''''
   \<and> (\<forall>cancelled. take_outcome
        (limiter_step (fst (ensure_node_limit limiter_init ''w'' 1)) (Take ''w'' True)) ''w'' cancelled
      = raise NodeLimitExceededError ''node concurrency limit reached'')"
  by code_simp

end
