(* ===== verification/Dispatch.thy ===== *)
theory Dispatch
  imports Routing Boundary Deadlines Node_Limits
begin

text \<open>
  The dispatcher, \<open>routing/dispatch.py\<close>. \<open>dispatch\<close> is a coroutine with two places
  where it suspends, inside \<open>acquire\<close> and in the transport call; it is modelled as the
  three pieces between them: \<open>dispatch_begin\<close> up to the suspension in \<open>acquire\<close>,
  \<open>dispatch_resume\<close> up to the call, and \<open>dispatch_settle\<close> with what the call did.
  \<open>dispatch\<close> composes them for a dispatch that runs alone. The transport is the SDK's.
\<close>

section \<open>The budget of one attempt\<close>

definition worker_budget_ms :: "int \<Rightarrow> deadline option \<Rightarrow> pyfloat \<Rightarrow> pyfloat \<Rightarrow> int res" where
  "worker_budget_ms cap_ms dl now1 now2 =
     (let node_cap_seconds = int_truediv cap_ms 1000
      in rbind
           (case dl of
              None \<Rightarrow> Inr node_cap_seconds
            | Some d \<Rightarrow> rbind (raise_if_expired d now1) (\<lambda>_. bounded_by d now2 (Some node_cap_seconds)))
           (\<lambda>budget_seconds.
              let budget = int_of_float (fmul budget_seconds 1000)
              in if budget \<le> 0 then raise DeadlineExceeded ''remaining budget for worker dispatch rounds to zero''
                 else Inr budget))"

section \<open>The pieces of a dispatch\<close>

record gate_env =
  env_registry :: registry
  env_limits :: "limiter option"

record flight =
  fl_target :: node
  fl_packet :: packet

text \<open>Resolution, budget and the dispatch packet; the readings are those of the deadline.\<close>

definition dispatch_packet ::
  "sdk \<Rightarrow> string \<Rightarrow> packet \<Rightarrow> node \<Rightarrow> int \<Rightarrow> packet res" where
  "dispatch_packet S local_node p target budget =
     rbind (sdk_with_hop S p (sdk_make_ingress_hop S p local_node (action (header p)) ''validated''))
       (\<lambda>ingress_observed.
     rbind (sdk_derive S ingress_observed (no_args
         \<lparr>da_packet_type := Some (packet_type (header ingress_observed)),
          da_action := Some (action (header ingress_observed)),
          da_source_node := Some local_node, da_destination_node := Some (node_name target),
          da_reply_to := Some local_node, da_payload := Some (payload ingress_observed),
          da_timeout_ms := Some budget,
          da_provenance := Some
            \<lparr>origin_kind = ''gate'', requested_action = action (header ingress_observed),
             resolved_by_gate = True,
             original_source_node = Some (source_node (address ingress_observed)),
             route_kind = Some ''external_ingress''\<rparr>\<rparr>))
       (\<lambda>dispatch_base.
     rbind (sdk_with_hop S dispatch_base
         (sdk_make_dispatch_hop S dispatch_base local_node (action (header dispatch_base))
            (node_name target) ''delegated''))
       (\<lambda>q. rbind (validate_gate_dispatch_policy q local_node) (\<lambda>_. Inr q))))"

definition dispatch_prepare ::
  "sdk \<Rightarrow> string \<Rightarrow> registry \<Rightarrow> packet \<Rightarrow> deadline option \<Rightarrow> pyfloat \<Rightarrow> pyfloat \<Rightarrow> flight res" where
  "dispatch_prepare S local_node nodes p dl now1 now2 =
     rbind (route_resolve nodes local_node p) (\<lambda>target.
     rbind (worker_budget_ms (node_timeout_ms target) dl now1 now2) (\<lambda>budget.
     rbind (dispatch_packet S local_node p target budget) (\<lambda>q.
       Inr \<lparr>fl_target = target, fl_packet = q\<rparr>)))"

definition take_permit :: "gate_env \<Rightarrow> node \<Rightarrow> gate_env \<times> unit res" where
  "take_permit env target =
     (case env_limits env of
        None \<Rightarrow> (env, Inr ())
      | Some l \<Rightarrow>
          (case ensure_node_limit l (node_name target) (max_concurrent target) of
             (l', Inl e) \<Rightarrow> (env\<lparr>env_limits := Some l'\<rparr>, Inl e)
           | (l', Inr u) \<Rightarrow>
               (case limiter_acquire l' (node_name target) of
                  (l'', r) \<Rightarrow> (env\<lparr>env_limits := Some l''\<rparr>, r))))"

definition give_permit :: "gate_env \<Rightarrow> node \<Rightarrow> gate_env \<times> unit res" where
  "give_permit env target =
     (case env_limits env of
        None \<Rightarrow> (env, Inr ())
      | Some l \<Rightarrow>
          (case limiter_release l (node_name target) of
             (l', r) \<Rightarrow> (env\<lparr>env_limits := Some l'\<rparr>, r)))"

definition dispatch_begin ::
  "sdk \<Rightarrow> string \<Rightarrow> gate_env \<Rightarrow> packet \<Rightarrow> deadline option \<Rightarrow> pyfloat \<Rightarrow> pyfloat \<Rightarrow>
     gate_env \<times> flight res" where
  "dispatch_begin S local_node env p dl now1 now2 =
     (case dispatch_prepare S local_node (env_registry env) p dl now1 now2 of
        Inl e \<Rightarrow> (env, Inl e)
      | Inr fl \<Rightarrow>
          (case take_permit env (fl_target fl) of
             (env', r) \<Rightarrow> (env', rbind r (\<lambda>_. Inr fl))))"

text \<open>
  \<open>finally\<close>, with the flags it tests. An exception of the clean-up replaces the one on
  its way out, and a failing \<open>decrement_active\<close> leaves the permit taken.
\<close>

definition dispatch_finally ::
  "gate_env \<Rightarrow> node \<Rightarrow> bool \<Rightarrow> bool \<Rightarrow> 'a res \<Rightarrow> gate_env \<times> 'a res" where
  "dispatch_finally env target acquired_limit incremented r =
     (let (env1, d) =
        (if incremented
         then (case decrement_active (env_registry env) (node_name target) of
                 (nodes, d) \<Rightarrow> (env\<lparr>env_registry := nodes\<rparr>, d))
         else (env, Inr ()))
      in case d of
           Inl e \<Rightarrow> (env1, Inl e)
         | Inr u \<Rightarrow>
             if acquired_limit
             then (case give_permit env1 target of (env2, g) \<Rightarrow> (env2, rbind g (\<lambda>_. r)))
             else (env1, r))"

definition dispatch_resume :: "gate_env \<Rightarrow> flight \<Rightarrow> bool \<Rightarrow> gate_env \<times> unit res" where
  "dispatch_resume env fl cancelled =
     (if cancelled then dispatch_finally env (fl_target fl) False False (raise CancelledError [])
      else
        (case increment_active (env_registry env) (node_name (fl_target fl)) of
           (nodes, Inl e) \<Rightarrow>
             dispatch_finally (env\<lparr>env_registry := nodes\<rparr>) (fl_target fl) True False (Inl e)
         | (nodes, Inr u) \<Rightarrow> (env\<lparr>env_registry := nodes\<rparr>, Inr ())))"

definition attribute :: "exn \<Rightarrow> string \<Rightarrow> exn" where
  "attribute e name = (if exn_node e = None then e\<lparr>exn_node := Some name\<rparr> else e)"

text \<open>The two \<open>except\<close> clauses around the transport call.\<close>

definition dispatch_except :: "gate_env \<Rightarrow> node \<Rightarrow> packet res \<Rightarrow> gate_env \<times> packet res" where
  "dispatch_except env target r =
     (case r of
        Inr reply \<Rightarrow> (env, Inr reply)
      | Inl e \<Rightarrow>
          if isinstance e WorkerConnectionError then
            (case mark_unhealthy (env_registry env) (node_name target) of
               (nodes, Inl e') \<Rightarrow> (env\<lparr>env_registry := nodes\<rparr>, Inl e')
             | (nodes, Inr u) \<Rightarrow>
                 (env\<lparr>env_registry := nodes\<rparr>, Inl (attribute e (node_name target))))
          else if is_exception e then (env, Inl (attribute e (node_name target)))
          else (env, Inl e))"

definition dispatch_settle :: "gate_env \<Rightarrow> flight \<Rightarrow> packet res \<Rightarrow> gate_env \<times> packet res" where
  "dispatch_settle env fl outcome =
     (case dispatch_except env (fl_target fl) outcome of
        (env', r) \<Rightarrow> dispatch_finally env' (fl_target fl) True True r)"

text \<open>
  A dispatch that runs alone. \<open>send\<close> is the SDK's single network attempt to a worker's
  base URL; it reads the packet and does nothing to Gate.
\<close>

definition dispatch ::
  "sdk \<Rightarrow> string \<Rightarrow> (packet \<Rightarrow> string \<Rightarrow> string \<Rightarrow> packet res) \<Rightarrow> gate_env \<Rightarrow> packet \<Rightarrow>
     deadline option \<Rightarrow> pyfloat \<Rightarrow> pyfloat \<Rightarrow> gate_env \<times> packet res" where
  "dispatch S local_node send env p dl now1 now2 =
     (case dispatch_begin S local_node env p dl now1 now2 of
        (env1, Inl e) \<Rightarrow> (env1, Inl e)
      | (env1, Inr fl) \<Rightarrow>
          (case dispatch_resume env1 fl False of
             (env2, Inl e) \<Rightarrow> (env2, Inl e)
           | (env2, Inr u) \<Rightarrow>
               dispatch_settle env2 fl
                 (send (fl_packet fl) (node_name (fl_target fl)) (internal_url (fl_target fl)))))"

section \<open>What the budget is\<close>

definition cap_budget :: "int \<Rightarrow> int" where
  "cap_budget cap_ms = int_of_float (fmul (int_truediv cap_ms 1000) 1000)"

lemma int_of_float_mono: "x \<le> y \<Longrightarrow> int_of_float x \<le> int_of_float y"
proof -
  assume le: "x \<le> y"
  have "\<lceil>x\<rceil> \<le> \<lfloor>y\<rfloor>" if "x < 0" "0 \<le> y"
  proof -
    have "\<lceil>x\<rceil> \<le> 0" using that by simp
    moreover have "0 \<le> \<lfloor>y\<rfloor>" using that by simp
    ultimately show ?thesis by linarith
  qed
  with le show ?thesis by (auto simp: int_of_float_def floor_mono ceiling_mono)
qed

lemma cap_budget_bounds:
  assumes "1 \<le> cap_ms" and "cap_ms \<le> 2 ^ 50"
  shows "cap_ms - 1 \<le> cap_budget cap_ms \<and> cap_budget cap_ms \<le> cap_ms"
proof -
  let ?c = "of_int cap_ms :: rat" and ?q = "rnd (of_int cap_ms / 1000)"
  let ?x = "rnd (?q * 1000)"
  have c: "1 \<le> ?c" "?c \<le> 2 ^ 50"
    using assms by (simp, metis of_int_le_iff of_int_numeral of_int_power)
  have "\<bar>?q - ?c / 1000\<bar> \<le> (?c / 1000) / 2 ^ 53" using rnd_error[of "?c / 1000"] c by simp
  then have q: "?c - ?c / 2 ^ 53 \<le> ?q * 1000" "?q * 1000 \<le> ?c + ?c / 2 ^ 53"
    unfolding abs_le_iff by (simp_all add: field_simps)
  have small: "?c / 2 ^ 53 \<le> 1 / 8" using c(2) by simp
  have qpos: "0 \<le> ?q * 1000" using q(1) small c(1) by linarith
  have "\<bar>?x - ?q * 1000\<bar> \<le> (?q * 1000) / 2 ^ 53" using rnd_error[of "?q * 1000"] qpos by simp
  moreover have "(?q * 1000) / 2 ^ 53 \<le> 1 / 4"
  proof -
    have "?q * 1000 \<le> 2 ^ 50 + 1" using q(2) small c(2) by linarith
    then have "(?q * 1000) / 2 ^ 53 \<le> (2 ^ 50 + 1) / 2 ^ 53" by (rule divide_right_mono) simp
    also have "\<dots> \<le> 1 / 4" by simp
    finally show ?thesis .
  qed
  ultimately have x: "?c - 1 < ?x" "?x < ?c + 1"
    using q small unfolding abs_le_iff by linarith+
  then have "0 \<le> ?x" using c(1) by linarith
  moreover have "cap_ms - 1 \<le> \<lfloor>?x\<rfloor>" using x(1) by (simp add: le_floor_iff)
  moreover have "\<lfloor>?x\<rfloor> \<le> cap_ms" using x(2) by linarith
  ultimately show ?thesis
    unfolding cap_budget_def fmul_def int_truediv_def int_of_float_def of_int_numeral by simp
qed

lemma worker_budget_Inr:
  assumes "worker_budget_ms cap_ms dl now1 now2 = Inr b"
  shows "1 \<le> b \<and> b \<le> cap_budget cap_ms
    \<and> (case dl of None \<Rightarrow> b = cap_budget cap_ms
         | Some d \<Rightarrow> \<not> expired d now1 \<and> b \<le> int_of_float (fmul (remaining_seconds d now2) 1000))"
proof (cases dl)
  case None
  with assms show ?thesis
    by (auto simp: worker_budget_ms_def cap_budget_def Let_def split: if_splits)
next
  case (Some d)
  let ?c = "int_truediv cap_ms 1000"
  from assms Some have "\<not> expired d now1" "0 < ?c"
    and b: "b = int_of_float (fmul (min (remaining_seconds d now2) ?c) 1000)" "0 < b"
    by (auto simp: worker_budget_ms_def raise_if_expired_def bounded_by_def Let_def split: if_splits)
  moreover have "fmul (min (remaining_seconds d now2) ?c) 1000 \<le> fmul ?c 1000"
    "fmul (min (remaining_seconds d now2) ?c) 1000 \<le> fmul (remaining_seconds d now2) 1000"
    by (auto simp: fmul_def intro!: rnd_mono)
  ultimately show ?thesis
    using Some int_of_float_mono by (auto simp: cap_budget_def)
qed

text \<open>
  C21. The budget of a worker attempt is positive, never above the node's cap, and never
  above what is left of the packet's deadline; without a deadline it is the cap, or one
  millisecond less when the float quotient and product round down.
\<close>

theorem worker_budget_bounded:
  assumes "1 \<le> cap_ms" and "cap_ms \<le> 2 ^ 50"
  shows "case worker_budget_ms cap_ms dl now1 now2 of
      Inl e \<Rightarrow> exn_class e = DeadlineExceeded
    | Inr b \<Rightarrow> 1 \<le> b \<and> b \<le> cap_ms
        \<and> (case dl of None \<Rightarrow> cap_ms - 1 \<le> b
             | Some d \<Rightarrow> \<not> expired d now1 \<and> b \<le> int_of_float (fmul (remaining_seconds d now2) 1000))"
proof (cases "worker_budget_ms cap_ms dl now1 now2")
  case (Inl e)
  have "0 < int_truediv cap_ms 1000" using assms(1) by (simp add: int_truediv_def)
  with Inl show ?thesis
    by (auto simp: worker_budget_ms_def raise_if_expired_def bounded_by_def Let_def rbind_Inl_iff
        split: if_splits option.splits)
next
  case (Inr b)
  from worker_budget_Inr[OF Inr] cap_budget_bounds[OF assms] Inr show ?thesis
    by (auto split: option.splits)
qed

theorem worker_budget_bounded_witness:
  "(case worker_budget_ms 30000 (Some \<lparr>dl_total_seconds = 2, dl_started_at = 0\<rparr>) 1 1 of
      Inl e \<Rightarrow> False | Inr b \<Rightarrow> b \<le> 1000)"
proof -
  let ?d = "\<lparr>dl_total_seconds = 2, dl_started_at = 0\<rparr> :: deadline"
  obtain b where b: "worker_budget_ms 30000 (Some ?d) 1 1 = Inr b"
  proof -
    have "worker_budget_ms 30000 (Some ?d) 1 1 = Inr 1000" by code_simp
    then show ?thesis by (rule that)
  qed
  have "int_of_float (fmul (remaining_seconds ?d 1) 1000) = 1000" by code_simp
  then show ?thesis using worker_budget_bounded[of 30000 1 1 "Some ?d"] b by simp
qed

text \<open>
  The round trip through float seconds loses a millisecond of some caps: a node whose
  cap is 1001 ms is given 1000 ms, although nothing else has used the budget.
\<close>

theorem worker_budget_loses_a_millisecond:
  "worker_budget_ms 1001 None now1 now2 = Inr 1000 \<and> worker_budget_ms 30000 None now1 now2 = Inr 30000"
proof -
  have "int_of_float (fmul (int_truediv 1001 1000) 1000) = 1000" by code_simp
  moreover have "int_of_float (fmul (int_truediv 30000 1000) 1000) = 30000" by code_simp
  ultimately show ?thesis by (simp add: worker_budget_ms_def)
qed

section \<open>What leaves for the worker\<close>

lemma str_or_same [simp]: "str_or (Some s) s = s"
  by (simp add: str_or_def)

lemma dispatch_packet_fields:
  assumes "derives_ok S" and "hops_ok S" and "canon l = l" and "l \<noteq> []"
    and "canon (node_name target) = node_name target" and "node_name target \<noteq> []"
    and "dispatch_packet S l p target budget = Inr q"
  shows "gate_authored l q \<and> destination_node (address q) = node_name target
    \<and> reply_to (address q) = l \<and> action (header q) = action (header p)
    \<and> packet_type (header q) = packet_type (header p) \<and> timeout_ms (header q) = Some budget
    \<and> idempotency_key (header q) = idempotency_key (header p) \<and> payload q = payload p
    \<and> tenant q = tenant p \<and> original_source_node (provenance q) = Some (source_node (address p))
    \<and> route_kind (provenance q) = Some ''external_ingress''
    \<and> parent_id (lineage q) = Some (packet_id (header p)) \<and> root_id (lineage q) = root_id (lineage p)
    \<and> length (hop_trace q) = 1"
proof -
  let ?a = "\<lambda>i. no_args
         \<lparr>da_packet_type := Some (packet_type (header i)), da_action := Some (action (header i)),
          da_source_node := Some l, da_destination_node := Some (node_name target),
          da_reply_to := Some l, da_payload := Some (payload i), da_timeout_ms := Some budget,
          da_provenance := Some
            \<lparr>origin_kind = ''gate'', requested_action = action (header i), resolved_by_gate = True,
             original_source_node = Some (source_node (address i)),
             route_kind = Some ''external_ingress''\<rparr>\<rparr>"
  from assms(7) obtain i d where
    i: "sdk_with_hop S p (sdk_make_ingress_hop S p l (action (header p)) ''validated'') = Inr i"
    and d: "sdk_derive S i (?a i) = Inr d"
    and q: "sdk_with_hop S d (sdk_make_dispatch_hop S d l (action (header d)) (node_name target)
              ''delegated'') = Inr q"
    and pol: "validate_gate_dispatch_policy q l = Inr ()"
    by (auto simp: dispatch_packet_def rbind_Inr_iff)
  from hops_okD(1)[OF assms(2) i] have si: "same_core p i" .
  from derives_okD[OF assms(1) d] have df: "derived_from i (?a i) d" .
  from hops_okD[OF assms(2) q] have sq: "same_core d q" and h: "length (hop_trace q) = length (hop_trace d) + 1"
    by simp_all
  from si have "header i = header p" "payload i = payload p" "tenant i = tenant p"
    "address i = address p" "lineage i = lineage p"
    by (simp_all add: same_core_def)
  with df sq h assms(3-6) pol show ?thesis
    by (simp add: gate_dispatch_policy_iff derived_from_def same_core_def)
qed

lemma prepared_packet:
  assumes "derives_ok S" and "hops_ok S" and "canon l = l" and "l \<noteq> []" and "registry_wf nodes"
    and "dispatch_prepare S l nodes p dl now1 now2 = Inr fl"
  shows "gate_authored l (fl_packet fl)
    \<and> dget nodes (destination_node (address (fl_packet fl))) = Some (fl_target fl) \<and> healthy (fl_target fl)
    \<and> action (header (fl_packet fl)) = action (header p) \<and> payload (fl_packet fl) = payload p
    \<and> tenant (fl_packet fl) = tenant p
    \<and> idempotency_key (header (fl_packet fl)) = idempotency_key (header p)
    \<and> original_source_node (provenance (fl_packet fl)) = Some (source_node (address p))
    \<and> parent_id (lineage (fl_packet fl)) = Some (packet_id (header p))
    \<and> (\<exists>b. timeout_ms (header (fl_packet fl)) = Some b
         \<and> worker_budget_ms (node_timeout_ms (fl_target fl)) dl now1 now2 = Inr b)"
proof -
  from assms(6) obtain t b q where t: "route_resolve nodes l p = Inr t"
    and b: "worker_budget_ms (node_timeout_ms t) dl now1 now2 = Inr b"
    and q: "dispatch_packet S l p t b = Inr q" and fl: "fl = \<lparr>fl_target = t, fl_packet = q\<rparr>"
    by (auto simp: dispatch_prepare_def rbind_Inr_iff)
  from route_resolve_registered[OF assms(5) t]
  have k: "dget nodes (node_name t) = Some t" "healthy t"
    and name: "canon (node_name t) = node_name t" "node_name t \<noteq> []"
    by (simp_all add: wf_node_def)
  from dispatch_packet_fields[OF assms(1-4) name q] show ?thesis
    using k b by (simp add: fl)
qed

text \<open>
  C16. Every packet that leaves for a worker is authored and resolved by this Gate, goes to
  a healthy registered node that is not Gate itself, carries the caller's action,
  payload, tenant and idempotency key unchanged, names the caller as its origin and the
  request as its parent, and advertises exactly the budget of this attempt.
\<close>

theorem dispatch_is_gate_authored:
  assumes "derives_ok S" and "hops_ok S" and "canon l = l" and "l \<noteq> []" and "registry_wf nodes"
    and "dispatch_prepare S l nodes p dl now1 now2 = Inr fl"
  shows "gate_authored l (fl_packet fl)
    \<and> dget nodes (destination_node (address (fl_packet fl))) = Some (fl_target fl) \<and> healthy (fl_target fl)
    \<and> action (header (fl_packet fl)) = action (header p) \<and> payload (fl_packet fl) = payload p
    \<and> tenant (fl_packet fl) = tenant p
    \<and> idempotency_key (header (fl_packet fl)) = idempotency_key (header p)
    \<and> original_source_node (provenance (fl_packet fl)) = Some (source_node (address p))
    \<and> parent_id (lineage (fl_packet fl)) = Some (packet_id (header p))
    \<and> (\<exists>b. timeout_ms (header (fl_packet fl)) = Some b
         \<and> worker_budget_ms (node_timeout_ms (fl_target fl)) dl now1 now2 = Inr b)"
  using assms by (rule prepared_packet)

theorem dispatch_is_gate_authored_witness:
  "\<exists>fl. dispatch_prepare (ref_sdk (\<lambda>_. raise ValueError [])) ''gate''
       [(''graph'', sample_node ''graph'' [''match''] [])] (example_packet ''match'') None 0 0 = Inr fl
     \<and> gate_authored ''gate'' (fl_packet fl)
     \<and> original_source_node (provenance (fl_packet fl)) = Some ''client''"
proof -
  let ?S = "ref_sdk (\<lambda>_. raise ValueError [])"
  let ?n = "[(''graph'', sample_node ''graph'' [''match''] [])]"
  have "wf_node ''graph'' (sample_node ''graph'' [''match''] [])" by code_simp
  then have wf: "registry_wf ?n" by (simp add: registry_wf_def dwf_def)
  have "route_resolve ?n ''gate'' (example_packet ''match'') = Inr (sample_node ''graph'' [''match''] [])"
    by code_simp
  moreover have "worker_budget_ms (node_timeout_ms (sample_node ''graph'' [''match''] [])) None 0 0 = Inr 30000"
    by code_simp
  moreover have "\<exists>q. dispatch_packet ?S ''gate'' (example_packet ''match'')
      (sample_node ''graph'' [''match''] []) 30000 = Inr q"
  proof -
    have c: "canon ''gate'' = ''gate''" "canon ''graph'' = ''graph''" by code_simp+
    show ?thesis
      by (simp add: dispatch_packet_def ref_sdk_def ref_derive_def gate_dispatch_policy_iff
          gate_authored_def sample_node_def rbind_Inr_iff c)
  qed
  ultimately obtain fl where fl: "dispatch_prepare ?S ''gate'' ?n (example_packet ''match'') None 0 0 = Inr fl"
    by (auto simp: dispatch_prepare_def)
  have g: "canon ''gate'' = ''gate''" by code_simp
  from dispatch_is_gate_authored[OF ref_sdk_derives_ok ref_sdk_hops_ok g _ wf fl] fl show ?thesis
    by (auto simp: example_packet_def)
qed

section \<open>Dispatches that interleave\<close>

text \<open>
  The state of Gate while dispatches are in flight: those suspended in \<open>acquire\<close>, those
  waiting for a worker, and, for the account only, the nodes whose permit a
  cancellation inside \<open>acquire\<close> lost and those that were registered anew, with their load
  back at zero, while requests were with them.
\<close>

record gate_sys =
  sys_env :: gate_env
  sys_waiting :: "flight list"
  sys_sending :: "flight list"
  sys_lost :: "string list"
  sys_rejoined :: "string list"

definition going_to :: "string \<Rightarrow> flight list \<Rightarrow> int" where
  "going_to k fls = int (length (filter (\<lambda>fl. node_name (fl_target fl) = k) fls))"

inductive gate_step :: "sdk \<Rightarrow> string \<Rightarrow> gate_sys \<Rightarrow> gate_sys \<Rightarrow> bool" for S l where
  Begin: "dispatch_begin S l (sys_env s) p dl now1 now2 = (env, Inr fl) \<Longrightarrow>
    gate_step S l s (s\<lparr>sys_env := env, sys_waiting := fl # sys_waiting s\<rparr>)"
| Refused: "dispatch_begin S l (sys_env s) p dl now1 now2 = (env, Inl e) \<Longrightarrow>
    gate_step S l s (s\<lparr>sys_env := env\<rparr>)"
| Resume: "fl \<in> set (sys_waiting s) \<Longrightarrow> dispatch_resume (sys_env s) fl False = (env, Inr ()) \<Longrightarrow>
    gate_step S l s (s\<lparr>sys_env := env, sys_waiting := remove1 fl (sys_waiting s),
      sys_sending := fl # sys_sending s\<rparr>)"
| Full: "fl \<in> set (sys_waiting s) \<Longrightarrow> dispatch_resume (sys_env s) fl False = (env, Inl e) \<Longrightarrow>
    gate_step S l s (s\<lparr>sys_env := env, sys_waiting := remove1 fl (sys_waiting s)\<rparr>)"
| Cancel: "fl \<in> set (sys_waiting s) \<Longrightarrow> dispatch_resume (sys_env s) fl True = (env, Inl e) \<Longrightarrow>
    gate_step S l s (s\<lparr>sys_env := env, sys_waiting := remove1 fl (sys_waiting s),
      sys_lost := node_name (fl_target fl) # sys_lost s\<rparr>)"
| Settle: "fl \<in> set (sys_sending s) \<Longrightarrow> dispatch_settle (sys_env s) fl outcome = (env, r) \<Longrightarrow>
    gate_step S l s (s\<lparr>sys_env := env, sys_sending := remove1 fl (sys_sending s)\<rparr>)"
| Probe: "set_health (env_registry (sys_env s)) name h = (nodes, r) \<Longrightarrow>
    gate_step S l s (s\<lparr>sys_env := (sys_env s)\<lparr>env_registry := nodes\<rparr>\<rparr>)"
| Register: "register_node (env_registry (sys_env s)) name node overwrite = (nodes, r) \<Longrightarrow> wf_node k node \<Longrightarrow>
    active_requests node = 0 \<Longrightarrow>
    gate_step S l s (s\<lparr>sys_env := (sys_env s)\<lparr>env_registry := nodes\<rparr>,
      sys_rejoined := (if r = Inr () \<and> going_to (canon name) (sys_sending s) \<noteq> 0
                       then canon name # sys_rejoined s else sys_rejoined s)\<rparr>)"

definition gate_start :: gate_sys where
  "gate_start =
     \<lparr>sys_env = \<lparr>env_registry = registry_init, env_limits = Some limiter_init\<rparr>,
      sys_waiting = [], sys_sending = [], sys_lost = [], sys_rejoined = []\<rparr>"

inductive gate_reachable :: "sdk \<Rightarrow> string \<Rightarrow> gate_sys \<Rightarrow> bool" for S l where
  Start: "gate_reachable S l gate_start"
| Step: "gate_reachable S l s \<Longrightarrow> gate_step S l s s' \<Longrightarrow> gate_reachable S l s'"

definition lost_at :: "string \<Rightarrow> string list \<Rightarrow> int" where
  "lost_at k ks = int (length (filter (\<lambda>k'. k' = k) ks))"

text \<open>The account of the counters: what a node's load and a node's permits stand for.\<close>

definition held :: "limiter \<Rightarrow> string \<Rightarrow> int" where
  "held lims k = opt_or (permits lims k) 0"

definition limits_account :: "limiter option \<Rightarrow> flight list \<Rightarrow> flight list \<Rightarrow> string list \<Rightarrow> bool" where
  "limits_account ol waiting sending lost \<longleftrightarrow>
     (\<exists>lims. ol = Some lims \<and>
        (\<forall>k. held lims k = going_to k waiting + going_to k sending + lost_at k lost))"

definition load_account :: "registry \<Rightarrow> flight list \<Rightarrow> string list \<Rightarrow> bool" where
  "load_account nodes sending rejoined \<longleftrightarrow>
     (\<forall>k r. dget nodes k = Some r \<longrightarrow> active_requests r \<le> going_to k sending
        \<and> (k \<notin> set rejoined \<longrightarrow> active_requests r = going_to k sending))"

definition known_targets :: "registry \<Rightarrow> flight list \<Rightarrow> bool" where
  "known_targets nodes fls \<longleftrightarrow>
     (\<forall>fl \<in> set fls. canon (node_name (fl_target fl)) = node_name (fl_target fl) \<and>
        dhas nodes (node_name (fl_target fl)))"

definition accounted :: "gate_sys \<Rightarrow> bool" where
  "accounted s \<longleftrightarrow>
     registry_wf (env_registry (sys_env s)) \<and> node_slots.within_cap (env_registry (sys_env s)) \<and>
     limits_account (env_limits (sys_env s)) (sys_waiting s) (sys_sending s) (sys_lost s) \<and>
     load_account (env_registry (sys_env s)) (sys_sending s) (sys_rejoined s) \<and>
     known_targets (env_registry (sys_env s)) (sys_waiting s @ sys_sending s)"

lemma going_to_Cons: "going_to k (fl # fls) = going_to k fls + (if node_name (fl_target fl) = k then 1 else 0)"
  by (simp add: going_to_def)

lemma going_to_nonneg [simp]: "0 \<le> going_to k fls"
  by (simp add: going_to_def)

lemma lost_at_nonneg [simp]: "0 \<le> lost_at k ks"
  by (simp add: lost_at_def)

lemma lost_at_Cons: "lost_at k (k' # ks) = lost_at k ks + (if k' = k then 1 else 0)"
  by (simp add: lost_at_def)

lemma going_to_remove1:
  "fl \<in> set fls \<Longrightarrow>
   going_to k (remove1 fl fls) = going_to k fls - (if node_name (fl_target fl) = k then 1 else 0)"
  by (induction fls) (auto simp: going_to_Cons)

lemma known_targets_mono: "known_targets nodes fls \<Longrightarrow> set fls' \<subseteq> set fls \<Longrightarrow> known_targets nodes fls'"
  by (auto simp: known_targets_def)

lemma known_targets_remove1:
  "known_targets nodes (W @ F) \<Longrightarrow> known_targets nodes (remove1 fl W @ F)"
  using set_remove1_subset[of fl W] by (auto simp: known_targets_def)

lemma known_targets_dset: "known_targets nodes fls \<Longrightarrow> known_targets (dset nodes k r) fls"
  by (auto simp: known_targets_def dhas_def)

lemma held_ensure [simp]: "held (fst (ensure_node_limit lims n mc)) k = held lims k"
  by (auto simp: ensure_node_limit_def held_def permits_def Let_def dsetdefault_def split: option.splits)

lemma take_permit_ok:
  assumes "take_permit env t = (env', Inr ())" and "env_limits env = Some lims"
    and "canon (node_name t) = node_name t"
  shows "\<exists>lims'. env' = env\<lparr>env_limits := Some lims'\<rparr> \<and>
    (\<forall>k. held lims' k = held lims k + (if node_name t = k then 1 else 0))"
proof -
  obtain l' u where e: "ensure_node_limit lims (node_name t) (max_concurrent t) = (l', u)" by fastforce
  with assms(1,2) have u: "u = Inr ()" by (cases u) (auto simp: take_permit_def)
  obtain l'' r where a: "limiter_acquire l' (node_name t) = (l'', r)" by fastforce
  with assms(1,2) e u have r: "r = Inr ()" and env': "env' = env\<lparr>env_limits := Some l''\<rparr>"
    by (auto simp: take_permit_def)
  have hl: "held l' k = held lims k" for k using held_ensure[of lims "node_name t" "max_concurrent t" k] e by simp
  from a r have "held l'' k = held l' k + (if node_name t = k then 1 else 0)" for k
    by (cases rule: permit.acquire_cases[of l' "node_name t"]) (auto simp: held_def assms(3))
  with hl env' show ?thesis by auto
qed

lemma take_permit_err:
  assumes "take_permit env t = (env', Inl e)" and "env_limits env = Some lims"
  shows "\<exists>lims'. env' = env\<lparr>env_limits := Some lims'\<rparr> \<and> (\<forall>k. held lims' k = held lims k)"
proof -
  obtain l' u where en: "ensure_node_limit lims (node_name t) (max_concurrent t) = (l', u)" by fastforce
  have hl: "held l' k = held lims k" for k using held_ensure[of lims "node_name t" "max_concurrent t" k] en by simp
  show ?thesis
  proof (cases u)
    case (Inl e')
    with assms en hl show ?thesis by (auto simp: take_permit_def)
  next
    case (Inr x)
    obtain l'' r where a: "limiter_acquire l' (node_name t) = (l'', r)" by fastforce
    with assms en Inr have r: "r \<noteq> Inr ()" and env': "env' = env\<lparr>env_limits := Some l''\<rparr>"
      by (auto simp: take_permit_def)
    from a r have "l'' = l'" by (cases rule: permit.acquire_cases[of l' "node_name t"]) auto
    with hl env' show ?thesis by auto
  qed
qed

lemma give_permit_held:
  assumes "env_limits env = Some lims" and "canon (node_name t) = node_name t" and "1 \<le> held lims (node_name t)"
  shows "\<exists>lims'. give_permit env t = (env\<lparr>env_limits := Some lims'\<rparr>, Inr ()) \<and>
    (\<forall>k. held lims' k = held lims k - (if node_name t = k then 1 else 0))"
proof -
  obtain l' r where rel: "limiter_release lims (node_name t) = (l', r)" by fastforce
  have "r = Inr () \<and> (\<forall>k. held l' k = held lims k - (if node_name t = k then 1 else 0))"
    using rel assms(2,3)
    by (cases rule: permit.release_cases[of lims "node_name t"]) (auto simp: held_def)
  with rel assms(1) show ?thesis by (auto simp: give_permit_def)
qed

lemma set_health_account:
  assumes "registry_wf nodes" and "node_slots.within_cap nodes" and "load_account nodes sending R"
    and "known_targets nodes fls"
  shows "registry_wf (fst (set_health nodes n h)) \<and> node_slots.within_cap (fst (set_health nodes n h))
    \<and> load_account (fst (set_health nodes n h)) sending R \<and> known_targets (fst (set_health nodes n h)) fls"
proof -
  have "node_load (fst (set_health nodes n h)) = node_load nodes"
    "node_cap (fst (set_health nodes n h)) = node_cap nodes"
    by (auto simp: set_health_def Let_def node_load_def node_cap_def fun_eq_iff split: option.splits)
  moreover have "load_account (fst (set_health nodes n h)) sending R"
    using assms(3) by (auto simp: load_account_def set_health_def Let_def split: option.splits)
  moreover have "known_targets (fst (set_health nodes n h)) fls"
    using assms(4) by (auto simp: set_health_def Let_def intro: known_targets_dset split: option.splits)
  ultimately show ?thesis
    using assms(1,2) set_health_wf by (auto simp: node_slots.within_cap_def)
qed

lemma increment_account:
  assumes "increment_active nodes k = (nodes', Inr ())" and "canon k = k" and "load_account nodes sending R"
    and "node_name (fl_target fl) = k"
  shows "load_account nodes' (fl # sending) R"
  using assms
  by (auto simp: increment_active_def Let_def load_account_def going_to_Cons split: option.splits if_splits)

lemma increment_refused: "increment_active nodes k = (nodes', Inl e) \<Longrightarrow> nodes' = nodes"
  by (auto simp: increment_active_def Let_def split: option.splits if_splits)

lemma increment_known:
  "known_targets nodes fls \<Longrightarrow> known_targets (fst (increment_active nodes k)) fls"
  "known_targets nodes fls \<Longrightarrow> known_targets (fst (decrement_active nodes k)) fls"
  by (auto simp: increment_active_def decrement_active_def Let_def intro: known_targets_dset split: option.splits)

lemma decrement_account:
  assumes "fl \<in> set sending" and "node_name (fl_target fl) = k" and "canon k = k" and "dhas nodes k"
    and "load_account nodes sending R"
  shows "snd (decrement_active nodes k) = Inr () \<and>
    load_account (fst (decrement_active nodes k)) (remove1 fl sending) R"
proof -
  have "1 \<le> going_to k sending" using assms(1,2) by (induction sending) (auto simp: going_to_Cons)
  moreover obtain c where c: "dget nodes k = Some c" using assms(4) by (auto simp: dhas_def)
  moreover have "active_requests c \<le> going_to k sending \<and> (k \<notin> set R \<longrightarrow> active_requests c = going_to k sending)"
    using assms(5) c by (simp add: load_account_def)
  moreover from this have "active_requests c - 1 < going_to k sending" by linarith
  ultimately show ?thesis
    using assms by (simp add: decrement_active_def load_account_def going_to_remove1)
qed

lemma dispatch_begin_Inr:
  assumes "dispatch_begin S l env p dl now1 now2 = (env', Inr fl)"
  shows "dispatch_prepare S l (env_registry env) p dl now1 now2 = Inr fl \<and>
    take_permit env (fl_target fl) = (env', Inr ())"
  using assms by (auto simp: dispatch_begin_def rbind_Inr_iff split: sum.splits prod.splits)

lemma prepare_target:
  assumes "registry_wf nodes" and "dispatch_prepare S l nodes p dl now1 now2 = Inr fl"
  shows "canon (node_name (fl_target fl)) = node_name (fl_target fl) \<and> dhas nodes (node_name (fl_target fl))"
proof -
  from assms(2) have "route_resolve nodes l p = Inr (fl_target fl)"
    by (auto simp: dispatch_prepare_def rbind_Inr_iff)
  from route_resolve_registered[OF assms(1) this] show ?thesis by (auto simp: wf_node_def dhas_def)
qed

lemma begin_account:
  assumes "dispatch_begin S l env p dl now1 now2 = (env', r)" and "registry_wf (env_registry env)"
    and "limits_account (env_limits env) W F L"
  shows "env_registry env' = env_registry env \<and>
    limits_account (env_limits env') (case r of Inr fl \<Rightarrow> fl # W | Inl e \<Rightarrow> W) F L"
proof (cases r)
  case (Inr fl)
  from dispatch_begin_Inr[OF assms(1)[unfolded Inr]]
  have prep: "dispatch_prepare S l (env_registry env) p dl now1 now2 = Inr fl"
    and take: "take_permit env (fl_target fl) = (env', Inr ())" by simp_all
  from assms(3) obtain lims where l: "env_limits env = Some lims"
    and acc: "\<forall>k. held lims k = going_to k W + going_to k F + lost_at k L"
    by (auto simp: limits_account_def)
  from prepare_target[OF assms(2) prep] have "canon (node_name (fl_target fl)) = node_name (fl_target fl)" ..
  from take_permit_ok[OF take l this] acc Inr show ?thesis
    by (auto simp: limits_account_def going_to_Cons)
next
  case (Inl e)
  from assms(3) obtain lims where l: "env_limits env = Some lims"
    and acc: "\<forall>k. held lims k = going_to k W + going_to k F + lost_at k L"
    by (auto simp: limits_account_def)
  show ?thesis
  proof (cases "dispatch_prepare S l (env_registry env) p dl now1 now2")
    case (Inl e')
    with assms(1,3) \<open>r = Inl e\<close> show ?thesis by (auto simp: dispatch_begin_def)
  next
    case (Inr fl)
    with assms(1) \<open>r = Inl e\<close> have "take_permit env (fl_target fl) = (env', Inl e)"
      by (auto simp: dispatch_begin_def rbind_Inl_iff split: prod.splits)
    from take_permit_err[OF this l] acc \<open>r = Inl e\<close> show ?thesis
      by (auto simp: limits_account_def)
  qed
qed

lemma settle_account:
  assumes "dispatch_settle env fl outcome = (env', r)" and "fl \<in> set F"
    and "registry_wf (env_registry env)" and "node_slots.within_cap (env_registry env)"
    and "limits_account (env_limits env) W F L" and "load_account (env_registry env) F R"
    and "known_targets (env_registry env) (W @ F)"
  shows "registry_wf (env_registry env') \<and> node_slots.within_cap (env_registry env')
    \<and> limits_account (env_limits env') W (remove1 fl F) L
    \<and> load_account (env_registry env') (remove1 fl F) R
    \<and> known_targets (env_registry env') (W @ remove1 fl F)"
proof -
  let ?t = "fl_target fl" and ?k = "node_name (fl_target fl)"
  obtain env1 r1 where e1: "dispatch_except env ?t outcome = (env1, r1)" by fastforce
  have lim1: "env_limits env1 = env_limits env" and
    reg1: "env_registry env1 = env_registry env \<or> env_registry env1 = fst (set_health (env_registry env) ?k False)"
    using e1 by (auto simp: dispatch_except_def mark_unhealthy_def split: sum.splits if_splits prod.splits)
  from reg1 set_health_account[OF assms(3,4,6,7)] assms(3,4,6,7)
  have inv1: "registry_wf (env_registry env1)" "node_slots.within_cap (env_registry env1)"
    "load_account (env_registry env1) F R" "known_targets (env_registry env1) (W @ F)"
    by auto
  from inv1(4) assms(2) have k: "canon ?k = ?k" "dhas (env_registry env1) ?k"
    by (auto simp: known_targets_def)
  obtain nodes d where dec: "decrement_active (env_registry env1) ?k = (nodes, d)" by fastforce
  with decrement_account[OF assms(2) refl k inv1(3)] have d: "d = Inr ()"
    and load: "load_account nodes (remove1 fl F) R" by simp_all
  let ?env2 = "env1\<lparr>env_registry := nodes\<rparr>"
  from assms(5) obtain lims where l: "env_limits ?env2 = Some lims"
    and acc: "\<forall>k. held lims k = going_to k W + going_to k F + lost_at k L"
    by (auto simp: limits_account_def lim1)
  have "1 \<le> going_to ?k F" using assms(2) by (induction F) (auto simp: going_to_Cons)
  then have "1 \<le> held lims ?k"
    using acc[rule_format, of ?k] going_to_nonneg[of ?k W] lost_at_nonneg[of ?k L] by linarith
  from give_permit_held[OF l k(1) this] obtain lims' where
    give: "give_permit ?env2 ?t = (?env2\<lparr>env_limits := Some lims'\<rparr>, Inr ())"
    and held': "\<forall>k. held lims' k = held lims k - (if ?k = k then 1 else 0)" by blast
  have env': "env' = ?env2\<lparr>env_limits := Some lims'\<rparr>"
    using assms(1) e1 dec d give by (simp add: dispatch_settle_def dispatch_finally_def)
  have "registry_wf nodes" "node_slots.within_cap nodes" "known_targets nodes (W @ F)"
    using active_wf(2)[OF inv1(1), of ?k] node_slots.within_cap_release[OF inv1(2), of ?k]
      increment_known(2)[OF inv1(4), of ?k] dec by simp_all
  moreover from this(3) have "known_targets nodes (W @ remove1 fl F)"
    by (rule known_targets_mono) (auto dest: notin_set_remove1 in_set_remove1 set_remove1_subset[THEN subsetD])
  ultimately show ?thesis
    using load acc held' assms(2) by (simp add: env' limits_account_def going_to_remove1)
qed

lemma waiting_leaves_account:
  assumes "fl \<in> set W" and "env_limits env = Some lims" and "canon (node_name (fl_target fl)) = node_name (fl_target fl)"
    and "\<forall>k. held lims k = going_to k W + going_to k F + lost_at k L"
  shows "\<exists>lims'. give_permit env (fl_target fl) = (env\<lparr>env_limits := Some lims'\<rparr>, Inr ()) \<and>
    (\<forall>k. held lims' k = going_to k (remove1 fl W) + going_to k F + lost_at k L)"
proof -
  let ?k = "node_name (fl_target fl)"
  have "1 \<le> going_to ?k W" using assms(1) by (induction W) (auto simp: going_to_Cons)
  then have "1 \<le> held lims ?k"
    using assms(4)[rule_format, of ?k] going_to_nonneg[of ?k F] lost_at_nonneg[of ?k L] by linarith
  from give_permit_held[OF assms(2,3) this] show ?thesis
    using assms(1,4) by (auto simp: going_to_remove1)
qed

lemma accounted_canon:
  "accounted s \<Longrightarrow> fl \<in> set (sys_waiting s @ sys_sending s) \<Longrightarrow>
     canon (node_name (fl_target fl)) = node_name (fl_target fl)"
  by (simp add: accounted_def known_targets_def)

lemma resume_account:
  assumes "accounted s" and "fl \<in> set (sys_waiting s)"
    and "dispatch_resume (sys_env s) fl False = (env, Inr ())"
  shows "accounted (s\<lparr>sys_env := env, sys_waiting := remove1 fl (sys_waiting s), sys_sending := fl # sys_sending s\<rparr>)"
proof -
  let ?nodes = "env_registry (sys_env s)" and ?k = "node_name (fl_target fl)"
  have k: "canon ?k = ?k" using accounted_canon[OF assms(1)] assms(2) by simp
  obtain nodes where inc: "increment_active ?nodes ?k = (nodes, Inr ())"
    and env: "env = (sys_env s)\<lparr>env_registry := nodes\<rparr>"
    using assms(3)
    by (auto simp: dispatch_resume_def dispatch_finally_def rbind_Inr_iff split: prod.splits sum.splits)
  have "registry_wf nodes" "node_slots.within_cap nodes" "known_targets nodes (sys_waiting s @ sys_sending s)"
    using active_wf(1)[of ?nodes ?k] node_slots.within_cap_acquire[of ?nodes ?k]
      increment_known(1)[of ?nodes _ ?k] assms(1) inc by (simp_all add: accounted_def)
  moreover from this(3) assms(2)
  have "known_targets nodes (remove1 fl (sys_waiting s) @ fl # sys_sending s)"
    by (elim known_targets_mono) (use set_remove1_subset[of fl "sys_waiting s"] in auto)
  moreover have "load_account nodes (fl # sys_sending s) (sys_rejoined s)"
    using increment_account[OF inc k _ refl] assms(1) by (simp add: accounted_def)
  moreover have "limits_account (env_limits (sys_env s)) (remove1 fl (sys_waiting s)) (fl # sys_sending s) (sys_lost s)"
    using assms(1,2) by (auto simp: accounted_def limits_account_def going_to_remove1 going_to_Cons)
  ultimately show ?thesis by (simp add: accounted_def env)
qed

lemma full_account:
  assumes "accounted s" and "fl \<in> set (sys_waiting s)"
    and "dispatch_resume (sys_env s) fl False = (env, Inl e)"
  shows "accounted (s\<lparr>sys_env := env, sys_waiting := remove1 fl (sys_waiting s)\<rparr>)"
proof -
  let ?nodes = "env_registry (sys_env s)" and ?k = "node_name (fl_target fl)"
  have k: "canon ?k = ?k" using accounted_canon[OF assms(1)] assms(2) by simp
  obtain nodes e' where inc: "increment_active ?nodes ?k = (nodes, Inl e')"
    and fin: "dispatch_finally ((sys_env s)\<lparr>env_registry := nodes\<rparr>) (fl_target fl) True False (Inl e' :: unit res) = (env, Inl e)"
    using assms(3) by (auto simp: dispatch_resume_def split: prod.splits sum.splits)
  from increment_refused[OF inc] have nodes: "nodes = ?nodes" .
  from assms(1) obtain lims where l: "env_limits (sys_env s) = Some lims"
    and acc: "\<forall>k. held lims k = going_to k (sys_waiting s) + going_to k (sys_sending s) + lost_at k (sys_lost s)"
    by (auto simp: accounted_def limits_account_def)
  from waiting_leaves_account[OF assms(2) l k acc] obtain lims' where
    "give_permit (sys_env s) (fl_target fl) = ((sys_env s)\<lparr>env_limits := Some lims'\<rparr>, Inr ())"
    "\<forall>k. held lims' k = going_to k (remove1 fl (sys_waiting s)) + going_to k (sys_sending s) + lost_at k (sys_lost s)"
    by blast
  moreover have "(sys_env s)\<lparr>env_registry := ?nodes\<rparr> = sys_env s" by simp
  moreover have "known_targets ?nodes (remove1 fl (sys_waiting s) @ sys_sending s)"
    using assms(1) by (simp add: accounted_def known_targets_remove1)
  moreover from calculation fin nodes have "env = (sys_env s)\<lparr>env_limits := Some lims'\<rparr>"
    by (simp add: dispatch_finally_def)
  ultimately show ?thesis using assms(1) by (simp add: accounted_def limits_account_def)
qed

lemma cancel_account:
  assumes "accounted s" and "fl \<in> set (sys_waiting s)"
    and "dispatch_resume (sys_env s) fl True = (env, Inl e)"
  shows "accounted (s\<lparr>sys_env := env, sys_waiting := remove1 fl (sys_waiting s),
      sys_lost := node_name (fl_target fl) # sys_lost s\<rparr>)"
proof -
  have "env = sys_env s" using assms(3) by (simp add: dispatch_resume_def dispatch_finally_def)
  moreover have "known_targets (env_registry (sys_env s)) (remove1 fl (sys_waiting s) @ sys_sending s)"
    using assms(1) by (simp add: accounted_def known_targets_remove1)
  moreover have "limits_account (env_limits (sys_env s)) (remove1 fl (sys_waiting s)) (sys_sending s)
      (node_name (fl_target fl) # sys_lost s)"
    using assms(1,2) by (auto simp: accounted_def limits_account_def going_to_remove1 lost_at_Cons)
  ultimately show ?thesis using assms(1) by (simp add: accounted_def)
qed

lemma register_account:
  assumes "accounted s" and "register_node (env_registry (sys_env s)) name node overwrite = (nodes, r)"
    and "wf_node k node" and "active_requests node = 0"
  shows "accounted (s\<lparr>sys_env := (sys_env s)\<lparr>env_registry := nodes\<rparr>,
      sys_rejoined := (if r = Inr () \<and> going_to (canon name) (sys_sending s) \<noteq> 0
                       then canon name # sys_rejoined s else sys_rejoined s)\<rparr>)"
proof (cases r)
  case (Inl e)
  with register_node_unchanged[of "env_registry (sys_env s)" name node overwrite nodes e] assms(1,2)
  show ?thesis by (simp add: accounted_def)
next
  case (Inr u)
  let ?old = "env_registry (sys_env s)"
  from register_node_result[of ?old name node overwrite nodes] assms(2) Inr
  have new: "nodes = dset ?old (canon name) (node\<lparr>node_name := canon name\<rparr>)" by simp
  have "registry_wf nodes" using register_node_wf[OF _ assms(3), of ?old name overwrite] assms(1,2)
    by (simp add: accounted_def)
  moreover have "node_slots.within_cap nodes"
    unfolding new using assms(1,3,4) by (intro within_cap_dset) (auto simp: accounted_def wf_node_def)
  moreover have "known_targets nodes (sys_waiting s @ sys_sending s)"
    unfolding new using assms(1) by (intro known_targets_dset) (simp add: accounted_def)
  moreover have "load_account nodes (sys_sending s)
      (if going_to (canon name) (sys_sending s) \<noteq> 0 then canon name # sys_rejoined s else sys_rejoined s)"
    unfolding new using assms(1,4) by (auto simp: accounted_def load_account_def)
  ultimately show ?thesis using assms(1) Inr by (simp add: accounted_def)
qed

lemma accounted_step:
  assumes "gate_step S l s s'" and "accounted s"
  shows "accounted s'"
  using assms
proof (induction rule: gate_step.induct)
  case (Begin s p dl now1 now2 env fl)
  then have wf: "registry_wf (env_registry (sys_env s))" by (simp add: accounted_def)
  from dispatch_begin_Inr[OF Begin(1)] have "dispatch_prepare S l (env_registry (sys_env s)) p dl now1 now2 = Inr fl" ..
  from prepare_target[OF wf this] begin_account[OF Begin(1) wf, of "sys_waiting s" "sys_sending s" "sys_lost s"] Begin(2)
  show ?case by (simp add: accounted_def known_targets_def)
next
  case (Refused s p dl now1 now2 env e)
  then show ?case
    using begin_account[OF Refused(1), of "sys_waiting s" "sys_sending s" "sys_lost s"]
    by (simp add: accounted_def)
next
  case (Settle fl s outcome env r)
  from settle_account[OF Settle(2,1), of "sys_waiting s" "sys_lost s" "sys_rejoined s"] Settle(3)
  show ?case by (simp add: accounted_def)
next
  case (Probe s name h nodes r)
  from set_health_account[of "env_registry (sys_env s)" "sys_sending s" "sys_rejoined s"
      "sys_waiting s @ sys_sending s" name h] Probe
  show ?case by (simp add: accounted_def)
qed (simp_all add: resume_account full_account cancel_account register_account)

lemma accounted_reachable: "gate_reachable S l s \<Longrightarrow> accounted s"
proof (induction rule: gate_reachable.induct)
  case Start
  show ?case
    by (simp add: accounted_def gate_start_def limits_account_def load_account_def known_targets_def
        held_def permits_def limiter_init_def going_to_def lost_at_def registry_init_def
        node_slots.within_cap_def node_load_def)
next
  case (Step s s')
  then show ?case by (rule_tac accounted_step)
qed

text \<open>
  C1. The counters mean what they say, however dispatches, health probes, registrations
  and re-registrations interleave: a node's load never exceeds its cap nor the number of
  its requests that are with the worker, and it is that number unless the node was
  registered anew while requests were with it; its permits are the dispatches that hold
  one, waiting or sent, plus those that cancellations inside \<open>acquire\<close> lost. With nothing
  in flight and no such cancellation every counter is back to zero.
\<close>

theorem dispatch_accounting:
  assumes "gate_reachable S l s" and "dget (env_registry (sys_env s)) k = Some r"
  shows "active_requests r \<le> going_to k (sys_sending s) \<and> active_requests r \<le> max_concurrent r
    \<and> (k \<notin> set (sys_rejoined s) \<longrightarrow> active_requests r = going_to k (sys_sending s))
    \<and> (\<exists>lims. env_limits (sys_env s) = Some lims \<and> opt_or (permits lims k) 0 =
         going_to k (sys_waiting s) + going_to k (sys_sending s) + lost_at k (sys_lost s))"
proof -
  note acc = accounted_reachable[OF assms(1)]
  then have load: "active_requests r \<le> going_to k (sys_sending s)
      \<and> (k \<notin> set (sys_rejoined s) \<longrightarrow> active_requests r = going_to k (sys_sending s))"
    using assms(2) by (simp add: accounted_def load_account_def)
  have "node_load (env_registry (sys_env s)) k = Some (active_requests r)"
    "node_cap (env_registry (sys_env s)) k = Some (max_concurrent r)"
    by (simp_all add: node_load_def node_cap_def assms(2))
  moreover have "node_slots.within_cap (env_registry (sys_env s))" using acc by (simp add: accounted_def)
  ultimately have "active_requests r \<le> max_concurrent r" unfolding node_slots.within_cap_def by blast
  with load acc show ?thesis by (auto simp: accounted_def limits_account_def held_def)
qed

text \<open>A worker that takes one request at a time, and a request on its way to it.\<close>

definition example_env :: gate_env where
  "example_env = \<lparr>env_registry = [(''graph'', sample_node ''graph'' [''match''] [])], env_limits = Some limiter_init\<rparr>"

lemma example_registered: "gate_reachable S ''gate'' (gate_start\<lparr>sys_env := example_env\<rparr>)"
proof -
  let ?n = "sample_node ''graph'' [''match''] []"
  have "register_node (env_registry (sys_env gate_start)) ''graph'' ?n False = ([(''graph'', ?n)], Inr ())"
    by code_simp
  moreover have "wf_node ''graph'' ?n" by code_simp
  moreover have "active_requests ?n = 0" by (simp add: sample_node_def)
  ultimately have "gate_step S ''gate'' gate_start (gate_start\<lparr>sys_env := example_env\<rparr>)"
    using gate_step.Register[of gate_start "''graph''" ?n False "[(''graph'', ?n)]" "Inr ()" "''graph''" S "''gate''"]
    by (simp add: gate_start_def example_env_def going_to_def)
  then show ?thesis by (blast intro: gate_reachable.intros)
qed

lemma example_dispatch:
  obtains env fl env' where
    "dispatch_begin (ref_sdk (\<lambda>_. raise ValueError [])) ''gate'' example_env (example_packet ''match'') None 0 0
       = (env, Inr fl)"
    and "dispatch_resume env fl False = (env', Inr ())" and "node_name (fl_target fl) = ''graph''"
    and "map_option active_requests (dget (env_registry env') ''graph'') = Some 1"
    and "others (env_registry env') ''graph'' True = []"
proof -
  let ?b = "dispatch_begin (ref_sdk (\<lambda>_. raise ValueError [])) ''gate'' example_env (example_packet ''match'') None 0 0"
  have "case ?b of
      (env, Inr fl) \<Rightarrow>
        (case dispatch_resume env fl False of
           (env', Inr u) \<Rightarrow> map_option active_requests (dget (env_registry env') ''graph'') = Some 1
             \<and> others (env_registry env') ''graph'' True = [] \<and> node_name (fl_target fl) = ''graph''
         | _ \<Rightarrow> False)
    | _ \<Rightarrow> False"
    by code_simp
  moreover obtain env x where b: "?b = (env, x)" by fastforce
  ultimately obtain fl where x: "x = Inr fl" and c: "case dispatch_resume env fl False of
      (env', Inr u) \<Rightarrow> map_option active_requests (dget (env_registry env') ''graph'') = Some 1
        \<and> others (env_registry env') ''graph'' True = [] \<and> node_name (fl_target fl) = ''graph''
    | _ \<Rightarrow> False"
    by (cases x) auto
  obtain env' y where r: "dispatch_resume env fl False = (env', y)" by fastforce
  with c have "y = Inr ()" by (cases y; simp)
  with that[of env fl env'] b x c r show thesis by simp
qed

lemma reachable_example:
  "\<exists>s r. gate_reachable (ref_sdk (\<lambda>_. raise ValueError [])) ''gate'' s
     \<and> dget (env_registry (sys_env s)) ''graph'' = Some r \<and> active_requests r = 1
     \<and> others (env_registry (sys_env s)) ''graph'' True = []
     \<and> (\<exists>fl. sys_sending s = [fl] \<and> node_name (fl_target fl) = ''graph'')"
proof -
  let ?S = "ref_sdk (\<lambda>_. raise ValueError [])" and ?s1 = "gate_start\<lparr>sys_env := example_env\<rparr>"
  obtain env fl env' where d:
    "dispatch_begin ?S ''gate'' example_env (example_packet ''match'') None 0 0 = (env, Inr fl)"
    "dispatch_resume env fl False = (env', Inr ())" "node_name (fl_target fl) = ''graph''"
    "map_option active_requests (dget (env_registry env') ''graph'') = Some 1"
    "others (env_registry env') ''graph'' True = []" by (rule example_dispatch)
  let ?s2 = "?s1\<lparr>sys_env := env, sys_waiting := fl # sys_waiting ?s1\<rparr>"
  have "sys_env ?s1 = example_env" by simp
  from gate_step.Begin[of ?S "''gate''" ?s1, unfolded this, OF d(1)]
  have s2: "gate_reachable ?S ''gate'' ?s2" using example_registered by (rule gate_reachable.Step[rotated])
  have "fl \<in> set (sys_waiting ?s2)" "dispatch_resume (sys_env ?s2) fl False = (env', Inr ())" using d(2) by simp_all
  note s3 = gate_reachable.Step[OF s2 gate_step.Resume[OF this]]
  from d(4) obtain r where "dget (env_registry env') ''graph'' = Some r" "active_requests r = 1" by auto
  with s3 d(3,5) show ?thesis
    by (intro exI[of _ "?s2\<lparr>sys_env := env', sys_waiting := remove1 fl (sys_waiting ?s2),
        sys_sending := fl # sys_sending ?s2\<rparr>"] exI[of _ r]) (simp add: gate_start_def)
qed

theorem dispatch_accounting_witness:
  "\<exists>s r. gate_reachable (ref_sdk (\<lambda>_. raise ValueError [])) ''gate'' s
     \<and> dget (env_registry (sys_env s)) ''graph'' = Some r \<and> active_requests r = 1 \<and> 1 \<le> max_concurrent r"
proof -
  obtain s r where s: "gate_reachable (ref_sdk (\<lambda>_. raise ValueError [])) ''gate'' s"
    and r: "dget (env_registry (sys_env s)) ''graph'' = Some r" and "active_requests r = 1"
    using reachable_example by blast
  with dispatch_accounting[OF s r] show ?thesis by (intro exI[of _ s] exI[of _ r]) simp
qed

text \<open>
  A worker that registers anew while a request is with it is counted as idle: overwriting
  replaces its load by zero.
\<close>

lemma reregistration_forgets_load:
  "\<exists>s r. gate_reachable (ref_sdk (\<lambda>_. raise ValueError [])) ''gate'' s
     \<and> dget (env_registry (sys_env s)) ''graph'' = Some r
     \<and> active_requests r = 0 \<and> going_to ''graph'' (sys_sending s) = 1"
proof -
  let ?S = "ref_sdk (\<lambda>_. raise ValueError [])" and ?n = "sample_node ''graph'' [''match''] []"
  obtain s r fl where s: "gate_reachable ?S ''gate'' s" "dget (env_registry (sys_env s)) ''graph'' = Some r"
    and fl: "sys_sending s = [fl]" "node_name (fl_target fl) = ''graph''"
    and alone: "others (env_registry (sys_env s)) ''graph'' True = []"
    using reachable_example by blast
  let ?nodes = "dset (env_registry (sys_env s)) ''graph'' ?n"
  have g: "canon ''graph'' = ''graph''" "node_name ?n = ''graph''" by code_simp+
  have "wf_node ''graph'' ?n" by code_simp
  moreover have "active_requests ?n = 0" by (simp add: sample_node_def)
  moreover have "register_node (env_registry (sys_env s)) ''graph'' ?n True = (?nodes, Inr ())"
  proof -
    have "assert_registration_ownership ''graph'' (supported_actions ?n) (node_metadata ?n) [] [] = Inr ()"
      by code_simp
    with g alone show ?thesis by (simp add: register_node_def Let_def)
  qed
  ultimately have "gate_step ?S ''gate'' s (s\<lparr>sys_env := (sys_env s)\<lparr>env_registry := ?nodes\<rparr>,
      sys_rejoined := ''graph'' # sys_rejoined s\<rparr>)"
    using gate_step.Register[of s "''graph''" ?n True ?nodes "Inr ()" "''graph''" ?S "''gate''"] fl g(1)
    by (simp add: going_to_def)
  with s(1) have "gate_reachable ?S ''gate'' (s\<lparr>sys_env := (sys_env s)\<lparr>env_registry := ?nodes\<rparr>,
      sys_rejoined := ''graph'' # sys_rejoined s\<rparr>)" by (rule gate_reachable.Step)
  moreover have "active_requests ?n = 0" by (simp add: sample_node_def)
  ultimately show ?thesis using fl
    by (intro exI[of _ "s\<lparr>sys_env := (sys_env s)\<lparr>env_registry := ?nodes\<rparr>, sys_rejoined := ''graph'' # sys_rejoined s\<rparr>"]
        exI[of _ ?n]) (simp add: going_to_def)
qed

text \<open>
  C13. Only an unreachable worker leaves routing: when the transport call of a dispatch
  ends, the target becomes unhealthy exactly if the SDK reported a connection failure,
  no other node's health changes, and the caller gets the worker's reply, or the SDK's
  own exception with the node's name attached, or a cancellation as it is.
\<close>

theorem only_unreachable_leaves_routing:
  assumes "gate_reachable S l s" and "fl \<in> set (sys_sending s)"
    and "dispatch_settle (sys_env s) fl outcome = (env', r)"
  shows "map_option healthy (dget (env_registry env') k) =
      (if k = node_name (fl_target fl) \<and> (\<exists>e. outcome = Inl e \<and> isinstance e WorkerConnectionError)
       then Some False else map_option healthy (dget (env_registry (sys_env s)) k))
    \<and> r = (case outcome of
             Inr reply \<Rightarrow> Inr reply
           | Inl e \<Rightarrow> Inl (if is_exception e then attribute e (node_name (fl_target fl)) else e))"
proof -
  let ?t = "fl_target fl" and ?k = "node_name (fl_target fl)"
  let ?down = "\<exists>e. outcome = Inl e \<and> isinstance e WorkerConnectionError"
  from accounted_reachable[OF assms(1)] have acc: "accounted s" .
  then have k: "canon ?k = ?k" "dhas (env_registry (sys_env s)) ?k"
    using assms(2) by (auto simp: accounted_def known_targets_def)
  obtain env1 r1 where e1: "dispatch_except (sys_env s) ?t outcome = (env1, r1)" by fastforce
  have sub: "isinstance e WorkerConnectionError \<Longrightarrow> is_exception e" for e
    by (cases "exn_class e") (simp_all add: isinstance_def)
  from k e1 have health1: "map_option healthy (dget (env_registry env1) j) =
      (if j = ?k \<and> ?down then Some False else map_option healthy (dget (env_registry (sys_env s)) j))"
    and r1: "r1 = (case outcome of Inr reply \<Rightarrow> Inr reply
      | Inl e \<Rightarrow> Inl (if is_exception e then attribute e ?k else e))"
    and lim1: "env_limits env1 = env_limits (sys_env s)" and has1: "dhas (env_registry env1) ?k" for j
    using sub by (auto simp: dispatch_except_def mark_unhealthy_def set_health_def dhas_def
        split: sum.splits if_splits)
  from has1 k(1) obtain n where dec: "decrement_active (env_registry env1) ?k =
      (dset (env_registry env1) ?k n, Inr ())" and n: "map_option healthy (dget (env_registry env1) ?k) = Some (healthy n)"
    by (auto simp: dhas_def decrement_active_def)
  let ?env2 = "env1\<lparr>env_registry := dset (env_registry env1) ?k n\<rparr>"
  from acc obtain lims where lims: "env_limits (sys_env s) = Some lims"
    and held: "held lims ?k = going_to ?k (sys_waiting s) + going_to ?k (sys_sending s) + lost_at ?k (sys_lost s)"
    by (auto simp: accounted_def limits_account_def)
  have "1 \<le> going_to ?k (sys_sending s)" using assms(2) by (induction "sys_sending s") (auto simp: going_to_def filter_empty_conv Suc_le_eq)
  then have "1 \<le> held lims ?k"
    using held going_to_nonneg[of ?k "sys_waiting s"] lost_at_nonneg[of ?k "sys_lost s"] by linarith
  with give_permit_held[of ?env2 lims ?t] lims lim1 k(1) obtain lims' where
    give: "give_permit ?env2 ?t = (?env2\<lparr>env_limits := Some lims'\<rparr>, Inr ())" by auto
  have "env' = ?env2\<lparr>env_limits := Some lims'\<rparr>" "r = r1"
    using assms(3) e1 dec give by (simp_all add: dispatch_settle_def dispatch_finally_def)
  moreover from this(1) have "map_option healthy (dget (env_registry env') k) = map_option healthy (dget (env_registry env1) k)"
    by (cases "k = ?k") (simp_all add: n)
  ultimately show ?thesis using health1[of k] r1 by simp
qed

theorem only_unreachable_leaves_routing_witness:
  "\<exists>s fl env' r. gate_reachable (ref_sdk (\<lambda>_. raise ValueError [])) ''gate'' s \<and> fl \<in> set (sys_sending s)
     \<and> dispatch_settle (sys_env s) fl (raise WorkerConnectionError []) = (env', r)
     \<and> map_option healthy (dget (env_registry env') (node_name (fl_target fl))) = Some False"
proof -
  obtain s fl where s: "gate_reachable (ref_sdk (\<lambda>_. raise ValueError [])) ''gate'' s"
    and fl: "fl \<in> set (sys_sending s)" using reachable_example by fastforce
  obtain env' r where d: "dispatch_settle (sys_env s) fl (raise WorkerConnectionError []) = (env', r)" by fastforce
  from only_unreachable_leaves_routing[OF s fl d, of "node_name (fl_target fl)"] s fl d
  show ?thesis by auto
qed

end
