(* ===== verification/Workflow.thy ===== *)
theory Workflow
  imports Condition_Eval Dispatch "HOL-Library.Sublist"
begin

text \<open>
  Workflows: the step and definition models with their validators
  (\<open>orchestration/workflow_models.py\<close>, \<open>schemas/workflow.py\<close>), the loading of the
  configuration (\<open>api/dependencies.py\<close>), and the sequential engine
  (\<open>orchestration/workflow_engine.py\<close>). The engine runs in a world that the awaited
  dispatcher transforms and from which the clock is read.
\<close>

section \<open>Models\<close>

definition ALLOWED_MERGE_STRATEGIES :: "string list" where
  "ALLOWED_MERGE_STRATEGIES = [''identity'', ''merge_payload'', ''merge_results'']"

record wf_step =
  st_name :: string
  st_action :: string
  st_timeout_ms :: "int option"
  st_merge_strategy :: string
  st_condition :: "string option"

definition validate_optional_string :: "string option \<Rightarrow> string option res" where
  "validate_optional_string v =
     (case v of
        None \<Rightarrow> Inr None
      | Some s \<Rightarrow>
          if strip s = [] then raise ValueError ''string fields must not be blank''
          else Inr (Some (strip s)))"

definition validate_merge_strategy :: "string \<Rightarrow> string res" where
  "validate_merge_strategy v =
     (let normalized = canon v
      in if normalized \<notin> set ALLOWED_MERGE_STRATEGIES
         then raise ValueError ''merge_strategy must be one of the allowed strategies''
         else Inr normalized)"

definition optional_at_least :: "int \<Rightarrow> int option \<Rightarrow> int option res" where
  "optional_at_least m v =
     (case v of None \<Rightarrow> Inr None | Some n \<Rightarrow> rbind (at_least m n) (\<lambda>n'. Inr (Some n')))"

definition workflow_step :: "wf_step \<Rightarrow> wf_step res" where
  "workflow_step r = as_validation_error
     (rbind (validate_optional_string (Some (st_name r))) (\<lambda>name.
      rbind (validate_optional_string (Some (st_action r))) (\<lambda>act.
      rbind (optional_at_least 1 (st_timeout_ms r)) (\<lambda>tmo.
      rbind (validate_merge_strategy (st_merge_strategy r)) (\<lambda>ms.
      rbind (validate_optional_string (st_condition r)) (\<lambda>cond.
        Inr \<lparr>st_name = the name, st_action = the act, st_timeout_ms = tmo,
             st_merge_strategy = ms, st_condition = cond\<rparr>))))))"

record wf_definition =
  wd_name :: string
  wd_description :: string
  wd_steps :: "wf_step list"

definition validate_wf_string :: "string \<Rightarrow> string res" where
  "validate_wf_string v =
     (if v = [] then Inr v
      else if strip v = [] then raise ValueError ''string fields must not be blank''
      else Inr (strip v))"

definition validate_wf_steps :: "wf_step list \<Rightarrow> wf_step list res" where
  "validate_wf_steps v =
     (if v = [] then raise ValueError ''workflow must contain at least one step''
      else if \<not> distinct (map (\<lambda>s. canon (st_name s)) v)
      then raise ValueError ''workflow step names must be unique''
      else Inr v)"

definition workflow_definition :: "wf_definition \<Rightarrow> wf_definition res" where
  "workflow_definition r = as_validation_error
     (rbind (validate_wf_string (wd_name r)) (\<lambda>name.
      rbind (validate_wf_string (wd_description r)) (\<lambda>desc.
      rbind (rmap workflow_step (wd_steps r)) (\<lambda>steps.
      rbind (validate_wf_steps steps) (\<lambda>steps'.
        Inr \<lparr>wd_name = name, wd_description = desc, wd_steps = steps'\<rparr>)))))"

section \<open>The schema of the configuration\<close>

record step_schema =
  ss_action :: string
  ss_timeout_ms :: "int option"
  ss_payload_transform :: string
  ss_condition :: "string option"
  ss_target_node :: "string option"

definition schema_action :: "string \<Rightarrow> string res" where
  "schema_action v =
     (if canon v = [] then raise ValueError ''action must not be blank'' else Inr (canon v))"

definition schema_payload_transform :: "string \<Rightarrow> string res" where
  "schema_payload_transform v =
     (if canon v \<notin> {''identity'', ''merge_payload'', ''merge_results''}
      then raise ValueError ''payload_transform must be one of identity, merge_payload, merge_results''
      else Inr (canon v))"

definition schema_optional_string :: "string option \<Rightarrow> string option res" where
  "schema_optional_string v =
     (case v of
        None \<Rightarrow> Inr None
      | Some s \<Rightarrow>
          if strip s = [] then raise ValueError ''optional string fields must not be blank''
          else Inr (Some (strip s)))"

definition step_schema_validate :: "step_schema \<Rightarrow> step_schema res" where
  "step_schema_validate r = as_validation_error
     (rbind (schema_action (ss_action r)) (\<lambda>act.
      rbind (optional_at_least 1 (ss_timeout_ms r)) (\<lambda>tmo.
      rbind (schema_payload_transform (ss_payload_transform r)) (\<lambda>pt.
      rbind (schema_optional_string (ss_condition r)) (\<lambda>cond.
      rbind (schema_optional_string (ss_target_node r)) (\<lambda>tn.
        Inr \<lparr>ss_action = act, ss_timeout_ms = tmo, ss_payload_transform = pt,
             ss_condition = cond, ss_target_node = tn\<rparr>))))))"

record workflow_schema =
  ws_description :: string
  ws_steps :: "step_schema list"

definition workflow_schema_validate :: "workflow_schema \<Rightarrow> workflow_schema res" where
  "workflow_schema_validate r = as_validation_error
     (rbind (rmap step_schema_validate (ws_steps r)) (\<lambda>steps.
        if steps = [] then raise ValueError ''workflow must contain at least one step''
        else Inr \<lparr>ws_description = strip (ws_description r), ws_steps = steps\<rparr>))"

fun schema_names ::
  "(string \<times> workflow_schema) list \<Rightarrow> (string \<times> workflow_schema) list \<Rightarrow>
     (string \<times> workflow_schema) list res" where
  "schema_names normalized [] = Inr normalized"
| "schema_names normalized ((name, w) # rest) =
     (if canon name = [] then raise ValueError ''workflow names must not be blank''
      else schema_names (dset normalized (canon name) w) rest)"

definition workflow_config_validate ::
  "(string \<times> workflow_schema) list \<Rightarrow> (string \<times> workflow_schema) list res" where
  "workflow_config_validate ws = as_validation_error
     (rbind (rmap (\<lambda>(n, w). rbind (workflow_schema_validate w) (\<lambda>w'. Inr (n, w'))) ws) (\<lambda>ws'.
        if ws' = [] then raise ValueError ''workflows must not be empty'' else schema_names [] ws'))"

section \<open>Loading\<close>

text \<open>\<open>str(n)\<close> for a positive number.\<close>

fun nat_str :: "nat \<Rightarrow> string" where
  "nat_str n =
     (if n < 10 then [char_of (48 + n)] else nat_str (n div 10) @ [char_of (48 + n mod 10)])"

declare nat_str.simps [simp del]

abbreviation pd_has :: "(pyval \<times> pyval) list \<Rightarrow> pyval \<Rightarrow> bool" where
  "pd_has d k \<equiv> pd_get d k \<noteq> None"

definition pd_del :: "(pyval \<times> pyval) list \<Rightarrow> pyval \<Rightarrow> (pyval \<times> pyval) list" where
  "pd_del d k = filter (\<lambda>(k', v). \<not> py_eq k' k) d"

definition normalize_step :: "nat \<Rightarrow> pyval \<Rightarrow> pyval" where
  "normalize_step index step =
     (case step of
        PyDict d \<Rightarrow>
          (let d1 = (if \<not> pd_has d (PyStr ''merge_strategy'') then
                       (case pd_get d (PyStr ''payload_transform'') of
                          Some v \<Rightarrow> pd_set (pd_del d (PyStr ''payload_transform'')) (PyStr ''merge_strategy'') v
                        | None \<Rightarrow> d)
                     else d);
               d2 = (if \<not> pd_has d1 (PyStr ''name'') then
                       (case pd_get d1 (PyStr ''action'') of
                          Some (PyStr a) \<Rightarrow>
                            pd_set d1 (PyStr ''name'') (PyStr (canon a @ ''-'' @ nat_str (index + 1)))
                        | _ \<Rightarrow> d1)
                     else d1)
           in PyDict d2)
      | _ \<Rightarrow> step)"

fun normalize_steps :: "nat \<Rightarrow> pyval list \<Rightarrow> pyval list" where
  "normalize_steps i [] = []"
| "normalize_steps i (s # ss) = normalize_step i s # normalize_steps (Suc i) ss"

definition normalize_workflow_steps :: "(pyval \<times> pyval) list \<Rightarrow> (pyval \<times> pyval) list" where
  "normalize_workflow_steps d =
     (case pd_get d (PyStr ''steps'') of
        Some (PyList steps) \<Rightarrow> pd_set d (PyStr ''steps'') (PyList (normalize_steps 0 steps))
      | _ \<Rightarrow> d)"

text \<open>
  \<open>typed\<close> is pydantic's conversion of a mapping to the declared field types of
  \<open>WorkflowDefinition\<close>, \<open>None\<close> when a field is unknown, is missing or does not convert.
  Every failure of the body becomes a \<open>ValueError\<close>.
\<close>

fun load_definitions ::
  "((pyval \<times> pyval) list \<Rightarrow> wf_definition option) \<Rightarrow> (string \<times> wf_definition) list \<Rightarrow>
     (pyval \<times> pyval) list \<Rightarrow> (string \<times> wf_definition) list res" where
  "load_definitions typed acc [] = Inr acc"
| "load_definitions typed acc ((name, v) # rest) =
     (case v of
        PyDict d \<Rightarrow>
          (let d1 = (if pd_has d (PyStr ''name'') then d else (PyStr ''name'', name) # d);
               d2 = normalize_workflow_steps d1
           in case typed d2 of
                None \<Rightarrow> raise ValueError ''workflow failed validation''
              | Some r \<Rightarrow>
                  (case (workflow_definition r, name) of
                     (Inr w, PyStr n) \<Rightarrow> load_definitions typed (dset acc (canon n) w) rest
                   | _ \<Rightarrow> raise ValueError ''workflow failed validation''))
      | _ \<Rightarrow> raise ValueError ''workflow must be a YAML mapping'')"

text \<open>The file is given by its parsed content; \<open>None\<close> is a file that does not exist.\<close>

definition load_workflow_definitions ::
  "((pyval \<times> pyval) list \<Rightarrow> wf_definition option) \<Rightarrow> pyval res option \<Rightarrow>
     (string \<times> wf_definition) list res" where
  "load_workflow_definitions typed file =
     (case file of
        None \<Rightarrow> raise ValueError ''workflow config file does not exist''
      | Some (Inl e) \<Rightarrow> raise ValueError ''workflow config is not valid YAML''
      | Some (Inr PyNone) \<Rightarrow> Inr []
      | Some (Inr (PyDict d)) \<Rightarrow>
          (case opt_or (pd_get d (PyStr ''workflows'')) (PyDict []) of
             PyDict ws \<Rightarrow> load_definitions typed [] ws
           | _ \<Rightarrow> raise ValueError ''workflows key must be a YAML mapping'')
      | Some (Inr v) \<Rightarrow> raise ValueError ''workflow config must be a YAML mapping at the top level'')"

section \<open>The engine\<close>

record workflow_engine =
  we_definitions :: "(string \<times> wf_definition) list"
  we_local_node :: string

fun canonical_definitions ::
  "(string \<times> wf_definition) list \<Rightarrow> (string \<times> wf_definition) list \<Rightarrow> (string \<times> wf_definition) list" where
  "canonical_definitions acc [] = acc"
| "canonical_definitions acc ((n, d) # rest) = canonical_definitions (dset acc (canon n) d) rest"

definition validate_definitions :: "workflow_engine \<Rightarrow> registry option \<Rightarrow> unit res" where
  "validate_definitions E reg =
     (case reg of
        None \<Rightarrow> Inr ()
      | Some nodes \<Rightarrow>
          if all_supported_actions nodes = {} then Inr ()
          else
            (let known = set (dkeys (we_definitions E)) \<union> all_supported_actions nodes
             in rall (\<lambda>(n, d). rall (\<lambda>step.
                  if canon (st_action step) \<notin> known
                  then raise ValueError ''step action is not present in the shared NodeRegistry''
                  else Inr ()) (wd_steps d)) (we_definitions E)))"

definition workflow_engine_init ::
  "(string \<times> wf_definition) list \<Rightarrow> string \<Rightarrow> registry option \<Rightarrow> workflow_engine res" where
  "workflow_engine_init definitions local_node reg =
     (let E = \<lparr>we_definitions = canonical_definitions [] definitions, we_local_node = canon local_node\<rparr>
      in rbind (validate_definitions E reg) (\<lambda>_. Inr E))"

definition has_workflow :: "workflow_engine \<Rightarrow> string \<Rightarrow> bool" where
  "has_workflow E name = dhas (we_definitions E) (canon name)"

definition step_timeout_ms ::
  "int option \<Rightarrow> int option \<Rightarrow> deadline option \<Rightarrow> pyfloat \<Rightarrow> pyfloat \<Rightarrow> int option res" where
  "step_timeout_ms step_ms packet_ms dl now1 now2 =
     (let declared = (case step_ms of None \<Rightarrow> packet_ms | Some n \<Rightarrow> Some n)
      in case dl of
           None \<Rightarrow> Inr declared
         | Some d \<Rightarrow>
             rbind (raise_if_expired d now1) (\<lambda>_.
               let remaining_ms = max 1 (int_of_float (fmul (remaining_seconds d now2) 1000))
               in Inr (Some (case declared of None \<Rightarrow> remaining_ms | Some n \<Rightarrow> min n remaining_ms))))"

text \<open>The keys of a JSON object are strings.\<close>

definition json_object :: "(pyval \<times> pyval) list \<Rightarrow> payload" where
  "json_object d = concat (map (\<lambda>(k, v). case k of PyStr s \<Rightarrow> [(s, v)] | _ \<Rightarrow> []) d)"

definition merge_payload :: "wf_step \<Rightarrow> payload \<Rightarrow> payload \<Rightarrow> payload" where
  "merge_payload step current response =
     (if st_merge_strategy step = ''identity'' then response
      else if st_merge_strategy step = ''merge_results'' then
        (case dget response ''data'' of
           Some (PyDict d) \<Rightarrow> dupdate current (json_object d)
         | _ \<Rightarrow> dupdate current response)
      else dupdate current response)"

type_synonym condition_language = "(string \<Rightarrow> expr res) \<times> formatter"

definition should_execute_step ::
  "condition_language \<Rightarrow> wf_step \<Rightarrow> payload \<Rightarrow> payload option \<Rightarrow> payload \<Rightarrow> bool res" where
  "should_execute_step lang step pl response accumulated =
     (case st_condition step of
        None \<Rightarrow> Inr True
      | Some c \<Rightarrow>
          evaluate (fst lang) (snd lang) c (payload_val pl)
            (case response of None \<Rightarrow> PyNone | Some r \<Rightarrow> payload_val r)
            (st_action step) (payload_val accumulated))"

definition step_args :: "string \<Rightarrow> packet \<Rightarrow> wf_step \<Rightarrow> payload \<Rightarrow> int option \<Rightarrow> derive_args" where
  "step_args local_node orig step pl tmo = no_args
     \<lparr>da_packet_type := Some ''request'', da_action := Some (st_action step),
      da_source_node := Some local_node, da_destination_node := Some local_node,
      da_reply_to := Some local_node, da_payload := Some pl, da_timeout_ms := tmo,
      da_provenance := Some
        \<lparr>origin_kind = ''gate'', requested_action = st_action step, resolved_by_gate = False,
         original_source_node = Some (source_node (address orig)), route_kind = None\<rparr>\<rparr>"

text \<open>
  The loop over the steps. \<open>clock 0\<close> and \<open>clock 1\<close> are the two readings of a step's
  timeout; \<open>disp\<close> is the dispatcher.
\<close>

fun workflow_steps ::
  "sdk \<Rightarrow> condition_language \<Rightarrow> string \<Rightarrow> packet \<Rightarrow> deadline option \<Rightarrow> (nat \<Rightarrow> 'w \<Rightarrow> pyfloat) \<Rightarrow>
     ('w \<Rightarrow> packet \<Rightarrow> 'w \<times> packet res) \<Rightarrow> wf_step list \<Rightarrow> payload \<Rightarrow> payload option \<Rightarrow> packet \<Rightarrow> 'w \<Rightarrow>
     'w \<times> payload res" where
  "workflow_steps S lang l orig dl clock disp [] pl response cur w = (w, Inr pl)"
| "workflow_steps S lang l orig dl clock disp (step # steps) pl response cur w =
     (case should_execute_step lang step pl response pl of
        Inl e \<Rightarrow> (w, Inl e)
      | Inr False \<Rightarrow> workflow_steps S lang l orig dl clock disp steps pl response cur w
      | Inr True \<Rightarrow>
          (case rbind (step_timeout_ms (st_timeout_ms step) (timeout_ms (header cur)) dl
                         (clock 0 w) (clock 1 w))
                  (\<lambda>tmo. sdk_derive S cur (step_args l orig step pl tmo)) of
             Inl e \<Rightarrow> (w, Inl e)
           | Inr step_packet \<Rightarrow>
               (case disp w step_packet of
                  (w', Inl e) \<Rightarrow> (w', Inl e)
                | (w', Inr reply) \<Rightarrow>
                    workflow_steps S lang l orig dl clock disp steps
                      (merge_payload step pl (payload reply)) (Some (payload reply)) reply w')))"

text \<open>The answer of a workflow that went through.\<close>

definition workflow_response :: "sdk \<Rightarrow> workflow_engine \<Rightarrow> packet \<Rightarrow> payload \<Rightarrow> packet res" where
  "workflow_response S E p pl =
     sdk_derive S p (no_args
       \<lparr>da_packet_type := Some ''response'', da_source_node := Some (we_local_node E),
        da_destination_node := Some (reply_to (address p)),
        da_reply_to := Some (we_local_node E), da_payload := Some pl,
        da_provenance := Some
          \<lparr>origin_kind = ''gate'', requested_action = canon (action (header p)),
           resolved_by_gate = True,
           original_source_node = Some (source_node (address p)),
           route_kind = None\<rparr>\<rparr>)"

definition workflow_execute ::
  "sdk \<Rightarrow> condition_language \<Rightarrow> workflow_engine \<Rightarrow> deadline option \<Rightarrow> (nat \<Rightarrow> 'w \<Rightarrow> pyfloat) \<Rightarrow>
     ('w \<Rightarrow> packet \<Rightarrow> 'w \<times> packet res) \<Rightarrow> packet \<Rightarrow> 'w \<Rightarrow> 'w \<times> packet res" where
  "workflow_execute S lang E dl clock disp p w =
     (case dget (we_definitions E) (canon (action (header p))) of
        None \<Rightarrow> (w, raise LookupError ''no workflow defined for action'')
      | Some d \<Rightarrow>
          (case workflow_steps S lang (we_local_node E) p dl clock disp (wd_steps d) (payload p)
                  None p w of
             (w', Inl e) \<Rightarrow> (w', Inl e)
           | (w', Inr pl) \<Rightarrow> (w', workflow_response S E p pl)))"

definition maybe_execute ::
  "sdk \<Rightarrow> condition_language \<Rightarrow> workflow_engine \<Rightarrow> (nat \<Rightarrow> 'w \<Rightarrow> pyfloat) \<Rightarrow>
     ('w \<Rightarrow> packet \<Rightarrow> 'w \<times> packet res) \<Rightarrow> packet \<Rightarrow> 'w \<Rightarrow> 'w \<times> packet res" where
  "maybe_execute S lang E clock disp p w =
     (if has_workflow E (action (header p)) then workflow_execute S lang E None clock disp p w
      else (w, Inr p))"

section \<open>What a workflow sends\<close>

text \<open>What is left of a deadline in whole milliseconds, and at least one.\<close>

definition budget_left :: "deadline \<Rightarrow> pyfloat \<Rightarrow> int" where
  "budget_left d now = max 1 (int_of_float (fmul (remaining_seconds d now) 1000))"

lemma budget_left_antimono: "s \<le> t \<Longrightarrow> budget_left d t \<le> budget_left d s"
  unfolding budget_left_def fmul_def
  by (intro max.mono order_refl int_of_float_mono rnd_mono mult_right_mono remaining_antimono) simp_all

lemma step_timeout_Inr:
  assumes "step_timeout_ms step_ms packet_ms (Some d) now1 now2 = Inr r"
  shows "\<not> expired d now1 \<and> (\<exists>b. r = Some b \<and> b \<le> budget_left d now2
    \<and> (\<forall>n. step_ms = Some n \<longrightarrow> b \<le> n) \<and> (step_ms = None \<longrightarrow> (\<forall>n. packet_ms = Some n \<longrightarrow> b \<le> n)))"
  using assms
  by (auto simp: step_timeout_ms_def raise_if_expired_def budget_left_def Let_def
      split: if_splits option.splits)

text \<open>A dispatcher that also records what it is given.\<close>

definition logged ::
  "('w \<Rightarrow> packet \<Rightarrow> 'w \<times> packet res) \<Rightarrow> 'w \<times> packet list \<Rightarrow> packet \<Rightarrow> ('w \<times> packet list) \<times> packet res" where
  "logged disp s q = (case disp (fst s) q of (w', r) \<Rightarrow> ((w', snd s @ [q]), r))"

text \<open>
  A step's packet: a request of Gate to itself for the step's action, on behalf of the
  node that asked for the workflow, not yet resolved, and within the deadline.
\<close>

definition step_request :: "string \<Rightarrow> packet \<Rightarrow> deadline option \<Rightarrow> packet \<Rightarrow> bool" where
  "step_request l orig dl q \<longleftrightarrow>
     address q = \<lparr>source_node = canon l, destination_node = canon l, reply_to = canon l\<rparr>
     \<and> packet_type (header q) = ''request'' \<and> origin_kind (provenance q) = ''gate''
     \<and> \<not> resolved_by_gate (provenance q) \<and> requested_action (provenance q) = action (header q)
     \<and> original_source_node (provenance q) = Some (source_node (address orig))
     \<and> (\<forall>d. dl = Some d \<longrightarrow> (\<exists>b now. timeout_ms (header q) = Some b \<and> b \<le> budget_left d now))"

lemma step_packet_request:
  assumes "derives_ok S" and "l \<noteq> []" and "st_action step \<noteq> []"
    and "rbind (step_timeout_ms (st_timeout_ms step) packet_ms dl now1 now2)
          (\<lambda>tmo. sdk_derive S cur (step_args l orig step pl tmo)) = Inr q"
  shows "step_request l orig dl q \<and> action (header q) = st_action step"
proof -
  from assms(4) obtain tmo where tmo: "step_timeout_ms (st_timeout_ms step) packet_ms dl now1 now2 = Inr tmo"
    and "sdk_derive S cur (step_args l orig step pl tmo) = Inr q" by (auto simp: rbind_Inr_iff)
  from derives_okD[OF assms(1) this(2)] assms(2,3)
  have q: "address q = \<lparr>source_node = canon l, destination_node = canon l, reply_to = canon l\<rparr>"
    "action (header q) = st_action step" "packet_type (header q) = ''request''"
    "timeout_ms (header q) = (case tmo of None \<Rightarrow> timeout_ms (header cur) | Some t \<Rightarrow> Some t)"
    "provenance q = \<lparr>origin_kind = ''gate'', requested_action = st_action step, resolved_by_gate = False,
         original_source_node = Some (source_node (address orig)), route_kind = None\<rparr>"
    by (simp_all add: derived_from_def step_args_def no_args_def str_or_def opt_or_def)
  have "\<exists>b now. timeout_ms (header q) = Some b \<and> b \<le> budget_left d now" if "dl = Some d" for d
    using step_timeout_Inr[OF tmo[unfolded that]] q(4) by auto
  with q show ?thesis by (simp add: step_request_def)
qed

text \<open>What one step does: it ends the workflow before a packet is sent, is skipped, or sends
  one packet, after which the dispatch fails or the steps that are left run on its reply.\<close>

lemma workflow_steps_cases:
  assumes "workflow_steps S lang l orig dl clock disp (x # steps) pl resp cur w = (w', r)"
  obtains (ended) e where "w' = w" "r = Inl e"
  | (skipped) "workflow_steps S lang l orig dl clock disp steps pl resp cur w = (w', r)"
  | (failed) q e where
      "rbind (step_timeout_ms (st_timeout_ms x) (timeout_ms (header cur)) dl (clock 0 w) (clock 1 w))
         (\<lambda>tmo. sdk_derive S cur (step_args l orig x pl tmo)) = Inr q"
      "disp w q = (w', Inl e)" "r = Inl e"
  | (sent) q w1 reply where
      "rbind (step_timeout_ms (st_timeout_ms x) (timeout_ms (header cur)) dl (clock 0 w) (clock 1 w))
         (\<lambda>tmo. sdk_derive S cur (step_args l orig x pl tmo)) = Inr q"
      "disp w q = (w1, Inr reply)"
      "workflow_steps S lang l orig dl clock disp steps (merge_payload x pl (payload reply))
         (Some (payload reply)) reply w1 = (w', r)"
  using assms by (auto split: sum.splits bool.splits prod.splits)

lemma workflow_steps_send:
  assumes "derives_ok S" and "l \<noteq> []" and "list_all (\<lambda>s. st_action s \<noteq> []) steps"
    and "workflow_steps S lang l orig dl clock (logged disp) steps pl resp cur s = (s', r)"
  shows "\<exists>sent. snd s' = snd s @ sent \<and> list_all (step_request l orig dl) sent
    \<and> subseq (map (\<lambda>q. action (header q)) sent) (map st_action steps)"
  using assms(3,4)
proof (induction steps arbitrary: pl resp cur s)
  case (Cons x steps)
  from Cons.prems(1) have acts: "st_action x \<noteq> []" "list_all (\<lambda>s. st_action s \<noteq> []) steps" by simp_all
  note request = step_packet_request[OF assms(1,2) acts(1)]
  show ?case
    using Cons.prems(2)
  proof (cases rule: workflow_steps_cases)
    case skipped
    from Cons.IH[OF acts(2) this] show ?thesis by (auto intro: list_emb_Cons)
  next
    case (failed q e)
    with request[OF failed(1)] show ?thesis
      by (intro exI[of _ "[q]"]) (auto simp: logged_def split: prod.splits)
  next
    case (sent q s1 reply)
    from Cons.IH[OF acts(2) sent(3)] obtain qs where "snd s' = snd s1 @ qs"
      "list_all (step_request l orig dl) qs" "subseq (map (\<lambda>q. action (header q)) qs) (map st_action steps)"
      by auto
    with sent(2) request[OF sent(1)] show ?thesis
      by (intro exI[of _ "q # qs"]) (auto simp: logged_def split: prod.splits)
  qed simp
qed simp

lemma canonical_definitions_values:
  "dget (canonical_definitions acc defs) k = Some d \<Longrightarrow>
     (\<exists>k'. dget acc k' = Some d) \<or> d \<in> snd ` set defs"
proof (induction acc defs rule: canonical_definitions.induct)
  case (2 acc n d' rest)
  then show ?case by (fastforce split: if_splits)
qed auto

lemma workflow_step_action: "workflow_step raw = Inr s \<Longrightarrow> st_action s \<noteq> []"
  by (auto simp: workflow_step_def validate_optional_string_def rbind_Inr_iff split: if_splits)

lemma workflow_definition_actions:
  assumes "workflow_definition raw = Inr d"
  shows "list_all (\<lambda>s. st_action s \<noteq> []) (wd_steps d)"
proof -
  obtain steps where steps: "rmap workflow_step (wd_steps raw) = Inr steps" "validate_wf_steps steps = Inr (wd_steps d)"
    using assms by (auto simp: workflow_definition_def rbind_Inr_iff)
  have "list_all (\<lambda>s. st_action s \<noteq> []) ys" if "rmap workflow_step xs = Inr ys" for xs ys
    using that
    by (induction xs arbitrary: ys) (auto simp: rbind_Inr_iff dest: workflow_step_action)
  with steps show ?thesis by (auto simp: validate_wf_steps_def split: if_splits)
qed


definition sample_step :: "string \<Rightarrow> wf_step" where
  "sample_step a = \<lparr>st_name = a, st_action = a, st_timeout_ms = Some 5000,
     st_merge_strategy = ''merge_payload'', st_condition = None\<rparr>"

definition sample_workflow :: "string \<Rightarrow> string list \<Rightarrow> wf_definition" where
  "sample_workflow n acts = \<lparr>wd_name = n, wd_description = [], wd_steps = map sample_step acts\<rparr>"

definition no_conditions :: condition_language where
  "no_conditions = (\<lambda>_. raise SyntaxError [], \<lambda>s v. raise TypeError [])"


text \<open>
  The timeout of a step under a deadline never exceeds the step's own timeout, nor
  what is left of the deadline when it was read, nor an earlier reading of it; without
  a declared timeout it is what is left; and an expired deadline starts no step.
\<close>

theorem step_timeout_within_deadline:
  assumes "step_timeout_ms step_ms packet_ms (Some d) now1 now2 = Inr r" and "earlier \<le> now2"
  shows "\<not> expired d now1 \<and> (\<exists>b. r = Some b \<and> b \<le> budget_left d now2 \<and> b \<le> budget_left d earlier
    \<and> (\<forall>n. step_ms = Some n \<longrightarrow> b = min n (budget_left d now2))
    \<and> (step_ms = None \<and> packet_ms = None \<longrightarrow> b = budget_left d now2))"
  using assms(1) budget_left_antimono[OF assms(2), of d]
  by (auto simp: step_timeout_ms_def raise_if_expired_def budget_left_def Let_def
      split: if_splits option.splits)

theorem step_timeout_within_deadline_witness:
  "\<exists>b. step_timeout_ms (Some 5000) None (Some \<lparr>dl_total_seconds = 2, dl_started_at = 0\<rparr>) 1 1 = Inr (Some b)
     \<and> b \<le> budget_left \<lparr>dl_total_seconds = 2, dl_started_at = 0\<rparr> 0"
proof -
  let ?d = "\<lparr>dl_total_seconds = 2, dl_started_at = 0\<rparr> :: deadline"
  have "step_timeout_ms (Some 5000) None (Some ?d) 1 1 = Inr (Some 1000)" by code_simp
  with step_timeout_within_deadline[OF this, of 0] show ?thesis by auto
qed

end
