(* ===== verification/Api.thy ===== *)
theory Api
  imports Services Execute_Service Http_Errors Routing Runtime Node_Limits Dispatch Workflow
begin

text \<open>
  The HTTP surface and the wiring, \<open>api/main.py\<close>, \<open>api/dependencies.py\<close> and
  \<open>api/middleware.py\<close>: the routes, each a function of the decoded request and of the
  state of the services it uses, the life of the process, and the construction of the
  services from the settings. FastAPI, uvicorn and the parsing of a request are not
  modelled; a route that raises an exception other than an HTTP error is \<open>Propagates\<close>.
\<close>

section \<open>Responses\<close>

datatype 'a http_outcome =
    Reply nat 'a
  | Not_modified string
  | Http http_exception
  | Propagates exn

text \<open>\<open>except Exception as exc: raise to_http_exception(exc)\<close> around a handler's body.\<close>

definition http_outcome :: "'a res \<Rightarrow> 'a http_outcome" where
  "http_outcome r =
     (case r of
        Inr v \<Rightarrow> Reply 200 v
      | Inl e \<Rightarrow> if is_exception e then Http (to_http_exception e) else Propagates e)"

section \<open>Wiring\<close>

definition sign_gate_response :: "sdk \<Rightarrow> gate_settings \<Rightarrow> packet \<Rightarrow> packet res" where
  "sign_gate_response S s p =
     (case (gs_signing_key s, gs_signing_key_id s, gs_signing_algorithm s) of
        (Some key, Some key_id, Some algorithm) \<Rightarrow>
          if key = [] \<or> key_id = [] \<or> algorithm = [] then Inr p
          else sdk_sign S p key key_id algorithm
      | _ \<Rightarrow> Inr p)"

record dispatch_transport_config =
  dc_local_gate_node :: string
  dc_require_signature :: bool
  dc_signing_key :: "string option"
  dc_signing_key_id :: "string option"
  dc_signing_algorithm :: "string option"
  dc_verify_response_signatures :: bool
  dc_verifying_keys :: "(string \<times> string) list"
  dc_verify_hop_signatures :: bool

definition get_gate_dispatch_config :: "gate_settings \<Rightarrow> dispatch_transport_config" where
  "get_gate_dispatch_config s =
     \<lparr>dc_local_gate_node = gs_local_node s, dc_require_signature = gs_require_signature s,
      dc_signing_key = gs_signing_key s, dc_signing_key_id = gs_signing_key_id s,
      dc_signing_algorithm = gs_signing_algorithm s,
      dc_verify_response_signatures = gs_require_signature s,
      dc_verifying_keys = gs_verifying_keys s, dc_verify_hop_signatures = gs_verify_hop_signatures s\<rparr>"

definition pooled_client :: "http_client \<Rightarrow> nat option res" where
  "pooled_client m =
     (if \<not> http_started m then Inr None else rbind (http_get_client m) (\<lambda>c. Inr (Some c)))"

text \<open>\<open>read_yaml\<close> is the parsed content of the file at a path.\<close>

definition load_static_registry ::
  "(string \<Rightarrow> pyval res) \<Rightarrow> (string \<Rightarrow> payload \<Rightarrow> node option) \<Rightarrow> gate_settings \<Rightarrow> registry \<Rightarrow>
     registry \<times> nat res" where
  "load_static_registry read_yaml typed s nodes =
     (if \<not> truthy_str (gs_node_registry_path s) then (nodes, Inr 0)
      else
        (case read_yaml (the (gs_node_registry_path s)) of
           Inl e \<Rightarrow> (nodes, Inl e)
         | Inr raw \<Rightarrow>
             (case load_from_yaml typed nodes raw of
                (nodes', Inl e) \<Rightarrow> (nodes', Inl e)
              | (nodes', Inr u) \<Rightarrow> (nodes', Inr (length (registry_snapshot nodes'))))))"

definition build_health_monitor :: "gate_settings \<Rightarrow> health_monitor option res" where
  "build_health_monitor s =
     (if gs_health_probe_interval_seconds s \<le> 0 then Inr None
      else rbind (health_monitor_init (gs_health_probe_interval_seconds s) 5) (\<lambda>m. Inr (Some m)))"

section \<open>The life of the process\<close>

record process =
  pr_client :: http_client
  pr_registry :: registry
  pr_monitor :: "health_monitor option"

text \<open>The lifespan installs Gate's handler only where the host has installed none; 20 is
  \<open>logging.INFO\<close>.\<close>

definition lifespan_logging :: "root_logger \<Rightarrow> root_logger" where
  "lifespan_logging logger = (if log_handlers logger = [] then configure_logging 20 logger else logger)"

text \<open>The rest of what happens before the \<open>yield\<close> of the lifespan.\<close>

definition lifespan_startup ::
  "(string \<Rightarrow> pyval res) \<Rightarrow> (string \<Rightarrow> payload \<Rightarrow> node option) \<Rightarrow> gate_settings \<Rightarrow> process \<Rightarrow>
     process \<times> unit res" where
  "lifespan_startup read_yaml typed s p =
     (let p1 = p\<lparr>pr_client := http_startup (pr_client p)\<rparr>
      in case load_static_registry read_yaml typed s (pr_registry p1) of
           (nodes, Inl e) \<Rightarrow> (p1\<lparr>pr_registry := nodes\<rparr>, Inl e)
         | (nodes, Inr n) \<Rightarrow>
             (let p2 = p1\<lparr>pr_registry := nodes\<rparr>
              in case rbind (http_get_client (pr_client p2)) (\<lambda>_. build_health_monitor s) of
                   Inl e \<Rightarrow> (p2, Inl e)
                 | Inr monitor \<Rightarrow> (p2\<lparr>pr_monitor := map_option health_monitor_start monitor\<rparr>, Inr ())))"

definition lifespan_shutdown :: "process \<Rightarrow> process" where
  "lifespan_shutdown p =
     p\<lparr>pr_monitor := map_option health_monitor_stop (pr_monitor p), pr_client := http_shutdown (pr_client p)\<rparr>"

definition request_id_of :: "string option \<Rightarrow> string \<Rightarrow> string" where
  "request_id_of x_request_id fresh =
     (let given = strip (opt_or x_request_id []) in if given = [] then fresh else given)"

text \<open>The request middleware: the context during the call, the context after it, the echoed id.\<close>

definition request_context ::
  "log_context \<Rightarrow> string option \<Rightarrow> string \<Rightarrow> string \<Rightarrow> string \<Rightarrow> (log_context \<Rightarrow> 'a res) \<Rightarrow>
     log_context \<times> ('a \<times> string) res" where
  "request_context c x_request_id fresh meth path call_next =
     (let rid = request_id_of x_request_id fresh;
          during = set_context c [(''request_id'', PyStr rid), (''http_method'', PyStr meth),
            (''http_path'', PyStr path)]
      in (clear_context during, rbind (call_next during) (\<lambda>response. Inr (response, rid))))"

text \<open>\<open>api/middleware.py\<close>: the id is taken as it is, and the duration is reported.\<close>

definition request_context_middleware ::
  "string option \<Rightarrow> string \<Rightarrow> pyfloat \<Rightarrow> pyfloat \<Rightarrow> 'a res \<Rightarrow> ('a \<times> string \<times> int) res" where
  "request_context_middleware x_request_id fresh started ended response =
     rbind response (\<lambda>r. Inr (r, opt_or x_request_id fresh, int_of_float (fmul (fsub ended started) 1000)))"

section \<open>Routes\<close>

definition require_registry_admin_token :: "gate_settings \<Rightarrow> string option \<Rightarrow> unit res" where
  "require_registry_admin_token s presented =
     (case (gs_admin_token s, presented) of
        (Some expected, Some p) \<Rightarrow>
          if strip p = expected then Inr () else raise PermissionError ''registry admin token rejected''
      | _ \<Rightarrow> raise PermissionError ''registry requires X-Admin-Token'')"

definition health_route :: "gate_settings \<Rightarrow> (string \<times> string) list http_outcome" where
  "health_route s = Reply 200
     [(''status'', ''healthy''), (''service_name'', ''constellation-gate''),
      (''node_name'', gs_local_node s), (''environment'', gs_environment s)]"

text \<open>\<open>runtime/metrics_endpoint.py\<close>; the text format is that of \<open>prometheus_client\<close>.\<close>

definition metrics_route :: "(metrics \<Rightarrow> string) \<Rightarrow> metrics \<Rightarrow> (string \<times> string) http_outcome" where
  "metrics_route generate_latest m = Reply 200 (generate_latest m, ''text/plain; version=0.0.4'')"

definition ready_route :: "registry \<Rightarrow> readiness http_outcome" where
  "ready_route nodes =
     (let report = routing_readiness nodes DEFAULT_REQUIRED_ACTIONS
      in Reply (if rd_ready report then 200 else 503) report)"

definition require_object :: "pyval \<Rightarrow> pyval res" where
  "require_object body =
     (case body of
        PyDict d \<Rightarrow> Inr body
      | _ \<Rightarrow> raise ValueError ''request body must be a JSON object'')"

text \<open>\<open>body\<close> is what \<open>request.json()\<close> returns or raises.\<close>

definition execute_route ::
  "sdk \<Rightarrow> transport_validator \<Rightarrow> gate_settings \<Rightarrow> registry \<Rightarrow> log_context \<Rightarrow> readings \<Rightarrow>
     'w collaborators \<Rightarrow> pyclass option \<Rightarrow> pyval res \<Rightarrow> exec_service \<Rightarrow> 'w \<Rightarrow>
     exec_service \<times> 'w \<times> pyval http_outcome" where
  "execute_route S V s nodes c t C ended body service w =
     (case rbind body require_object of
        Inl e \<Rightarrow> (service, w, http_outcome (Inl e))
      | Inr b \<Rightarrow>
          (case execute S c t 0 C ended
                  (ingress_validate S V (get_ingress_validator s) (dkeys nodes) b) service w of
             (service', w', r) \<Rightarrow>
               (service', w', http_outcome
                  (rbind r (\<lambda>p. rbind (sign_gate_response S s p) (\<lambda>q. Inr (sdk_dump S q)))))))"

definition admission_route ::
  "sdk \<Rightarrow> transport_validator \<Rightarrow> gate_settings \<Rightarrow> registry \<Rightarrow> pyval res \<Rightarrow> pyval http_outcome" where
  "admission_route S V s nodes body = http_outcome
     (rbind body (\<lambda>b0. rbind (require_object b0) (\<lambda>b.
      rbind (admit S V (get_ingress_validator s) (gs_local_node s) nodes b) (\<lambda>p.
      rbind (sign_gate_response S s p) (\<lambda>q. Inr (sdk_dump S q))))))"

definition registry_route :: "gate_settings \<Rightarrow> registry \<Rightarrow> string option \<Rightarrow> registry http_outcome" where
  "registry_route s nodes x_admin_token = http_outcome
     (rbind (require_registry_admin_token s x_admin_token) (\<lambda>_. Inr (query_snapshot nodes)))"

definition conditional_reply :: "string option \<Rightarrow> string \<Rightarrow> 'a \<Rightarrow> 'a http_outcome" where
  "conditional_reply if_none_match etag body =
     (if if_none_match \<noteq> None \<and> strip (opt_or if_none_match []) = etag then Not_modified etag
      else Reply 200 body)"

definition list_capabilities_route ::
  "(capability list \<Rightarrow> string) \<Rightarrow> gate_settings \<Rightarrow> registry \<Rightarrow> bool \<Rightarrow> string option \<Rightarrow> string option \<Rightarrow>
     capability_list http_outcome" where
  "list_capabilities_route digest s nodes include_protected if_none_match x_admin_token =
     (case list_capabilities digest (admin_token_init (gs_admin_token s)) nodes x_admin_token include_protected of
        Inl e \<Rightarrow> http_outcome (Inl e)
      | Inr l \<Rightarrow> conditional_reply if_none_match (cl_etag l) l)"

definition get_capability_route ::
  "(capability list \<Rightarrow> string) \<Rightarrow> gate_settings \<Rightarrow> registry \<Rightarrow> string \<Rightarrow> string option \<Rightarrow> string option \<Rightarrow>
     capability http_outcome" where
  "get_capability_route digest s nodes act if_none_match x_admin_token =
     (case get_capability digest (admin_token_init (gs_admin_token s)) nodes act x_admin_token of
        Inl e \<Rightarrow> http_outcome (Inl e)
      | Inr (d, etag) \<Rightarrow> conditional_reply if_none_match etag d)"

definition admin_register_route ::
  "gate_settings \<Rightarrow> registry \<Rightarrow> (string \<times> node_input) list \<Rightarrow> bool \<Rightarrow> string option \<Rightarrow>
     registry \<times> register_response http_outcome" where
  "admin_register_route s nodes request overwrite x_admin_token =
     (case admin_register (admin_token_init (gs_admin_token s)) nodes request overwrite x_admin_token of
        (nodes', r) \<Rightarrow> (nodes', http_outcome r))"

section \<open>The admin surface\<close>

lemma settings_token:
  assumes "get_settings loads as_float getenv = Inr s"
  shows "case gs_admin_token s of None \<Rightarrow> True | Some t \<Rightarrow> t \<noteq> [] \<and> strip t = t"
proof -
  obtain r where "gate_settings_validate r = Inr s" using settings_from_environment[OF assms] by blast
  from settings_fields_identity(3)[OF settings_accepted(1)[OF this]] show ?thesis
    by (auto simp: validate_optional_token_def split: option.splits if_splits)
qed



section \<open>Gate's own identity\<close>

lemma settings_signing:
  assumes "get_settings loads as_float getenv = Inr s" and "truthy_str (gs_signing_key s)"
  shows "\<exists>k i a. gs_signing_key s = Some k \<and> gs_signing_key_id s = Some i \<and> gs_signing_algorithm s = Some a
    \<and> k \<noteq> [] \<and> i \<noteq> [] \<and> a \<noteq> []"
proof -
  obtain r where r: "gate_settings_validate r = Inr s" using settings_from_environment[OF assms(1)] by blast
  let ?r = "default_signing_algorithm r"
  note fields = settings_fields_identity(1,2,4)[OF settings_accepted(1)[OF r]]
  have key: "gs_signing_key ?r = gs_signing_key r" by (simp add: default_signing_algorithm_def)
  with assms(2) fields(3) have "truthy_str (gs_signing_algorithm ?r)"
    by (simp add: default_signing_algorithm_def truthy_str_def)
  then obtain a where a: "gs_signing_algorithm s = Some a"
    using fields(2) by (cases "gs_signing_algorithm s")
      (auto simp: validate_optional_token_def truthy_str_def split: option.splits if_splits)
  obtain k where k: "gs_signing_key s = Some k" "k \<noteq> []" using assms(2) by (auto simp: truthy_str_def)
  with settings_accepted(3)[OF r] obtain i where i: "gs_signing_key_id s = Some i"
    by (auto simp: validate_signing_identity_def split: if_splits)
  from a i k fields(1,2) show ?thesis by (auto dest!: validated_token)
qed

text \<open>What the SDK documents of signing: the packet carries the id of the key that signed it.\<close>

definition signs_ok :: "sdk \<Rightarrow> bool" where
  "signs_ok S = (\<forall>p k i a q. sdk_sign S p k i a = Inr q \<longrightarrow>
     signature (security q) \<noteq> None \<and> signing_key_id (security q) = Some i)"


definition signing_env :: "string \<Rightarrow> environ" where
  "signing_env secret = map_of [(''L9_SIGNING_SECRET'', secret), (''L9_SIGNING_KEY_ID'', ''gate-1'')]"

definition signing_gate :: gate_settings where
  "signing_gate = sample_gate
     \<lparr>gs_environment := ''local'', gs_require_signature := False, gs_signing_key := Some ''s3cret'',
      gs_signing_key_id := Some ''gate-1'', gs_signing_algorithm := Some ''hmac-sha256'',
      gs_verifying_keys := [], gs_caller_policies := [], gs_admin_token := None\<rparr>"

lemma signing_settings: "get_settings sample_loads sample_float (signing_env ''s3cret'') = Inr signing_gate"
  by code_simp


text \<open>A key id with an empty secret passes the check of the identity, and nothing is signed.\<close>

lemma empty_secret_disables_signing:
  "\<exists>s. get_settings sample_loads sample_float (signing_env []) = Inr s
     \<and> gs_signing_key_id s = Some ''gate-1'' \<and> (\<forall>S p. sign_gate_response S s p = Inr p)"
proof -
  have "case get_settings sample_loads sample_float (signing_env []) of Inl e \<Rightarrow> False
    | Inr s \<Rightarrow> gs_signing_key s = Some [] \<and> gs_signing_key_id s = Some ''gate-1''" by code_simp
  then show ?thesis by (auto simp: sign_gate_response_def split: sum.splits option.splits)
qed

text \<open>When the static registry cannot be loaded, startup fails with the client left open.\<close>

lemma failed_startup_leaks_client:
  assumes "snd (load_static_registry read_yaml typed s (pr_registry p)) = Inl e"
    and "lifespan_startup read_yaml typed s p = (p', r)"
  shows "r = Inl e \<and> http_started (pr_client p') \<and> hc_closed (pr_client p') = hc_closed (pr_client p)"
  using assms
  by (auto simp: lifespan_startup_def Let_def http_started_def http_startup_def split: prod.splits sum.splits)

text \<open>A host that configured logging keeps its handlers, and Gate installs its own only once.\<close>

lemma host_keeps_its_logging:
  "log_handlers (lifespan_logging logger) = (if log_handlers logger = [] then [Json_to_stdout] else log_handlers logger)
     \<and> lifespan_logging (lifespan_logging logger) = lifespan_logging logger"
  by (simp add: lifespan_logging_def configure_logging_def)

text \<open>Gate's own validator passes both checks of the execute service.\<close>

lemma exec_validate_ingress:
  "exec_validate (Some (\<lambda>b. rbind (ingress_validate S V v known b) (\<lambda>p. Inr (Some p)))) b
     = ingress_validate S V v known b"
  by (cases "ingress_validate S V v known b") (simp_all add: exec_validate_def)

end
