(* ===== verification/Composition.thy ===== *)
theory Composition
  imports Api
begin

text \<open>
  The execution path put together: the execute service with the dispatcher and the
  workflow engine of the same process as its collaborators, as \<open>api/dependencies.py\<close>
  wires them, for one call that runs alone (\<open>Serving\<close> has many). A wait that is cut short cancels the call in
  the transport, which then answers with the cancellation; the window inside \<open>acquire\<close>,
  where a cancellation loses the permit, is modelled in \<open>Dispatch\<close>. The world the collaborators act on is the
  shared registry with the limiter, the clock, and a record of what left for workers.
\<close>

section \<open>The wiring\<close>

type_synonym transport = "packet \<Rightarrow> string \<Rightarrow> string \<Rightarrow> packet res"

record gate_world =
  gw_env :: gate_env
  gw_now :: pyfloat
  gw_sent :: "flight list"

definition gate_dispatch ::
  "sdk \<Rightarrow> string \<Rightarrow> transport \<Rightarrow> gate_world \<Rightarrow> packet \<Rightarrow> deadline option \<Rightarrow> gate_world \<times> packet res" where
  "gate_dispatch S l send w p dl =
     (case dispatch_begin S l (gw_env w) p dl (gw_now w) (gw_now w) of
        (env1, Inl e) \<Rightarrow> (w\<lparr>gw_env := env1\<rparr>, Inl e)
      | (env1, Inr fl) \<Rightarrow>
          (case dispatch_resume env1 fl False of
             (env2, Inl e) \<Rightarrow> (w\<lparr>gw_env := env2\<rparr>, Inl e)
           | (env2, Inr u) \<Rightarrow>
               (case dispatch_settle env2 fl
                       (send (fl_packet fl) (node_name (fl_target fl)) (internal_url (fl_target fl))) of
                  (env3, r) \<Rightarrow> (w\<lparr>gw_env := env3, gw_sent := gw_sent w @ [fl]\<rparr>, r))))"

definition as_collaborator ::
  "(packet \<Rightarrow> deadline option \<Rightarrow> 'w \<Rightarrow> 'w \<times> packet res) \<Rightarrow> 'w collaborator" where
  "as_collaborator f =
     \<lparr>co_signature = Some [(''packet'', False), (''deadline'', False)],
      co_call = (\<lambda>p dl w. case f p dl w of (w', r) \<Rightarrow> (w', rbind r (\<lambda>q. Inr (Some q))))\<rparr>"

definition get_dispatcher :: "sdk \<Rightarrow> gate_settings \<Rightarrow> transport \<Rightarrow> gate_world collaborator" where
  "get_dispatcher S s send =
     as_collaborator (\<lambda>p dl w. gate_dispatch S (canon (gs_local_node s)) send w p dl)"

definition engine_collaborator ::
  "sdk \<Rightarrow> condition_language \<Rightarrow> gate_settings \<Rightarrow> workflow_engine \<Rightarrow> transport \<Rightarrow> gate_world collaborator" where
  "engine_collaborator S lang s E send =
     as_collaborator (\<lambda>p dl w. workflow_execute S lang E dl (\<lambda>_ w. gw_now w)
       (\<lambda>w q. gate_dispatch S (canon (gs_local_node s)) send w q dl) p w)"

definition gate_collaborators ::
  "sdk \<Rightarrow> condition_language \<Rightarrow> gate_settings \<Rightarrow> workflow_engine \<Rightarrow> transport \<Rightarrow> gate_world collaborators" where
  "gate_collaborators S lang s E send =
     \<lparr>cs_has_workflow = has_workflow E, cs_engine = engine_collaborator S lang s E send,
      cs_dispatcher = get_dispatcher S s send, cs_clock = gw_now,
      cs_sleep = (\<lambda>d w. w\<lparr>gw_now := rnd (gw_now w + d)\<rparr>)\<rparr>"

text \<open>The wiring adds nothing to a dispatch but the record of what was sent.\<close>

lemma gate_dispatch_is_dispatch:
  "gate_dispatch S l send w p dl = (w', r) \<Longrightarrow>
     dispatch S l send (gw_env w) p dl (gw_now w) (gw_now w) = (gw_env w', r)"
  by (auto simp: gate_dispatch_def dispatch_def split: prod.splits sum.splits)

section \<open>A dispatch leaves the counters as they were\<close>

definition env_held :: "gate_env \<Rightarrow> string \<Rightarrow> int" where
  "env_held env k = (case env_limits env of None \<Rightarrow> 0 | Some l \<Rightarrow> held l k)"

definition env_ok :: "gate_env \<Rightarrow> bool" where
  "env_ok env \<longleftrightarrow> registry_wf (env_registry env) \<and> (\<forall>k. 0 \<le> env_held env k)"

text \<open>
  Between the two states nothing happened to the registry but that nodes were taken
  out of routing, and every permit that was taken was given back.
\<close>

definition same_nodes :: "registry \<Rightarrow> registry \<Rightarrow> bool" where
  "same_nodes nodes nodes' \<longleftrightarrow> dkeys nodes' = dkeys nodes \<and>
     (\<forall>k r. dget nodes k = Some r \<longrightarrow>
        dget nodes' k = Some r \<or> dget nodes' k = Some (r\<lparr>healthy := False\<rparr>))"

definition settles :: "gate_env \<Rightarrow> gate_env \<Rightarrow> bool" where
  "settles env env' \<longleftrightarrow> env_ok env' \<and> same_nodes (env_registry env) (env_registry env')
     \<and> (\<forall>k. env_held env' k = env_held env k)"

lemma same_nodes_refl [simp]: "same_nodes nodes nodes"
  by (simp add: same_nodes_def)

lemma same_nodes_trans: "same_nodes n1 n2 \<Longrightarrow> same_nodes n2 n3 \<Longrightarrow> same_nodes n1 n3"
  unfolding same_nodes_def by fastforce

lemma settles_refl: "env_ok env \<Longrightarrow> settles env env"
  by (simp add: settles_def)

lemma settles_trans: "settles e1 e2 \<Longrightarrow> settles e2 e3 \<Longrightarrow> settles e1 e3"
  unfolding settles_def using same_nodes_trans by fastforce

lemma take_permit_env:
  assumes "take_permit env t = (env', r)" and "canon (node_name t) = node_name t"
  shows "env_registry env' = env_registry env
    \<and> (\<forall>k. env_held env' k = env_held env k
         + (if r = Inr () \<and> env_limits env \<noteq> None \<and> node_name t = k then 1 else 0))
    \<and> (env_limits env' = None \<longleftrightarrow> env_limits env = None)"
proof (cases "env_limits env")
  case None
  with assms(1) show ?thesis by (simp add: take_permit_def)
next
  case (Some lims)
  show ?thesis
  proof (cases r)
    case (Inl e)
    from take_permit_err[OF assms(1)[unfolded Inl] Some] Some Inl show ?thesis by (auto simp: env_held_def)
  next
    case (Inr u)
    from take_permit_ok[OF _ Some assms(2)] assms(1) Inr Some show ?thesis by (auto simp: env_held_def)
  qed
qed

lemma give_permit_env:
  assumes "canon (node_name t) = node_name t" and "env_limits env \<noteq> None \<Longrightarrow> 1 \<le> env_held env (node_name t)"
  shows "\<exists>env'. give_permit env t = (env', Inr ()) \<and> env_registry env' = env_registry env
    \<and> (\<forall>k. env_held env' k = env_held env k - (if env_limits env \<noteq> None \<and> node_name t = k then 1 else 0))"
proof (cases "env_limits env")
  case None
  then show ?thesis by (simp add: give_permit_def)
next
  case (Some lims)
  from give_permit_held[OF Some assms(1)] assms(2) Some show ?thesis by (auto simp: env_held_def)
qed

lemma dkeys_dset_known: "dget d k = Some r \<Longrightarrow> dkeys (dset d k v) = dkeys d"
  by (rule dkeys_dset_present) (rule dget_dkeys)

lemma mark_then_decrement:
  assumes "registry_wf nodes" and "dget nodes k = Some r" and "canon k = k"
    and "n1 = dset nodes k (r\<lparr>active_requests := active_requests r + 1\<rparr>)"
    and "n2 = n1 \<or> n2 = fst (set_health n1 k False)"
    and "decrement_active n2 k = (n3, d)"
  shows "same_nodes nodes n3 \<and> registry_wf n3 \<and> d = Inr ()"
proof -
  have wf: "wf_node k r" "0 \<le> active_requests r" using registry_wf_get[OF assms(1,2)] by (simp_all add: wf_node_def)
  have "registry_wf n1" using assms(1,4) wf wf_node_changes(3) registry_wf_dset by blast
  then have "registry_wf n2" using assms(5) set_health_wf by blast
  then have "registry_wf n3" using active_wf(2)[of n2 k] assms(6) by simp
  moreover have "dkeys n1 = dkeys nodes" using assms(2,4) by (simp only: dkeys_dset_known)
  moreover have n2: "dget n2 = (dget nodes)(k \<mapsto> r\<lparr>active_requests := active_requests r + 1\<rparr>)
      \<or> dget n2 = (dget nodes)(k \<mapsto> r\<lparr>active_requests := active_requests r + 1, healthy := False\<rparr>)"
    using assms(3,4,5) by (auto simp: set_health_def dget_dset fun_upd_upd)
  moreover have "dkeys n2 = dkeys n1"
    using assms(2,3,4,5) by (auto simp: set_health_def dkeys_dset_known)
  moreover have n3: "n3 = dset n2 k (c\<lparr>active_requests := max 0 (active_requests c - 1)\<rparr>) \<and> d = Inr ()"
    if "dget n2 k = Some c" for c
    using assms(3,6) that by (simp add: decrement_active_def)
  have "dkeys n3 = dkeys n2 \<and> d = Inr ()
      \<and> (dget n3 = (dget nodes)(k \<mapsto> r) \<or> dget n3 = (dget nodes)(k \<mapsto> r\<lparr>healthy := False\<rparr>))"
    using n2
  proof
    assume n2: "dget n2 = (dget nodes)(k \<mapsto> r\<lparr>active_requests := active_requests r + 1\<rparr>)"
    then have g: "dget n2 k = Some (r\<lparr>active_requests := active_requests r + 1\<rparr>)" by simp
    from n3[OF g] n2 wf(2) show ?thesis
      by (intro conjI disjI1) (simp_all add: dkeys_dset_known[OF g] fun_eq_iff)
  next
    assume n2: "dget n2 = (dget nodes)(k \<mapsto> r\<lparr>active_requests := active_requests r + 1, healthy := False\<rparr>)"
    then have g: "dget n2 k = Some (r\<lparr>active_requests := active_requests r + 1, healthy := False\<rparr>)" by simp
    from n3[OF g] n2 wf(2) show ?thesis
      by (intro conjI disjI2) (simp_all add: dkeys_dset_known[OF g] fun_eq_iff)
  qed
  ultimately show ?thesis using assms(2) by (auto simp: same_nodes_def)
qed

text \<open>The three ways a dispatch goes: refused before it holds anything, turned away by the
  load check, or sent.\<close>

lemma refused_env:
  assumes "dispatch_begin S l env p dl now1 now2 = (env1, Inl e)" and "env_ok env"
  shows "settles env env1"
proof (cases "dispatch_prepare S l (env_registry env) p dl now1 now2")
  case (Inl e')
  with assms show ?thesis by (auto simp: dispatch_begin_def intro: settles_refl)
next
  case (Inr fl)
  obtain env' r' where tp: "take_permit env (fl_target fl) = (env', r')" by fastforce
  with assms(1) Inr have "take_permit env (fl_target fl) = (env1, r')" "r' \<noteq> Inr ()"
    by (auto simp: dispatch_begin_def)
  with take_permit_env[of env "fl_target fl" env1 r'] prepare_target[OF _ Inr] assms(2)
  show ?thesis by (simp add: settles_def env_ok_def)
qed

lemma begun_env:
  assumes "dispatch_begin S l env p dl now1 now2 = (env1, Inr fl)" and "env_ok env"
  shows "dispatch_prepare S l (env_registry env) p dl now1 now2 = Inr fl"
    and "canon (node_name (fl_target fl)) = node_name (fl_target fl)"
    and "\<exists>rec. dget (env_registry env) (node_name (fl_target fl)) = Some rec"
    and "env_registry env1 = env_registry env" and "env_limits env1 = None \<longleftrightarrow> env_limits env = None"
    and "env_held env1 k = env_held env k + (if env_limits env \<noteq> None \<and> node_name (fl_target fl) = k then 1 else 0)"
    and "0 \<le> env_held env k"
proof -
  from dispatch_begin_Inr[OF assms(1)]
  have prep: "dispatch_prepare S l (env_registry env) p dl now1 now2 = Inr fl"
    and take: "take_permit env (fl_target fl) = (env1, Inr ())" by simp_all
  then show "dispatch_prepare S l (env_registry env) p dl now1 now2 = Inr fl" by simp
  from prepare_target[OF _ prep] assms(2)
  show k: "canon (node_name (fl_target fl)) = node_name (fl_target fl)"
    and "\<exists>rec. dget (env_registry env) (node_name (fl_target fl)) = Some rec"
    by (auto simp: env_ok_def dhas_def)
  from take_permit_env[OF take k] show "env_registry env1 = env_registry env"
    "env_limits env1 = None \<longleftrightarrow> env_limits env = None"
    "env_held env1 k = env_held env k + (if env_limits env \<noteq> None \<and> node_name (fl_target fl) = k then 1 else 0)"
    by auto
  show "0 \<le> env_held env k" using assms(2) by (simp add: env_ok_def)
qed

text \<open>The permit that was taken goes back, over whatever the registry has become.\<close>

lemma permit_returned:
  assumes "dispatch_begin S l env p dl now1 now2 = (env1, Inr fl)" and "env_ok env"
    and "env_limits env2 = env_limits env1" and "same_nodes (env_registry env) (env_registry env2)"
    and "registry_wf (env_registry env2)"
  shows "\<exists>env3. give_permit env2 (fl_target fl) = (env3, Inr ()) \<and> settles env env3"
proof -
  note b = begun_env[OF assms(1,2)]
  have held2: "env_held env2 k = env_held env1 k" for k by (simp add: env_held_def assms(3))
  have "1 \<le> env_held env2 (node_name (fl_target fl))" if "env_limits env2 \<noteq> None"
    using that assms(3) b(5) b(6,7)[of "node_name (fl_target fl)"] held2 by simp
  from give_permit_env[of "fl_target fl" env2, OF b(2) this] obtain env3
    where give: "give_permit env2 (fl_target fl) = (env3, Inr ())" "env_registry env3 = env_registry env2"
      "\<forall>k. env_held env3 k = env_held env2 k - (if env_limits env2 \<noteq> None \<and> node_name (fl_target fl) = k then 1 else 0)"
    by blast
  have "env_held env3 k = env_held env k" for k
    using give(3) held2 b(5,6) assms(3) by simp
  with give(1,2) assms(4,5) b(7) show ?thesis by (auto simp: settles_def env_ok_def)
qed

lemma turned_away_env:
  assumes "dispatch_begin S l env p dl now1 now2 = (env1, Inr fl)" and "env_ok env"
    and "increment_active (env_registry env1) (node_name (fl_target fl)) = (nodes, Inl e)"
  shows "\<exists>env2. dispatch_resume env1 fl False = (env2, Inl e) \<and> settles env env2"
proof -
  note b = begun_env[OF assms(1,2)]
  have nodes: "nodes = env_registry env" using increment_refused[OF assms(3)] b(4) by simp
  have "same_nodes (env_registry env) (env_registry (env1\<lparr>env_registry := nodes\<rparr>))"
    "registry_wf (env_registry (env1\<lparr>env_registry := nodes\<rparr>))"
    using assms(2) nodes by (simp_all add: env_ok_def)
  from permit_returned[OF assms(1,2) _ this] assms(3) show ?thesis
    by (auto simp: dispatch_resume_def dispatch_finally_def)
qed

lemma sent_env:
  assumes "dispatch_begin S l env p dl now1 now2 = (env1, Inr fl)" and "env_ok env"
    and "increment_active (env_registry env1) (node_name (fl_target fl)) = (nodes, Inr ())"
  shows "\<exists>env2 r. dispatch_settle (env1\<lparr>env_registry := nodes\<rparr>) fl outcome = (env2, r) \<and> settles env env2"
proof -
  let ?k = "node_name (fl_target fl)" and ?env2 = "env1\<lparr>env_registry := nodes\<rparr>"
  note b = begun_env[OF assms(1,2)]
  from b(3) obtain rec where rec: "dget (env_registry env) ?k = Some rec" ..
  have n1: "nodes = dset (env_registry env) ?k (rec\<lparr>active_requests := active_requests rec + 1\<rparr>)"
    using assms(3) rec b(2,4) by (auto simp: increment_active_def split: if_splits)
  obtain env3 x where ex: "dispatch_except ?env2 (fl_target fl) outcome = (env3, x)" by fastforce
  have lim3: "env_limits env3 = env_limits env1"
    and reg3: "env_registry env3 = nodes \<or> env_registry env3 = fst (set_health nodes ?k False)"
    using ex by (auto simp: dispatch_except_def mark_unhealthy_def split: sum.splits if_splits prod.splits)
  obtain n3 d where dec: "decrement_active (env_registry env3) ?k = (n3, d)" by fastforce
  have wf: "registry_wf (env_registry env)" using assms(2) by (simp add: env_ok_def)
  from mark_then_decrement[OF wf rec b(2) n1 reg3 dec]
  have n3: "same_nodes (env_registry env) n3" "registry_wf n3" "d = Inr ()" by simp_all
  from permit_returned[OF assms(1,2), of "env3\<lparr>env_registry := n3\<rparr>"] lim3 n3 obtain env5
    where "give_permit (env3\<lparr>env_registry := n3\<rparr>) (fl_target fl) = (env5, Inr ())" "settles env env5" by auto
  with ex dec n3(3) show ?thesis by (simp add: dispatch_settle_def dispatch_finally_def)
qed

lemma dispatch_env:
  assumes "gate_dispatch S l send w p dl = (w', r)" and "env_ok (gw_env w)"
  shows "settles (gw_env w) (gw_env w') \<and> gw_now w' = gw_now w
    \<and> (gw_sent w' = gw_sent w \<or> (\<exists>fl. gw_sent w' = gw_sent w @ [fl]
         \<and> dispatch_prepare S l (env_registry (gw_env w)) p dl (gw_now w) (gw_now w) = Inr fl))"
proof -
  obtain env1 b where b: "dispatch_begin S l (gw_env w) p dl (gw_now w) (gw_now w) = (env1, b)" by fastforce
  show ?thesis
  proof (cases b)
    case (Inl e)
    with b refused_env[OF _ assms(2)] assms(1) show ?thesis by (auto simp: gate_dispatch_def)
  next
    case (Inr fl)
    note b = b[unfolded Inr]
    obtain nodes i where inc: "increment_active (env_registry env1) (node_name (fl_target fl)) = (nodes, i)"
      by fastforce
    show ?thesis
    proof (cases i)
      case (Inl e)
      from turned_away_env[OF b assms(2) inc[unfolded Inl]] b assms(1) show ?thesis
        by (auto simp: gate_dispatch_def)
    next
      case (Inr u)
      then have "dispatch_resume env1 fl False = (env1\<lparr>env_registry := nodes\<rparr>, Inr ())"
        using inc by (simp add: dispatch_resume_def)
      with sent_env[OF b assms(2), of nodes "send (fl_packet fl) (node_name (fl_target fl))
          (internal_url (fl_target fl))"] inc Inr begun_env(1)[OF b assms(2)] b assms(1)
      show ?thesis by (auto simp: gate_dispatch_def)
    qed
  qed
qed

section \<open>What one request sends\<close>

text \<open>A packet of Gate for a node that the registry held when the request came in.\<close>

definition from_gate :: "string \<Rightarrow> registry \<Rightarrow> flight \<Rightarrow> bool" where
  "from_gate l nodes fl \<longleftrightarrow> gate_authored l (fl_packet fl)
     \<and> destination_node (address (fl_packet fl)) \<in> set (dkeys nodes)"

text \<open>The state between the request's first packet and its last.\<close>

definition request_state ::
  "string \<Rightarrow> gate_world \<Rightarrow> (flight \<Rightarrow> bool) \<Rightarrow> gate_world \<Rightarrow> bool" where
  "request_state l w0 about w \<longleftrightarrow> env_ok (gw_env w) \<and> settles (gw_env w0) (gw_env w)
     \<and> (\<exists>new. gw_sent w = gw_sent w0 @ new
          \<and> list_all (\<lambda>fl. from_gate l (env_registry (gw_env w0)) fl \<and> about fl) new)"

lemma gate_dispatch_state:
  assumes S: "derives_ok S" "hops_ok S" and l: "canon l = l" "l \<noteq> []"
    and d: "gate_dispatch S l send w q dl = (w', r)" and w: "request_state l w0 about w"
    and about: "\<And>fl. action (header (fl_packet fl)) = action (header q) \<Longrightarrow> payload (fl_packet fl) = payload q \<Longrightarrow>
      tenant (fl_packet fl) = tenant q \<Longrightarrow>
      original_source_node (provenance (fl_packet fl)) = Some (source_node (address q)) \<Longrightarrow> about fl"
  shows "request_state l w0 about w' \<and> length (gw_sent w') \<le> Suc (length (gw_sent w))"
proof -
  from w have ok: "env_ok (gw_env w)" and st: "settles (gw_env w0) (gw_env w)" by (simp_all add: request_state_def)
  from st have keys: "dkeys (env_registry (gw_env w)) = dkeys (env_registry (gw_env w0))"
    by (simp add: settles_def same_nodes_def)
  from dispatch_env[OF d ok] have sd: "settles (gw_env w) (gw_env w')" and
    sent: "gw_sent w' = gw_sent w \<or> (\<exists>fl. gw_sent w' = gw_sent w @ [fl]
         \<and> dispatch_prepare S l (env_registry (gw_env w)) q dl (gw_now w) (gw_now w) = Inr fl)" by simp_all
  have ok': "env_ok (gw_env w')" using sd by (simp add: settles_def)
  have new: "from_gate l (env_registry (gw_env w0)) fl \<and> about fl"
    if "dispatch_prepare S l (env_registry (gw_env w)) q dl (gw_now w) (gw_now w) = Inr fl" for fl
    using prepared_packet[OF S l _ that] ok about[of fl] keys[symmetric]
    by (auto simp: from_gate_def env_ok_def dest: dget_dkeys)
  show ?thesis
    using sent w new ok' settles_trans[OF st sd] by (auto simp: request_state_def)
qed

text \<open>Whatever every dispatch of a step keeps, the workflow keeps.\<close>

lemma workflow_steps_keep:
  assumes "derives_ok S" and "l \<noteq> []" and "list_all (\<lambda>s. st_action s \<noteq> []) steps"
    and disp: "\<And>w q w' r. step_request l orig dl q \<Longrightarrow> action (header q) \<in> st_action ` set steps \<Longrightarrow>
      disp w q = (w', r) \<Longrightarrow> Q w \<Longrightarrow> Q w'"
    and "workflow_steps S lang l orig dl clock disp steps pl resp cur w = (w', r)" and "Q w"
  shows "Q w'"
  using assms(3-6)
proof (induction steps arbitrary: pl resp cur w)
  case (Cons x steps)
  have acts: "st_action x \<noteq> []" "list_all (\<lambda>s. st_action s \<noteq> []) steps" using Cons.prems(1) by simp_all
  have later: "step_request l orig dl q \<Longrightarrow> action (header q) \<in> st_action ` set steps \<Longrightarrow>
      disp w q = (w', r) \<Longrightarrow> Q w \<Longrightarrow> Q w'" for w q w' r using Cons.prems(2) by auto
  note request = step_packet_request[OF assms(1,2) acts(1)]
  show ?case
    using Cons.prems(3)
  proof (cases rule: workflow_steps_cases)
    case skipped
    from Cons.IH[OF acts(2) later this Cons.prems(4)] show ?thesis .
  next
    case (failed q e)
    from Cons.prems(2)[OF _ _ failed(2) Cons.prems(4)] request[OF failed(1)] show ?thesis by simp
  next
    case (sent q w1 reply)
    from Cons.prems(2)[OF _ _ sent(2) Cons.prems(4)] request[OF sent(1)] have "Q w1" by simp
    from Cons.IH[OF acts(2) later sent(3) this] show ?thesis .
  qed (use Cons.prems(4) in simp)
qed simp

lemma run_once_gate:
  "run_once (gate_collaborators S lang s E send) p dl w =
     (if has_workflow E (action (header p))
      then workflow_execute S lang E (Some dl) (\<lambda>_ w. gw_now w)
             (\<lambda>w q. gate_dispatch S (canon (gs_local_node s)) send w q (Some dl)) p w
      else gate_dispatch S (canon (gs_local_node s)) send w p (Some dl))"
proof -
  have "(case call_with_optional_deadline (as_collaborator f) p dl w of (w', r) \<Rightarrow> (w', rbind r as_transport_packet))
      = f p (Some dl) w" for f :: "packet \<Rightarrow> deadline option \<Rightarrow> gate_world \<Rightarrow> gate_world \<times> packet res"
    by (cases "f p (Some dl) w")
      (auto simp: call_with_optional_deadline_def as_collaborator_def accepts_deadline_def as_transport_packet_def
        rbind_def split: sum.splits)
  then show ?thesis
    by (simp add: run_once_def gate_collaborators_def run_workflow_def run_dispatch_def engine_collaborator_def
        get_dispatcher_def)
qed

lemma exec_begin_packet:
  "exec_begin S c t depth s validated = (s', Inr (Running x)) \<Longrightarrow> validated = Inr (run_packet x)"
  by (auto simp: exec_begin_def exec_lookup_def Let_def rbind_Inr_iff
      split: sum.splits prod.splits progress.splits option.splits)

text \<open>The call that a running execution makes, and there is only one.\<close>

lemma execute_cases:
  assumes "exec_reach S sys"
    and "execute S c t depth C ended validated (sy_service sys) w = (s', w', r)"
  obtains (unsent) "w' = w" "\<And>e. validated = Inl e \<Longrightarrow> r = Inl e"
  | (ran) p and x :: running and y where "validated = Inr p" "run_packet x = p"
      "run_once C p (run_deadline x) w = (w', y)"
proof -
  obtain s1 b where b: "exec_begin S c t depth (sy_service sys) validated = (s1, b)" by fastforce
  show thesis
  proof (cases "\<exists>x. b = Inr (Running x)")
    case False
    then have "w' = w" using assms(2) b
      by (auto simp: execute_def split: sum.splits progress.splits)
    moreover have "r = Inl e" if "validated = Inl e" for e
      using assms(2) that by (simp add: execute_def exec_begin_def)
    ultimately show thesis by (rule unsent)
  next
    case True
    then obtain x where x: "b = Inr (Running x)" ..
    have "1 \<le> max_attempts (ex_retry (sy_service sys))"
      using exec_counted_reach[OF assms(1)] by (simp add: exec_counted_def)
    with b x have one: "max_attempts (run_policy x) = 1" by (auto intro: exec_begin_single)
    have p: "validated = Inr (run_packet x)" by (rule exec_begin_packet[OF b[unfolded x]])
    obtain y where "exec_run C x w = (w', y)"
      using assms(2) b x by (auto simp: execute_def split: prod.splits)
    then have "run_once C (run_packet x) (run_deadline x) w = (w', y)"
      by (simp add: exec_run_def retry_run_single[OF one])
    from ran[OF p refl this] show thesis .
  qed
qed

lemma http_outcome_error [simp]: "http_outcome (Inl e) \<noteq> Reply n v"
  by (simp add: http_outcome_def)

lemma require_object_same: "require_object x = Inr y \<Longrightarrow> y = x"
  by (cases x) (simp_all add: require_object_def)

text \<open>What a request's packets are about.\<close>

definition on_behalf_of :: "workflow_engine \<Rightarrow> string \<Rightarrow> packet \<Rightarrow> flight \<Rightarrow> bool" where
  "on_behalf_of E l p fl \<longleftrightarrow>
     (if has_workflow E (action (header p))
      then original_source_node (provenance (fl_packet fl)) = Some l
        \<and> (\<exists>d. dget (we_definitions E) (canon (action (header p))) = Some d
             \<and> action (header (fl_packet fl)) \<in> st_action ` set (wd_steps d))
      else action (header (fl_packet fl)) = action (header p) \<and> payload (fl_packet fl) = payload p
        \<and> tenant (fl_packet fl) = tenant p
        \<and> original_source_node (provenance (fl_packet fl)) = Some (source_node (address p)))"

lemma run_once_state:
  assumes S: "derives_ok S" "hops_ok S" and l: "canon (gs_local_node s) = gs_local_node s" "gs_local_node s \<noteq> []"
    and init: "workflow_engine_init defs (gs_local_node s) reg = Inr E"
    and valid: "\<forall>d \<in> snd ` set defs. \<exists>raw. workflow_definition raw = Inr d"
    and run: "run_once (gate_collaborators S lang s E send) p dl w = (w', r)" and ok: "env_ok (gw_env w)"
  shows "request_state (gs_local_node s) w (on_behalf_of E (gs_local_node s) p) w'
    \<and> (has_workflow E (action (header p)) \<or> length (gw_sent w') \<le> Suc (length (gw_sent w)))"
proof -
  let ?l = "gs_local_node s" and ?Q = "request_state (gs_local_node s) w (on_behalf_of E (gs_local_node s) p)"
  have Q: "?Q w" using ok settles_refl[OF ok] by (simp add: request_state_def)
  from run run_once_gate[of S lang s E send p dl w] l have x: "(if has_workflow E (action (header p))
      then workflow_execute S lang E (Some dl) (\<lambda>_ w. gw_now w)
             (\<lambda>w q. gate_dispatch S ?l send w q (Some dl)) p w
      else gate_dispatch S ?l send w p (Some dl)) = (w', r)" by (simp only: l(1))
  show ?thesis
  proof (cases "has_workflow E (action (header p))")
    case False
    with x have "gate_dispatch S ?l send w p (Some dl) = (w', r)" by simp
    from gate_dispatch_state[OF S l this Q] False show ?thesis by (simp add: on_behalf_of_def)
  next
    case True
    have E: "we_definitions E = canonical_definitions [] defs" "we_local_node E = ?l"
      using init l by (auto simp: workflow_engine_init_def rbind_Inr_iff Let_def)
    from True obtain d where d: "dget (we_definitions E) (canon (action (header p))) = Some d"
      by (auto simp: has_workflow_def dhas_def)
    with canonical_definitions_values[of "[]" defs _ d] E have "d \<in> snd ` set defs" by auto
    with valid have acts: "list_all (\<lambda>st. st_action st \<noteq> []) (wd_steps d)"
      using workflow_definition_actions by blast
    obtain y where y: "workflow_steps S lang ?l p (Some dl) (\<lambda>_ w. gw_now w)
        (\<lambda>w q. gate_dispatch S ?l send w q (Some dl)) (wd_steps d) (payload p) None p w = (w', y)"
      using x True d E by (auto simp: workflow_execute_def Let_def split: prod.splits sum.splits)
    have keep: "?Q w2" if "step_request ?l p (Some dl) q" "action (header q) \<in> st_action ` set (wd_steps d)"
      "gate_dispatch S ?l send w1 q (Some dl) = (w2, a)" "?Q w1" for w1 q w2 a
    proof -
      have src: "source_node (address q) = ?l" using that(1) l by (simp add: step_request_def)
      have "on_behalf_of E ?l p fl" if "action (header (fl_packet fl)) = action (header q)"
        "original_source_node (provenance (fl_packet fl)) = Some (source_node (address q))" for fl
        using that True d src \<open>action (header q) \<in> _\<close> by (simp add: on_behalf_of_def)
      from gate_dispatch_state[OF S l that(3,4) this] show ?thesis by simp
    qed
    from workflow_steps_keep[where Q = ?Q, OF S(1) l(2) acts keep y Q] True show ?thesis by simp
  qed
qed

lemma settings_local_node:
  assumes "get_settings loads as_float getenv = Inr s"
  shows "canon (gs_local_node s) = gs_local_node s" "gs_local_node s \<noteq> []"
proof -
  obtain r where "gate_settings_validate r = Inr s" using settings_from_environment[OF assms] by blast
  from settings_accepted(1)[OF this]
  have "validate_required_string (gs_local_node (default_signing_algorithm r)) = Inr (gs_local_node s)"
    by (auto simp: settings_fields_def rbind_Inr_iff)
  then show "canon (gs_local_node s) = gs_local_node s" "gs_local_node s \<noteq> []"
    unfolding validate_required_string_def by (metis canon_idem sum.inject(2) sum.distinct(1))+
qed

text \<open>After the first step the tenant of a workflow's packets is that of the replies.\<close>

lemma workflow_steps_tenant:
  assumes "derives_ok S" and "\<And>w q w' a. disp w q = (w', Inr a) \<Longrightarrow> tenant a = X"
    and "workflow_steps S lang l orig dl clock (logged disp) steps pl resp cur s = (s', r)"
  shows "\<exists>sent. snd s' = snd s @ sent
    \<and> (sent = [] \<or> tenant (hd sent) = tenant cur \<and> list_all (\<lambda>q. tenant q = X) (tl sent))"
  using assms(3)
proof (induction steps arbitrary: pl resp cur s)
  case (Cons x steps)
  have same: "tenant q = tenant cur"
    if "rbind t (\<lambda>tmo. sdk_derive S cur (step_args l orig x pl tmo)) = Inr q" for t q
    using that derives_okD[OF assms(1)] by (auto simp: rbind_Inr_iff derived_from_def)
  from Cons.prems show ?case
  proof (cases rule: workflow_steps_cases)
    case skipped
    from Cons.IH[OF this] show ?thesis .
  next
    case (failed q e)
    with same[OF failed(1)] show ?thesis
      by (intro exI[of _ "[q]"]) (auto simp: logged_def split: prod.splits)
  next
    case (sent q s1 reply)
    then have reply: "tenant reply = X" and s1: "snd s1 = snd s @ [q]"
      using assms(2) by (auto simp: logged_def split: prod.splits)
    from Cons.IH[OF sent(3)] obtain qs where qs: "snd s' = snd s1 @ qs"
      "qs = [] \<or> tenant (hd qs) = tenant reply \<and> list_all (\<lambda>q. tenant q = X) (tl qs)" by blast
    then have "list_all (\<lambda>q. tenant q = X) qs" using reply by (cases qs) simp_all
    with qs(1) s1 same[OF sent(1)] show ?thesis by (intro exI[of _ "q # qs"]) simp
  qed simp
qed simp

text \<open>A step whose action no node serves fails, and nothing leaves for a worker.\<close>

lemma step_without_node:
  assumes "derives_ok S" and "canon l = l" and "l \<noteq> []" and "canon a \<notin> all_supported_actions (env_registry (gw_env w))"
    and "address q = \<lparr>source_node = l, destination_node = l, reply_to = l\<rparr>" and "action (header q) = a"
  shows "\<exists>e. gate_dispatch S l send w q dl = (w, Inl e) \<and> (exn_class e = LookupError \<or> exn_class e = ValueError)"
proof -
  let ?nodes = "env_registry (gw_env w)"
  have "set (known_for ?nodes (canon a)) = {}"
    using assms(4) by (auto simp: resolve_action_known all_supported_actions_def)
  then have "known_for ?nodes (canon a) = []" by simp
  then have "\<exists>e. route_resolve ?nodes l q = Inl e \<and> (exn_class e = LookupError \<or> exn_class e = ValueError)"
    using assms(2,5,6) by (simp add: route_resolve_def resolve_gate_bound_def resolve_action_def Let_def)
  then obtain e where e: "route_resolve ?nodes l q = Inl e" "exn_class e = LookupError \<or> exn_class e = ValueError"
    by blast
  then have "dispatch_begin S l (gw_env w) q dl (gw_now w) (gw_now w) = (gw_env w, Inl e)"
    by (simp add: dispatch_begin_def dispatch_prepare_def)
  with e show ?thesis by (simp add: gate_dispatch_def)
qed

end
