(* ===== verification/Binary_Heap.thy ===== *)
theory Binary_Heap
  imports Main "HOL-Library.Multiset"
begin

text \<open>
  The standard library's heap on a list, which is what an \<open>asyncio.PriorityQueue\<close> keeps:
  \<open>heappush\<close> and \<open>heappop\<close> of \<open>heapq\<close>, with entries compared by a key. The interface of a
  queue that hands out its least entry is a locale, and the heap is one.
\<close>

section \<open>A queue that hands out its least entry\<close>

locale least_queue =
  fixes key :: "'a \<Rightarrow> 'k :: linorder" and ok :: "'q \<Rightarrow> bool" and items :: "'q \<Rightarrow> 'a list"
    and push :: "'q \<Rightarrow> 'a \<Rightarrow> 'q" and pop :: "'q \<Rightarrow> ('a \<times> 'q) option"
  assumes items_sorted: "ok q \<Longrightarrow> sorted (map key (items q))"
    and push_ok: "ok q \<Longrightarrow> key x \<notin> key ` set (items q) \<Longrightarrow> ok (push q x)"
    and push_items: "ok q \<Longrightarrow> key x \<notin> key ` set (items q) \<Longrightarrow> items (push q x) = insort_key key x (items q)"
    and pop_None: "ok q \<Longrightarrow> pop q = None \<longleftrightarrow> items q = []"
    and pop_Some: "ok q \<Longrightarrow> pop q = Some (x, q') \<Longrightarrow> ok q' \<and> items q = x # items q'"
begin

lemma pop_cases:
  assumes "ok q"
  obtains "pop q = None" "items q = []"
  | x q' where "pop q = Some (x, q')" "ok q'" "items q = x # items q'"
  using pop_None[OF assms] pop_Some[OF assms] by (cases "pop q") auto

lemma pop_least: "ok q \<Longrightarrow> pop q = Some (x, q') \<Longrightarrow> y \<in> set (items q') \<Longrightarrow> key x \<le> key y"
  using items_sorted[of q] pop_Some[of q x q'] by simp

lemma pop_length: "ok q \<Longrightarrow> pop q = Some (x, q') \<Longrightarrow> length (items q) = Suc (length (items q'))"
  using pop_Some[of q x q'] by simp

end

section \<open>The heap on a list\<close>

definition parent :: "nat \<Rightarrow> nat" where
  "parent i = (i - 1) div 2"

text \<open>\<open>_siftdown(heap, 0, pos)\<close> for the new item \<open>x\<close>: larger parents move down.\<close>

function sift_down :: "('a \<Rightarrow> 'k :: linorder) \<Rightarrow> 'a list \<Rightarrow> 'a \<Rightarrow> nat \<Rightarrow> 'a list" where
  "sift_down key h x pos =
     (if pos = 0 then h[0 := x]
      else if key x < key (h ! parent pos)
           then sift_down key (h[pos := h ! parent pos]) x (parent pos)
           else h[pos := x])"
  by pat_completeness auto
termination
  by (relation "measure (\<lambda>(key, h, x, pos). pos)") (auto simp: parent_def)

declare sift_down.simps [simp del]

text \<open>\<open>_siftup(heap, pos)\<close>: the smaller child moves up until there is none, then \<open>x\<close> goes to
  the place that is left and down from there.\<close>

definition smaller_child :: "('a \<Rightarrow> 'k :: linorder) \<Rightarrow> 'a list \<Rightarrow> nat \<Rightarrow> nat" where
  "smaller_child key h pos =
     (let l = 2 * pos + 1; r = l + 1
      in if r < length h \<and> \<not> key (h ! l) < key (h ! r) then r else l)"

function sift_up :: "('a \<Rightarrow> 'k :: linorder) \<Rightarrow> 'a list \<Rightarrow> 'a \<Rightarrow> nat \<Rightarrow> 'a list" where
  "sift_up key h x pos =
     (if 2 * pos + 1 < length h
      then (let c = smaller_child key h pos in sift_up key (h[pos := h ! c]) x c)
      else sift_down key (h[pos := x]) x pos)"
  by pat_completeness auto
termination
  by (relation "measure (\<lambda>(key, h, x, pos). length h - pos)") (auto simp: smaller_child_def Let_def)

declare sift_up.simps [simp del]

definition heap_push :: "('a \<Rightarrow> 'k :: linorder) \<Rightarrow> 'a list \<Rightarrow> 'a \<Rightarrow> 'a list" where
  "heap_push key h x = sift_down key (h @ [x]) x (length h)"

definition heap_pop :: "('a \<Rightarrow> 'k :: linorder) \<Rightarrow> 'a list \<Rightarrow> ('a \<times> 'a list) option" where
  "heap_pop key h =
     (if h = [] then None
      else let lastelt = last h; rest = butlast h
           in if rest = [] then Some (lastelt, [])
              else Some (rest ! 0, sift_up key (rest[0 := lastelt]) lastelt 0))"

lemma length_sift_down [simp]: "length (sift_down key h x p) = length h"
  by (induction key h x p rule: sift_down.induct) (simp add: sift_down.simps)

lemma length_sift_up [simp]: "length (sift_up key h x p) = length h"
proof (induction key h x p rule: sift_up.induct)
  case (1 key h x p)
  then show ?case unfolding sift_up.simps[of key h x p] by (simp add: Let_def)
qed

lemma heap_pop_length: "heap_pop key h = Some (x, h') \<Longrightarrow> length h = Suc (length h')"
  by (cases h rule: rev_cases) (auto simp: heap_pop_def Let_def split: if_splits)

section \<open>What the heap promises\<close>

definition is_heap :: "('a \<Rightarrow> 'k :: linorder) \<Rightarrow> 'a list \<Rightarrow> bool" where
  "is_heap key h \<longleftrightarrow> (\<forall>i < length h. 0 < i \<longrightarrow> key (h ! parent i) \<le> key (h ! i))"

text \<open>A heap but for the place \<open>p\<close>, whose content does not matter.\<close>

definition heap_but :: "('a \<Rightarrow> 'k :: linorder) \<Rightarrow> 'a list \<Rightarrow> nat \<Rightarrow> bool" where
  "heap_but key h p \<longleftrightarrow> p < length h \<and>
     (\<forall>i < length h. 0 < i \<longrightarrow> i \<noteq> p \<longrightarrow>
        (if parent i = p then 0 < p \<longrightarrow> key (h ! parent p) \<le> key (h ! i)
         else key (h ! parent i) \<le> key (h ! i)))"

lemma parent_less: "0 < i \<Longrightarrow> parent i < i"
  by (simp add: parent_def)

lemma mset_move: "p < length h \<Longrightarrow> q < length h \<Longrightarrow> p \<noteq> q \<Longrightarrow> mset (h[p := h ! q, q := x]) = mset (h[p := x])"
  using mset_swap[of q "h[p := x]" p] by simp

lemma heap_but_update [simp]: "heap_but key (h[p := x]) p \<longleftrightarrow> heap_but key h p"
  by (auto simp: heap_but_def nth_list_update parent_def)

text \<open>The hole moves to the parent.\<close>

lemma heap_but_up:
  assumes "heap_but key h p" and "0 < p"
  shows "heap_but key (h[p := h ! parent p]) (parent p)"
proof -
  let ?q = "parent p"
  have less: "?q < p" and p: "p < length h" using assms parent_less by (auto simp: heap_but_def)
  have at: "key (h ! parent i) \<le> key (h ! i)" if "i < length h" "0 < i" "i \<noteq> p" "parent i \<noteq> p" for i
    using assms(1) that by (simp add: heap_but_def)
  have over: "key (h ! ?q) \<le> key (h ! i)" if "i < length h" "0 < i" "i \<noteq> p" "parent i = p" for i
    using assms that by (simp add: heap_but_def)
  have top: "key (h ! parent ?q) \<le> key (h ! ?q)" if "0 < ?q"
    using at[of ?q] that less p parent_less[of ?q] by simp
  show ?thesis
    unfolding heap_but_def
  proof (intro conjI allI impI)
    show "?q < length (h[p := h ! ?q])" using less p by simp
    fix i assume i: "i < length (h[p := h ! ?q])" "0 < i" "i \<noteq> ?q"
    show "if parent i = ?q then 0 < ?q \<longrightarrow> key (h[p := h ! ?q] ! parent ?q) \<le> key (h[p := h ! ?q] ! i)
      else key (h[p := h ! ?q] ! parent i) \<le> key (h[p := h ! ?q] ! i)"
    proof (cases "parent i = ?q")
      case True
      have "parent ?q \<noteq> p" if "0 < ?q" using parent_less[OF that] less by simp
      with True i top at[of i] less p show ?thesis
        by (cases "i = p") (auto intro: order_trans)
    next
      case False
      then have "i \<noteq> p" by auto
      with False i at[of i] over[of i] p show ?thesis by (cases "parent i = p") auto
    qed
  qed
qed

lemma sift_down_heap:
  assumes "heap_but key h p" and "\<And>i. i < length h \<Longrightarrow> 0 < i \<Longrightarrow> parent i = p \<Longrightarrow> key x \<le> key (h ! i)"
  shows "is_heap key (sift_down key h x p) \<and> mset (sift_down key h x p) = mset (h[p := x])"
  using assms
proof (induction key h x p rule: sift_down.induct)
  case (1 key h x p)
  note hole = 1(2)[unfolded heap_but_def] and children = 1(3)
  consider (root) "p = 0" | (stop) "0 < p" "\<not> key x < key (h ! parent p)" | (up) "0 < p" "key x < key (h ! parent p)"
    by auto
  then show ?case
  proof cases
    case root
    with hole children show ?thesis
      unfolding sift_down.simps[of key h x p] by (auto simp: is_heap_def nth_list_update)
  next
    case stop
    with hole children show ?thesis
      by (auto simp: sift_down.simps[of key h x p] is_heap_def nth_list_update parent_less less_imp_neq)
  next
    case up
    let ?q = "parent p" and ?h = "h[p := h ! parent p]"
    have q: "?q < p" "p < length h" using up hole parent_less by auto
    have "key x \<le> key (?h ! i)" if "i < length ?h" "0 < i" "parent i = ?q" for i
    proof (cases "i = p")
      case False
      with hole that q have "key (h ! ?q) \<le> key (h ! i)" by auto
      with up False that show ?thesis by simp
    qed (use up q in simp)
    with 1(1) up heap_but_up[OF 1(2)]
    have "is_heap key (sift_down key ?h x ?q) \<and> mset (sift_down key ?h x ?q) = mset (?h[?q := x])" by blast
    with up q mset_move[of p h ?q x] show ?thesis by (simp add: sift_down.simps[of key h x p])
  qed
qed

text \<open>The hole moves to the smaller child.\<close>

lemma parent_child: "0 < i \<Longrightarrow> parent i = p \<longleftrightarrow> i = 2 * p + 1 \<or> i = 2 * p + 2"
  unfolding parent_def by presburger

lemma parent_of_child [simp]: "parent (Suc (2 * p)) = p" "parent (Suc (Suc (2 * p))) = p"
  by (simp_all add: parent_child)

lemma smaller_child:
  assumes "2 * p + 1 < length h"
  shows "smaller_child key h p < length h" "0 < smaller_child key h p" "parent (smaller_child key h p) = p"
    and "i < length h \<Longrightarrow> 0 < i \<Longrightarrow> parent i = p \<Longrightarrow> key (h ! smaller_child key h p) \<le> key (h ! i)"
  using assms by (auto simp: smaller_child_def Let_def parent_child not_less)

lemma heap_but_down:
  assumes "heap_but key h p" and "2 * p + 1 < length h"
  shows "heap_but key (h[p := h ! smaller_child key h p]) (smaller_child key h p)"
proof -
  let ?c = "smaller_child key h p"
  note c = smaller_child[OF assms(2), where key = key]
  have at: "key (h ! parent i) \<le> key (h ! i)" if "i < length h" "0 < i" "i \<noteq> p" "parent i \<noteq> p" for i
    using assms(1) that by (simp add: heap_but_def)
  have over: "key (h ! parent p) \<le> key (h ! i)" if "i < length h" "0 < i" "i \<noteq> p" "parent i = p" "0 < p" for i
    using assms that by (simp add: heap_but_def)
  have p: "p < ?c" "p < length h" using parent_less[OF c(2)] c(1,3) by simp_all
  show ?thesis
    unfolding heap_but_def
  proof (intro conjI allI impI)
    show "?c < length (h[p := h ! ?c])" using c(1) by simp
    fix i assume i: "i < length (h[p := h ! ?c])" "0 < i" "i \<noteq> ?c"
    show "if parent i = ?c then 0 < ?c \<longrightarrow> key (h[p := h ! ?c] ! parent ?c) \<le> key (h[p := h ! ?c] ! i)
      else key (h[p := h ! ?c] ! parent i) \<le> key (h[p := h ! ?c] ! i)"
    proof (cases "parent i = ?c")
      case True
      then have "i \<noteq> p" using parent_less[OF i(2)] p by auto
      with True i at[of i] c p show ?thesis by simp
    next
      case False
      with i c p at[of i] over[of ?c] parent_less[of p] show ?thesis
        by (cases "i = p"; cases "parent i = p") auto
    qed
  qed
qed

lemma sift_up_heap:
  assumes "heap_but key h p"
  shows "is_heap key (sift_up key h x p) \<and> mset (sift_up key h x p) = mset (h[p := x])"
  using assms
proof (induction key h x p rule: sift_up.induct)
  case (1 key h x p)
  show ?case
  proof (cases "2 * p + 1 < length h")
    case True
    let ?c = "smaller_child key h p"
    note c = smaller_child[OF True, where key = key]
    have p: "p < ?c" "p < length h" using parent_less[OF c(2)] c(1,3) by simp_all
    from 1(1)[OF True refl heap_but_down[OF 1(2) True]] mset_move[of p h ?c x] c(1) p True show ?thesis
      by (simp add: sift_up.simps[of key h x p] Let_def)
  next
    case False
    have "key x \<le> key (h[p := x] ! i)" if "i < length h" "0 < i" "parent i = p" for i
      using that False by (auto simp: parent_child)
    with sift_down_heap[of key "h[p := x]" p x] 1(2) False show ?thesis
      by (simp add: sift_up.simps[of key h x p])
  qed
qed

lemma heap_push_heap:
  assumes "is_heap key h"
  shows "is_heap key (heap_push key h x) \<and> mset (heap_push key h x) = add_mset x (mset h)"
proof -
  have "parent i < length h \<and> parent i \<noteq> length h" if "i < length h" "0 < i" for i
    using parent_less[OF that(2)] that(1) by simp
  then have "heap_but key (h @ [x]) (length h)"
    using assms by (auto simp: heap_but_def is_heap_def nth_append less_Suc_eq)
  moreover have "key x \<le> key ((h @ [x]) ! i)" if "i < length (h @ [x])" "0 < i" "parent i = length h" for i
    using that parent_less[of i] by simp
  ultimately show ?thesis using sift_down_heap[of key "h @ [x]" "length h" x] by (simp add: heap_push_def)
qed

lemma heap_root: "is_heap key h \<Longrightarrow> i < length h \<Longrightarrow> key (h ! 0) \<le> key (h ! i)"
proof (induction i rule: less_induct)
  case (less i)
  show ?case
  proof (cases "i = 0")
    case False
    with less.prems have "key (h ! parent i) \<le> key (h ! i)" by (simp add: is_heap_def)
    moreover have "key (h ! 0) \<le> key (h ! parent i)" using less False parent_less[of i] by simp
    ultimately show ?thesis by (rule order_trans[rotated])
  qed simp
qed

lemma heap_pop_heap:
  assumes "is_heap key h" and "heap_pop key h = Some (x, h')"
  shows "is_heap key h' \<and> mset h = add_mset x (mset h') \<and> (\<forall>y \<in> set h. key x \<le> key y)"
proof -
  have ne: "h \<noteq> []" using assms(2) by (auto simp: heap_pop_def)
  let ?r = "butlast h" and ?l = "last h"
  have h: "mset h = add_mset ?l (mset ?r)" using ne by (metis append_butlast_last_id mset_append
        mset.simps(1,2) union_mset_add_mset_right add.right_neutral)
  have least: "\<forall>y \<in> set h. key (h ! 0) \<le> key y" using heap_root[OF assms(1)] by (auto simp: in_set_conv_nth)
  show ?thesis
  proof (cases "?r = []")
    case True
    with assms(2) ne have "x = ?l" "h' = []" by (auto simp: heap_pop_def)
    with True h show ?thesis using ne by (cases h) (auto simp: is_heap_def split: if_splits)
  next
    case False
    then have x: "x = ?r ! 0" "h' = sift_up key (?r[0 := ?l]) ?l 0"
      using assms(2) ne by (auto simp: heap_pop_def Let_def)
    have "key (?r ! parent i) \<le> key (?r ! i)" if "i < length ?r" "0 < i" for i
    proof -
      have "parent i < length ?r" using parent_less[OF that(2)] that(1) by simp
      with that assms(1) show ?thesis by (simp add: is_heap_def nth_butlast)
    qed
    then have "heap_but key ?r 0" using False by (simp add: heap_but_def del: length_butlast)
    then have "is_heap key h' \<and> mset h' = mset (?r[0 := ?l])"
      using sift_up_heap[of key "?r[0 := ?l]" 0 ?l] x(2) by simp
    moreover have "mset (?r[0 := ?l]) = add_mset ?l (mset ?r - {#?r ! 0#})"
      using False by (cases ?r) simp_all
    moreover have "?r ! 0 \<in># mset ?r" "?r ! 0 = h ! 0" using False nth_butlast[of 0 h] by (cases ?r; simp)+
    ultimately show ?thesis using h x(1) least by simp
  qed
qed

section \<open>The heap is such a queue\<close>

definition heap_ok :: "('a \<Rightarrow> 'k :: linorder) \<Rightarrow> 'a list \<Rightarrow> bool" where
  "heap_ok key h \<longleftrightarrow> is_heap key h \<and> inj_on key (set h)"

lemma sort_key_unique:
  "inj_on key (set xs) \<Longrightarrow> mset xs = mset ys \<Longrightarrow> sorted (map key ys) \<Longrightarrow> sort_key key xs = ys"
  by (rule sort_key_inj_key_eq) auto

interpretation heap: least_queue key "heap_ok key" "sort_key key" "heap_push key" "heap_pop key"
  for key :: "'a \<Rightarrow> 'k :: linorder"
proof unfold_locales
  fix q x q'
  show "sorted (map key (sort_key key q))" by simp
  show "heap_pop key q = None \<longleftrightarrow> sort_key key q = []" by (auto simp: heap_pop_def Let_def) (metis set_empty set_sort)+
  assume ok: "heap_ok key q"
  {
    assume "key x \<notin> key ` set (sort_key key q)"
    then have inj: "inj_on key (set (x # q))" using ok by (auto simp: heap_ok_def)
    from heap_push_heap[of key q x] ok have push: "is_heap key (heap_push key q x)"
      "mset (heap_push key q x) = mset (x # q)" by (simp_all add: heap_ok_def)
    then have inj': "inj_on key (set (heap_push key q x))" using inj by (metis set_mset_mset)
    with push(1) show "heap_ok key (heap_push key q x)" by (simp add: heap_ok_def)
    show "sort_key key (heap_push key q x) = insort_key key x (sort_key key q)"
      using push(2) by (intro sort_key_unique[OF inj']) (simp_all add: sorted_insort_key)
  }
  assume "heap_pop key q = Some (x, q')"
  from heap_pop_heap[OF _ this] ok have pop: "is_heap key q'" "mset q = mset (x # q')" "\<forall>y \<in> set q. key x \<le> key y"
    by (simp_all add: heap_ok_def)
  then have set: "set q = insert x (set q')" by (metis list.simps(15) set_mset_mset)
  with ok pop(1) have "heap_ok key q'" by (auto simp: heap_ok_def intro: inj_on_subset)
  moreover have "sort_key key q = x # sort_key key q'"
    using ok pop(2,3) set by (intro sort_key_unique) (simp_all add: heap_ok_def)
  ultimately show "heap_ok key q' \<and> sort_key key q = x # sort_key key q'" ..
qed

end
