(* ===== verification/Priority_Queue.thy ===== *)
theory Priority_Queue
  imports Packet Binary_Heap
begin

text \<open>
  The async priority queue of packets, \<open>routing/priority_queue.py\<close>. The code keeps
  \<open>(priority, sequence, packet)\<close> triples in an \<open>asyncio.PriorityQueue\<close>, a heap on a list
  (\<open>Binary_Heap\<close>); sequence numbers are unique, so the comparison of triples never reaches
  the packet. \<open>get\<close> on an empty queue and \<open>join\<close> on a queue with unfinished tasks wait,
  which is \<open>None\<close>.
\<close>

datatype queue_rank = Rank (rank_priority: int) (rank_sequence: nat)

instantiation queue_rank :: linorder
begin

definition less_eq_queue_rank :: "queue_rank \<Rightarrow> queue_rank \<Rightarrow> bool" where
  "less_eq_queue_rank a b =
     (rank_priority a < rank_priority b \<or>
      rank_priority a = rank_priority b \<and> rank_sequence a \<le> rank_sequence b)"

definition less_queue_rank :: "queue_rank \<Rightarrow> queue_rank \<Rightarrow> bool" where
  "less_queue_rank a b =
     (rank_priority a < rank_priority b \<or>
      rank_priority a = rank_priority b \<and> rank_sequence a < rank_sequence b)"

instance
  by standard (auto simp: less_eq_queue_rank_def less_queue_rank_def queue_rank.expand)

end

record packet_queue =
  pq_queue :: "(queue_rank \<times> packet) list"
  pq_sequence :: nat
  pq_unfinished :: nat

definition queue_init :: packet_queue where
  "queue_init = \<lparr>pq_queue = [], pq_sequence = 0, pq_unfinished = 0\<rparr>"

definition queue_put :: "packet_queue \<Rightarrow> packet \<Rightarrow> packet_queue" where
  "queue_put q p =
     q\<lparr>pq_queue := heap_push fst (pq_queue q) (Rank (priority (header p)) (pq_sequence q), p),
       pq_sequence := pq_sequence q + 1, pq_unfinished := pq_unfinished q + 1\<rparr>"

definition queue_get :: "packet_queue \<Rightarrow> packet_queue \<times> packet option" where
  "queue_get q =
     (case heap_pop fst (pq_queue q) of
        None \<Rightarrow> (q, None)
      | Some ((rank, p), rest) \<Rightarrow> (q\<lparr>pq_queue := rest\<rparr>, Some p))"

definition queue_size :: "packet_queue \<Rightarrow> nat" where
  "queue_size q = length (pq_queue q)"

definition queue_empty :: "packet_queue \<Rightarrow> bool" where
  "queue_empty q = (pq_queue q = [])"

text \<open>\<open>while not empty: items.append(await get())\<close>; \<open>get\<close> never waits here.\<close>

function queue_drain :: "packet_queue \<Rightarrow> packet_queue \<times> packet list" where
  "queue_drain q =
     (if queue_empty q then (q, [])
      else case queue_get q of
             (q', None) \<Rightarrow> (q', [])
           | (q', Some p) \<Rightarrow> (case queue_drain q' of (q'', ps) \<Rightarrow> (q'', p # ps)))"
  by pat_completeness auto
termination
  by (relation "measure (\<lambda>q. length (pq_queue q))")
    (auto simp: queue_get_def dest: heap_pop_length split: option.splits prod.splits)

declare queue_drain.simps [simp del]

definition task_done :: "packet_queue \<Rightarrow> packet_queue \<times> unit res" where
  "task_done q =
     (if pq_unfinished q = 0 then (q, raise ValueError ''task_done() called too many times'')
      else (q\<lparr>pq_unfinished := pq_unfinished q - 1\<rparr>, Inr ()))"

definition queue_join :: "packet_queue \<Rightarrow> unit option" where
  "queue_join q = (if pq_unfinished q = 0 then Some () else None)"

text \<open>The entries of the heap in the order of its list.\<close>

definition debug_snapshot :: "packet_queue \<Rightarrow> payload list" where
  "debug_snapshot q = map (\<lambda>(rank, p).
     [(''priority'', PyInt (rank_priority rank)), (''sequence'', PyInt (int (rank_sequence rank))),
      (''packet_id'', PyStr (packet_id (header p))), (''action'', PyStr (action (header p)))]) (pq_queue q)"

section \<open>The queue as the list of pending packets, in order of arrival\<close>

definition urgency :: "packet \<Rightarrow> int" where
  "urgency p = priority (header p)"

text \<open>The first of the most urgent packets, and the others.\<close>

definition most_urgent :: "packet list \<Rightarrow> packet option" where
  "most_urgent ps = find (\<lambda>p. list_all (\<lambda>q. urgency p \<le> urgency q) ps) ps"

datatype queue_event = Put packet | Get

fun queue_step :: "packet_queue \<Rightarrow> queue_event \<Rightarrow> packet_queue \<times> packet option" where
  "queue_step q (Put p) = (queue_put q p, None)"
| "queue_step q Get = queue_get q"

fun pending_step :: "packet list \<Rightarrow> queue_event \<Rightarrow> packet list \<times> packet option" where
  "pending_step ps (Put p) = (ps @ [p], None)"
| "pending_step ps Get =
     (case most_urgent ps of None \<Rightarrow> (ps, None) | Some p \<Rightarrow> (remove1 p ps, Some p))"

fun run_steps :: "('s \<Rightarrow> 'e \<Rightarrow> 's \<times> 'o) \<Rightarrow> 's \<Rightarrow> 'e list \<Rightarrow> 's \<times> 'o list" where
  "run_steps f s [] = (s, [])"
| "run_steps f s (e # es) =
     (case f s e of (s', x) \<Rightarrow> (case run_steps f s' es of (s'', xs) \<Rightarrow> (s'', x # xs)))"

definition queue_rel :: "packet_queue \<Rightarrow> packet list \<Rightarrow> bool" where
  "queue_rel q ps \<longleftrightarrow> heap_ok fst (pq_queue q) \<and> map snd (sort_key fst (pq_queue q)) = sort_key urgency ps
     \<and> (\<forall>(r, p) \<in> set (pq_queue q). rank_priority r = urgency p \<and> rank_sequence r < pq_sequence q)"

lemma dropWhile_above:
  fixes f :: "'a \<Rightarrow> 'b :: linorder"
  shows "sorted (map f ys) \<Longrightarrow> \<forall>y \<in> set (dropWhile (\<lambda>y. f y \<le> c) ys). c < f y"
  by (induction ys) (auto simp: not_le intro: less_le_trans)

lemma stable_sort: "filter (\<lambda>y. k = f y) (sort_key f xs) = filter (\<lambda>y. k = f y) xs"
proof -
  have "(\<lambda>y. k = f y) = (\<lambda>y. f y = k)" by auto
  then show ?thesis by (simp only: sort_key_stable)
qed

lemma sort_key_snoc:
  fixes f :: "'a \<Rightarrow> 'b :: linorder"
  shows "sort_key f (xs @ [x]) =
    takeWhile (\<lambda>y. f y \<le> f x) (sort_key f xs) @ x # dropWhile (\<lambda>y. f y \<le> f x) (sort_key f xs)"
    (is "_ = ?t @ x # ?d")
proof (rule properties_for_sort_key)
  have td: "?t @ ?d = sort_key f xs" by (rule takeWhile_dropWhile_id)
  then have "mset ?t + mset ?d = mset xs" by (metis mset_append mset_sort)
  then show "mset (?t @ x # ?d) = mset (xs @ [x])" by simp
  have sd: "\<forall>y \<in> set ?d. f x < f y" by (rule dropWhile_above) simp
  have st: "\<forall>y \<in> set ?t. f y \<le> f x" by (auto dest: set_takeWhileD)
  have "sorted (map f ?t)" "sorted (map f ?d)"
    by (metis sorted_sort_key td map_append sorted_append)+
  with sd st show "sorted (map f (?t @ x # ?d))"
    by (auto simp: sorted_append intro: less_imp_le) (meson less_imp_le order_trans)
  fix k assume "k \<in> set (?t @ x # ?d)"
  have "filter (\<lambda>y. f k = f y) (?t @ ?d) = filter (\<lambda>y. f k = f y) xs"
    by (simp only: td stable_sort)
  then have "filter (\<lambda>y. f k = f y) ?t @ filter (\<lambda>y. f k = f y) ?d = filter (\<lambda>y. f k = f y) xs"
    by (simp only: filter_append)
  moreover have "f k = f x \<Longrightarrow> filter (\<lambda>y. f k = f y) ?d = []"
    using sd by (auto simp: filter_empty_conv)
  ultimately show "filter (\<lambda>y. f k = f y) (?t @ x # ?d) = filter (\<lambda>y. f k = f y) (xs @ [x])"
    by auto
qed

lemma insort_after:
  "sorted (map f xs) \<Longrightarrow> \<forall>y \<in> set xs. f x \<noteq> f y \<Longrightarrow>
   insort_key f x xs = takeWhile (\<lambda>y. f y < f x) xs @ x # dropWhile (\<lambda>y. f y < f x) xs"
  by (induction xs) (auto simp: less_le)

lemma find_filter: "find P xs = (case filter P xs of [] \<Rightarrow> None | x # _ \<Rightarrow> Some x)"
  by (induction xs) simp_all

lemma least_first:
  fixes f :: "'a \<Rightarrow> 'b :: linorder"
  assumes "sort_key f ps = p # qs"
  shows "find (\<lambda>x. list_all (\<lambda>q. f x \<le> f q) ps) ps = Some p \<and> sort_key f (remove1 p ps) = qs"
proof
  have set: "set ps = insert p (set qs)" by (metis assms list.simps(15) set_sort)
  have sorted: "sorted (map f qs)" "\<forall>q \<in> set qs. f p \<le> f q"
    using sorted_sort_key[of f ps] assms by simp_all
  have stable: "filter (\<lambda>y. f k = f y) ps = filter (\<lambda>y. f k = f y) (p # qs)" for k
    by (simp only: stable_sort flip: assms)
  have "list_all (\<lambda>q. f x \<le> f q) ps \<longleftrightarrow> f p = f x" if "x \<in> set ps" for x
    using set sorted(2) that by (auto simp: list_all_iff intro: antisym)
  then have "filter (\<lambda>x. list_all (\<lambda>q. f x \<le> f q) ps) ps = filter (\<lambda>x. f p = f x) ps"
    by (auto intro: filter_cong)
  also have "\<dots> = p # filter (\<lambda>x. f p = f x) qs" using stable[of p] by simp
  finally show "find (\<lambda>x. list_all (\<lambda>q. f x \<le> f q) ps) ps = Some p" by (simp add: find_filter)
  show "sort_key f (remove1 p ps) = qs"
  proof (rule properties_for_sort_key)
    show "mset qs = mset (remove1 p ps)" by (metis add_mset_remove_trivial assms mset.simps(2) mset_remove1 mset_sort)
    show "sorted (map f qs)" by (rule sorted)
    fix k assume "k \<in> set qs"
    have "filter (\<lambda>y. f k = f y) (remove1 p ps) = remove1 p (filter (\<lambda>y. f k = f y) (p # qs))"
      by (simp add: filter_remove1 stable)
    also have "\<dots> = filter (\<lambda>y. f k = f y) qs" by (auto simp: remove1_idem)
    finally show "filter (\<lambda>y. f k = f y) qs = filter (\<lambda>y. f k = f y) (remove1 p ps)" ..
  qed
qed

lemma queue_rel_init: "queue_rel queue_init []"
  by (simp add: queue_rel_def queue_init_def heap_ok_def is_heap_def)

lemma queue_rel_put:
  assumes "queue_rel q ps"
  shows "queue_rel (queue_put q p) (ps @ [p])"
proof -
  let ?x = "(Rank (urgency p) (pq_sequence q), p)" and ?es = "sort_key fst (pq_queue q)"
  let ?P = "\<lambda>y. urgency y \<le> urgency p"
  have ok: "heap_ok fst (pq_queue q)" using assms by (simp add: queue_rel_def)
  have ranks: "rank_priority r = urgency y \<and> rank_sequence r < pq_sequence q"
    if "(r, y) \<in> set (pq_queue q)" for r y
    using assms that by (auto simp: queue_rel_def)
  have lt: "fst y < fst ?x \<longleftrightarrow> ?P (snd y)" if "y \<in> set ?es" for y
    using ranks[of "fst y" "snd y"] that by (auto simp: less_queue_rank_def)
  have ne: "fst ?x \<noteq> fst y" if "y \<in> set ?es" for y
    using ranks[of "fst y" "snd y"] that by (metis fst_conv less_irrefl prod.collapse queue_rank.sel(2) set_sort)
  then have new: "fst ?x \<notin> fst ` set ?es" by blast
  have "insort_key fst ?x ?es = takeWhile (\<lambda>y. ?P (snd y)) ?es @ ?x # dropWhile (\<lambda>y. ?P (snd y)) ?es"
    using insort_after[OF heap.items_sorted[OF ok], of ?x] ne
      takeWhile_cong[OF refl lt, of ?es] dropWhile_cong[OF refl lt, of ?es] by simp
  then have "map snd (insort_key fst ?x ?es) = sort_key urgency (ps @ [p])"
    using takeWhile_map[of ?P snd ?es] dropWhile_map[of ?P snd ?es] assms
    by (simp add: queue_rel_def sort_key_snoc comp_def)
  moreover have "set (heap_push fst (pq_queue q) ?x) = insert ?x (set (pq_queue q))"
    using heap.push_items[OF ok new] by (metis set_insort_key set_sort)
  ultimately show ?thesis
    using heap.push_ok[OF ok new] heap.push_items[OF ok new] ranks
    by (auto simp: queue_rel_def queue_put_def urgency_def less_Suc_eq)
qed

lemma queue_rel_get:
  assumes "queue_rel q ps"
  shows "case queue_get q of
      (q', None) \<Rightarrow> q' = q \<and> ps = []
    | (q', Some p) \<Rightarrow> most_urgent ps = Some p \<and> queue_rel q' (remove1 p ps)"
proof -
  have ok: "heap_ok fst (pq_queue q)" using assms by (simp add: queue_rel_def)
  show ?thesis
  proof (cases rule: heap.pop_cases[OF ok])
    case 1
    with assms have "sort_key urgency ps = []" by (simp add: queue_rel_def)
    then have "ps = []" by (metis set_empty set_sort)
    with 1 show ?thesis by (simp add: queue_get_def)
  next
    case (2 e rest)
    obtain r p where e: "e = (r, p)" by (cases e)
    from assms have "sort_key urgency ps = p # map snd (sort_key fst rest)" by (simp add: queue_rel_def 2 e)
    moreover have "set (pq_queue q) = insert (r, p) (set rest)" using 2(3) e by (metis list.simps(15) set_sort)
    ultimately show ?thesis
      using least_first[of urgency ps p] assms 2 by (auto simp: queue_get_def queue_rel_def e most_urgent_def)
  qed
qed

lemma queue_step_rel:
  assumes "queue_rel q ps"
  shows "snd (queue_step q e) = snd (pending_step ps e) \<and>
    queue_rel (fst (queue_step q e)) (fst (pending_step ps e))"
proof (cases e)
  case (Put p)
  then show ?thesis using queue_rel_put[OF assms] by simp
next
  case Get
  then show ?thesis using queue_rel_get[OF assms] assms
    by (cases "queue_get q") (auto simp: most_urgent_def split: option.splits)
qed

text \<open>
  C29. The priority queue hands out, at every get of every history of puts and gets, the
  earliest arrived of the most urgent pending packets: it agrees with the list of
  pending packets in order of arrival, so packets of one priority never overtake
  each other.
\<close>

theorem queue_is_fifo_within_priority:
  "snd (run_steps queue_step queue_init events) = snd (run_steps pending_step [] events)"
proof -
  have "queue_rel q ps \<Longrightarrow> snd (run_steps queue_step q es) = snd (run_steps pending_step ps es)" for q ps es
  proof (induction es arbitrary: q ps)
    case (Cons e es)
    from queue_step_rel[OF Cons.prems, of e] Cons.IH show ?case
      by (auto split: prod.splits) (metis snd_conv)
  qed simp
  then show ?thesis using queue_rel_init by blast
qed

lemma drain_returns_items:
  "heap_ok fst (pq_queue q) \<Longrightarrow>
     snd (queue_drain q) = map snd (sort_key fst (pq_queue q)) \<and> queue_empty (fst (queue_drain q))"
proof (induction q rule: queue_drain.induct)
  case (1 q)
  show ?case
  proof (cases rule: heap.pop_cases[OF 1(2)])
    case 1
    then have "queue_empty q" by (metis queue_empty_def set_empty set_sort)
    with 1(2) show ?thesis by (simp add: queue_drain.simps[of q])
  next
    case (2 e rest)
    obtain r p where e: "e = (r, p)" by (cases e)
    have "\<not> queue_empty q" using 2(3) by (auto simp: queue_empty_def)
    moreover have "queue_get q = (q\<lparr>pq_queue := rest\<rparr>, Some p)" using 2(1) by (simp add: queue_get_def e)
    ultimately show ?thesis
      using 1(1)[of "q\<lparr>pq_queue := rest\<rparr>" "Some p" p] 2(2,3) e
      by (simp add: queue_drain.simps[of q] split: prod.splits) auto
  qed
qed

text \<open>
  Draining the queue returns every pending packet exactly once, most urgent first and
  in order of arrival within a priority, and leaves the queue empty.
\<close>

theorem drain_sorts_stably:
  "snd (queue_drain (foldl queue_put queue_init ps)) = sort_key urgency ps
   \<and> queue_empty (fst (queue_drain (foldl queue_put queue_init ps)))"
proof -
  have put: "queue_rel q xs \<Longrightarrow> queue_rel (foldl queue_put q ps) (xs @ ps)" for q xs
  proof (induction ps arbitrary: q xs)
    case (Cons p ps)
    from Cons.IH[OF queue_rel_put[OF Cons.prems]] show ?case by simp
  qed simp
  from put[OF queue_rel_init] drain_returns_items show ?thesis by (simp add: queue_rel_def)
qed

text \<open>The snapshot lists what is pending, with the packet that leaves next in front.\<close>

lemma snapshot_lists_pending:
  assumes "queue_rel q ps"
  shows "mset (map snd (pq_queue q)) = mset ps \<and> length (debug_snapshot q) = length ps
    \<and> (ps \<noteq> [] \<longrightarrow> Some (snd (pq_queue q ! 0)) = most_urgent ps)"
proof -
  have "mset (map snd (sort_key fst (pq_queue q))) = mset (sort_key urgency ps)"
    using assms by (simp add: queue_rel_def)
  then have m: "mset (map snd (pq_queue q)) = mset ps" by simp
  moreover have "length (debug_snapshot q) = length ps"
    using mset_eq_length[OF m] by (simp add: debug_snapshot_def)
  moreover have "Some (snd (pq_queue q ! 0)) = most_urgent ps" if ne: "ps \<noteq> []"
  proof -
    have "pq_queue q \<noteq> []" using m ne by auto
    then obtain rest where "heap_pop fst (pq_queue q) = Some (pq_queue q ! 0, rest)"
      by (cases "pq_queue q" rule: rev_cases; cases "butlast (pq_queue q) = []")
        (simp_all add: heap_pop_def Let_def nth_append)
    with queue_rel_get[OF assms] show ?thesis by (auto simp: queue_get_def split: prod.splits)
  qed
  ultimately show ?thesis by blast
qed

end
