(* ===== verification/Progress.thy ===== *)
theory Progress
  imports Dispatch Execute_Service
begin

text \<open>
  Progress: the calls that are under way can always come to an end, in any order and
  with any outcome, and when they have the counters are back where they belong. The
  steps that finish a dispatch are those of \<open>gate_step\<close> that start nothing new.
\<close>

section \<open>Dispatches\<close>

inductive finish_step :: "gate_sys \<Rightarrow> gate_sys \<Rightarrow> bool" where
  Sent: "fl \<in> set (sys_waiting s) \<Longrightarrow> dispatch_resume (sys_env s) fl False = (env, Inr ()) \<Longrightarrow>
    finish_step s (s\<lparr>sys_env := env, sys_waiting := remove1 fl (sys_waiting s),
      sys_sending := fl # sys_sending s\<rparr>)"
| Turned_away: "fl \<in> set (sys_waiting s) \<Longrightarrow> dispatch_resume (sys_env s) fl False = (env, Inl e) \<Longrightarrow>
    finish_step s (s\<lparr>sys_env := env, sys_waiting := remove1 fl (sys_waiting s)\<rparr>)"
| Given_up: "fl \<in> set (sys_waiting s) \<Longrightarrow> dispatch_resume (sys_env s) fl True = (env, Inl e) \<Longrightarrow>
    finish_step s (s\<lparr>sys_env := env, sys_waiting := remove1 fl (sys_waiting s),
      sys_lost := node_name (fl_target fl) # sys_lost s\<rparr>)"
| Answered_or_failed: "fl \<in> set (sys_sending s) \<Longrightarrow> dispatch_settle (sys_env s) fl outcome = (env, r) \<Longrightarrow>
    finish_step s (s\<lparr>sys_env := env, sys_sending := remove1 fl (sys_sending s)\<rparr>)"

lemma finish_step_is_step: "finish_step s s' \<Longrightarrow> gate_step S l s s'"
  by (induction rule: finish_step.induct) (auto intro: gate_step.intros)

text \<open>A waiting dispatch has two steps to go, one that is at its worker has one.\<close>

definition steps_to_go :: "gate_sys \<Rightarrow> nat" where
  "steps_to_go s = 2 * length (sys_waiting s) + length (sys_sending s)"

lemma length_remove1_in: "x \<in> set xs \<Longrightarrow> Suc (length (remove1 x xs)) = length xs"
  by (induction xs) auto

lemma finish_step_counts: "finish_step s s' \<Longrightarrow> Suc (steps_to_go s') \<le> steps_to_go s"
  by (induction rule: finish_step.induct)
    (auto simp: steps_to_go_def dest: length_remove1_in simp flip: length_remove1_in)

lemma finish_step_enabled:
  assumes "sys_waiting s \<noteq> [] \<or> sys_sending s \<noteq> []"
  shows "\<exists>s'. finish_step s s'"
  using assms
proof
  assume "sys_waiting s \<noteq> []"
  then have fl: "hd (sys_waiting s) \<in> set (sys_waiting s)" by simp
  obtain env r where r: "dispatch_resume (sys_env s) (hd (sys_waiting s)) False = (env, r)" by fastforce
  show ?thesis
  proof (cases r)
    case (Inl e)
    with finish_step.Turned_away[OF fl] r show ?thesis by blast
  next
    case (Inr u)
    with finish_step.Sent[OF fl] r show ?thesis by auto
  qed
next
  assume "sys_sending s \<noteq> []"
  then have fl: "hd (sys_sending s) \<in> set (sys_sending s)" by simp
  obtain env r where "dispatch_settle (sys_env s) (hd (sys_sending s)) (raise TimeoutError []) = (env, r)" by fastforce
  with finish_step.Answered_or_failed[OF fl] show ?thesis by blast
qed

lemma finish_steps:
  "(finish_step ^^ n) s s' \<Longrightarrow> gate_reachable S l s \<Longrightarrow> gate_reachable S l s' \<and> n + steps_to_go s' \<le> steps_to_go s"
proof (induction n arbitrary: s')
  case (Suc n)
  then obtain s1 where "(finish_step ^^ n) s s1" and last: "finish_step s1 s'" by auto
  with Suc have "gate_reachable S l s1" "n + steps_to_go s1 \<le> steps_to_go s" by blast+
  with last finish_step_is_step[OF last] finish_step_counts[OF last] show ?case
    by (auto intro: gate_reachable.Step)
qed simp

text \<open>When nothing is in flight, nothing is counted but the permits that were lost.\<close>

lemma idle_counts:
  assumes "gate_reachable S l s" and "sys_waiting s = []" and "sys_sending s = []"
  shows "(\<forall>k r. dget (env_registry (sys_env s)) k = Some r \<longrightarrow> active_requests r = 0)
    \<and> (\<exists>lims. env_limits (sys_env s) = Some lims \<and> (\<forall>k. held lims k = lost_at k (sys_lost s)))"
proof -
  have acc: "accounted s" using assms(1) by (rule accounted_reachable)
  have "active_requests r = 0" if "dget (env_registry (sys_env s)) k = Some r" for k r
  proof (rule antisym)
    show "active_requests r \<le> 0"
      using acc assms(3) that by (auto simp: accounted_def load_account_def going_to_def)
    show "0 \<le> active_requests r"
      using acc registry_wf_get[OF _ that] by (simp add: accounted_def wf_node_def)
  qed
  with acc assms(2,3) show ?thesis by (auto simp: accounted_def limits_account_def going_to_def)
qed

text \<open>
  Dispatches drain: from every reachable state of Gate, whatever the order in which
  the calls under way go on and however each ends, reply, failure, timeout or
  cancellation, after at most two steps for a waiting and one for a sent dispatch none
  is left; until then one of them can go on; and then every load is zero and no permit
  is held but those that cancellations inside \<open>acquire\<close> lost.
\<close>

theorem dispatches_drain:
  assumes "gate_reachable S l s" and "(finish_step ^^ n) s s'"
  shows "n \<le> 2 * length (sys_waiting s) + length (sys_sending s)
    \<and> ((\<exists>s''. finish_step s' s'')
       \<or> sys_waiting s' = [] \<and> sys_sending s' = []
         \<and> (\<forall>k r. dget (env_registry (sys_env s')) k = Some r \<longrightarrow> active_requests r = 0)
         \<and> (\<exists>lims. env_limits (sys_env s') = Some lims \<and> (\<forall>k. held lims k = lost_at k (sys_lost s'))))"
proof (cases "sys_waiting s' = [] \<and> sys_sending s' = []")
  case True
  with finish_steps[OF assms(2,1)] idle_counts[of S l s'] show ?thesis by (auto simp: steps_to_go_def)
next
  case False
  with finish_steps[OF assms(2,1)] finish_step_enabled[of s'] show ?thesis by (auto simp: steps_to_go_def)
qed

theorem dispatches_drain_witness:
  "\<exists>s s' k r. gate_reachable (ref_sdk (\<lambda>_. raise ValueError [])) ''gate'' s \<and> sys_sending s \<noteq> []
     \<and> finish_step s s' \<and> (1 :: nat) \<le> 2 * length (sys_waiting s) + length (sys_sending s)
     \<and> dget (env_registry (sys_env s)) k = Some r \<and> active_requests r = 1"
proof -
  obtain s r where s: "gate_reachable (ref_sdk (\<lambda>_. raise ValueError [])) ''gate'' s" "sys_sending s \<noteq> []"
    and r: "dget (env_registry (sys_env s)) ''graph'' = Some r" "active_requests r = 1"
    using reachable_example by fastforce
  from finish_step_enabled s(2) obtain s' where s': "finish_step s s'" by blast
  then have "(finish_step ^^ 1) s s'" by (simp only: relpowp_1)
  from dispatches_drain[OF s(1) this] s s' r show ?thesis by blast
qed

section \<open>Calls of the execute service\<close>

text \<open>Every call that waits can be settled, and a settled call is counted no longer.\<close>

lemma execute_calls_drain:
  assumes "exec_reach S sys"
  shows "\<exists>sys'. exec_reach S sys' \<and> sy_running sys' = [] \<and> ex_in_flight (sy_service sys') = 0
    \<and> m_in_flight (ex_metrics (sy_service sys')) = 0 \<and> sy_started sys' = sy_started sys"
  using assms
proof (induction "length (sy_running sys)" arbitrary: sys)
  case 0
  with exec_counted_reach[OF 0(2)] show ?case by (auto simp: exec_counted_def)
next
  case (Suc n)
  then have x: "hd (sy_running sys) \<in> set (sy_running sys)" by (cases "sy_running sys") auto
  obtain s' r where "exec_settle S None (reading_at 0) (sy_service sys) (hd (sy_running sys)) (raise TimeoutError []) = (s', r)"
    by fastforce
  from exec_reach.Settle[OF Suc(3) x this] Suc(1)[of "sys\<lparr>sy_service := s',
      sy_running := remove1 (hd (sy_running sys)) (sy_running sys)\<rparr>"] Suc(2) length_remove1_in[OF x]
  show ?case by auto
qed

end
