(* ===== verification/Serving.thy ===== *)
theory Serving
  imports Composition Progress "HOL-Library.Multiset"
begin

text \<open>
  Gate serving many requests at once: the calls of the execute service, each of which is
  at one of its two waits, inside \<open>acquire\<close> of the limiter or for its worker, with the
  dispatcher and the workflow engine of the process as what they run. Between two waits
  the event loop runs one call alone, so a step is what a call does from one wait to the
  next. The pieces are those of \<open>Dispatch\<close> and \<open>Execute_Service\<close>; here is how the code
  joins them, and what follows for all calls together.
\<close>

section \<open>A workflow between its awaits\<close>

text \<open>What runs on until the next dispatch: it ends, or it has a packet to dispatch and
  something left to do with the reply. For a workflow that is the step whose reply it
  is, the steps after it, and the payload so far.\<close>

datatype ('a, 'r) turn = Ends 'a | Sends packet 'r

type_synonym wf_rest = "wf_step \<times> wf_step list \<times> payload"

fun workflow_turn ::
  "sdk \<Rightarrow> condition_language \<Rightarrow> string \<Rightarrow> packet \<Rightarrow> deadline option \<Rightarrow> pyfloat \<Rightarrow> pyfloat \<Rightarrow>
     wf_step list \<Rightarrow> payload \<Rightarrow> payload option \<Rightarrow> packet \<Rightarrow> (payload res, wf_rest) turn" where
  "workflow_turn S lang l orig dl now1 now2 [] pl response cur = Ends (Inr pl)"
| "workflow_turn S lang l orig dl now1 now2 (step # steps) pl response cur =
     (case should_execute_step lang step pl response pl of
        Inl e \<Rightarrow> Ends (Inl e)
      | Inr False \<Rightarrow> workflow_turn S lang l orig dl now1 now2 steps pl response cur
      | Inr True \<Rightarrow>
          (case rbind (step_timeout_ms (st_timeout_ms step) (timeout_ms (header cur)) dl now1 now2)
                  (\<lambda>tmo. sdk_derive S cur (step_args l orig step pl tmo)) of
             Inl e \<Rightarrow> Ends (Inl e)
           | Inr step_packet \<Rightarrow> Sends step_packet (step, steps, pl)))"

text \<open>The loop of the engine is its turns, one after the other.\<close>

lemma workflow_steps_turn:
  "workflow_steps S lang l orig dl clock disp steps pl response cur w =
     (case workflow_turn S lang l orig dl (clock 0 w) (clock 1 w) steps pl response cur of
        Ends r \<Rightarrow> (w, r)
      | Sends q (step, rest, pl) \<Rightarrow>
          (case disp w q of
             (w', Inl e) \<Rightarrow> (w', Inl e)
           | (w', Inr reply) \<Rightarrow>
               workflow_steps S lang l orig dl clock disp rest (merge_payload step pl (payload reply))
                 (Some (payload reply)) reply w'))"
  by (induction steps) (simp_all split: sum.splits bool.splits)

section \<open>A call between its awaits\<close>

text \<open>A call that dispatched its own packet has nothing left to do with the reply.\<close>

type_synonym call_turn = "(packet res, wf_rest option) turn"

definition workflow_continue ::
  "sdk \<Rightarrow> condition_language \<Rightarrow> workflow_engine \<Rightarrow> running \<Rightarrow> (nat \<Rightarrow> pyfloat) \<Rightarrow>
     wf_step list \<Rightarrow> payload \<Rightarrow> payload option \<Rightarrow> packet \<Rightarrow> call_turn" where
  "workflow_continue S lang E x clock steps pl response cur =
     (case workflow_turn S lang (we_local_node E) (run_packet x) (Some (run_deadline x)) (clock 0) (clock 1)
             steps pl response cur of
        Ends r \<Rightarrow> Ends (rbind r (workflow_response S E (run_packet x)))
      | Sends q rest \<Rightarrow> Sends q (Some rest))"

text \<open>\<open>_run\<close>: a workflow when the action names one, the dispatcher otherwise.\<close>

definition call_start ::
  "sdk \<Rightarrow> condition_language \<Rightarrow> workflow_engine \<Rightarrow> running \<Rightarrow> (nat \<Rightarrow> pyfloat) \<Rightarrow> call_turn" where
  "call_start S lang E x clock =
     (let p = run_packet x
      in if has_workflow E (action (header p))
         then (case dget (we_definitions E) (canon (action (header p))) of
                 None \<Rightarrow> Ends (raise LookupError ''no workflow defined for action'')
               | Some d \<Rightarrow> workflow_continue S lang E x clock (wd_steps d) (payload p) None p)
         else Sends p None)"

text \<open>What the call does with what its dispatch returned or raised.\<close>

definition call_resume ::
  "sdk \<Rightarrow> condition_language \<Rightarrow> workflow_engine \<Rightarrow> running \<Rightarrow> (nat \<Rightarrow> pyfloat) \<Rightarrow> wf_rest option \<Rightarrow> packet res \<Rightarrow>
     call_turn" where
  "call_resume S lang E x clock rest r =
     (case (rest, r) of
        (Some (step, steps, pl), Inr reply) \<Rightarrow>
          workflow_continue S lang E x clock steps (merge_payload step pl (payload reply))
            (Some (payload reply)) reply
      | _ \<Rightarrow> Ends r)"

section \<open>The calls of the process\<close>

text \<open>
  A call under way: what the execute service keeps of it, the dispatch it waits in, whether
  that one is at the worker, and what is left to do. \<open>sv_begun\<close> and \<open>sv_answers\<close> record
  the calls that were accepted and what the finished ones returned or raised.
\<close>

record call =
  ca_run :: running
  ca_flight :: flight
  ca_sent :: bool
  ca_todo :: "wf_rest option"

record server =
  sv_service :: exec_service
  sv_env :: gate_env
  sv_now :: int
  sv_calls :: "call list"
  sv_begun :: "running list"
  sv_answers :: "(running \<times> packet res) list"

definition call_ends ::
  "sdk \<Rightarrow> log_context \<Rightarrow> readings \<Rightarrow> running \<Rightarrow> packet res \<Rightarrow> server \<Rightarrow> server" where
  "call_ends S c t x r sv =
     (case exec_settle S c t (sv_service sv) x r of
        (s', res) \<Rightarrow> sv\<lparr>sv_service := s', sv_answers := (x, res) # sv_answers sv\<rparr>)"

text \<open>The call goes on to its next wait, or to its end when there is none.\<close>

definition goes_on ::
  "sdk \<Rightarrow> string \<Rightarrow> log_context \<Rightarrow> readings \<Rightarrow> (nat \<Rightarrow> pyfloat) \<Rightarrow> running \<Rightarrow> call_turn \<Rightarrow>
     server \<Rightarrow> server" where
  "goes_on S l c t clock x turn sv =
     (case turn of
        Ends r \<Rightarrow> call_ends S c t x r sv
      | Sends q rest \<Rightarrow>
          (case dispatch_begin S l (sv_env sv) q (Some (run_deadline x)) (clock 2) (clock 3) of
             (env, Inl e) \<Rightarrow> call_ends S c t x (Inl e) (sv\<lparr>sv_env := env\<rparr>)
           | (env, Inr fl) \<Rightarrow>
               sv\<lparr>sv_env := env,
                  sv_calls := \<lparr>ca_run = x, ca_flight = fl, ca_sent = False, ca_todo = rest\<rparr> # sv_calls sv\<rparr>))"

definition without_call :: "call \<Rightarrow> gate_env \<Rightarrow> server \<Rightarrow> server" where
  "without_call ca env sv = sv\<lparr>sv_env := env, sv_calls := remove1 ca (sv_calls sv)\<rparr>"

text \<open>
  What a call under way does next: in \<open>acquire\<close> it gets its permit and goes to the worker,
  finds the node full, or is cut short; at its worker it gets what the transport returns
  or raises, or is cut short, which the transport sees as a cancellation.
\<close>

inductive call_step ::
  "sdk \<Rightarrow> condition_language \<Rightarrow> workflow_engine \<Rightarrow> string \<Rightarrow> server \<Rightarrow> server \<Rightarrow> bool" for S lang E l where
  Permit: "ca \<in> set (sv_calls sv) \<Longrightarrow> \<not> ca_sent ca \<Longrightarrow>
    dispatch_resume (sv_env sv) (ca_flight ca) False = (env, Inr ()) \<Longrightarrow>
    call_step S lang E l sv
      (sv\<lparr>sv_env := env, sv_calls := ca\<lparr>ca_sent := True\<rparr> # remove1 ca (sv_calls sv)\<rparr>)"
| Node_full: "ca \<in> set (sv_calls sv) \<Longrightarrow> \<not> ca_sent ca \<Longrightarrow>
    dispatch_resume (sv_env sv) (ca_flight ca) False = (env, Inl e) \<Longrightarrow>
    call_step S lang E l sv (goes_on S l c t clock (ca_run ca)
      (call_resume S lang E (ca_run ca) clock (ca_todo ca) (Inl e)) (without_call ca env sv))"
| Give_up: "ca \<in> set (sv_calls sv) \<Longrightarrow> \<not> ca_sent ca \<Longrightarrow>
    dispatch_resume (sv_env sv) (ca_flight ca) True = (env, Inl e) \<Longrightarrow>
    call_step S lang E l sv
      (call_ends S c t (ca_run ca) (wait_for (Some cl) (Inl e)) (without_call ca env sv))"
| Reply: "ca \<in> set (sv_calls sv) \<Longrightarrow> ca_sent ca \<Longrightarrow>
    dispatch_settle (sv_env sv) (ca_flight ca) outcome = (env, r) \<Longrightarrow>
    call_step S lang E l sv (goes_on S l c t clock (ca_run ca)
      (call_resume S lang E (ca_run ca) clock (ca_todo ca) r) (without_call ca env sv))"
| Cut_short: "ca \<in> set (sv_calls sv) \<Longrightarrow> ca_sent ca \<Longrightarrow>
    dispatch_settle (sv_env sv) (ca_flight ca) (raise CancelledError []) = (env, r) \<Longrightarrow>
    call_step S lang E l sv
      (call_ends S c t (ca_run ca) (wait_for (Some cl) r) (without_call ca env sv))"

text \<open>
  The steps of the process: a request arrives and is answered or refused at once, or
  begins to run; a call goes on; a probe or a registration happens in between.
\<close>

inductive server_step ::
  "sdk \<Rightarrow> condition_language \<Rightarrow> workflow_engine \<Rightarrow> string \<Rightarrow> server \<Rightarrow> server \<Rightarrow> bool" for S lang E l where
  Answer: "sv_now sv \<le> at_replay t \<Longrightarrow> exec_begin S c t depth (sv_service sv) validated = (s', r) \<Longrightarrow>
    (\<And>x. r \<noteq> Inr (Running x)) \<Longrightarrow> server_step S lang E l sv (sv\<lparr>sv_service := s', sv_now := at_replay t\<rparr>)"
| Arrive: "sv_now sv \<le> at_replay t \<Longrightarrow>
    exec_begin S c t depth (sv_service sv) validated = (s', Inr (Running x)) \<Longrightarrow>
    server_step S lang E l sv (goes_on S l c t' clock x (call_start S lang E x clock)
      (sv\<lparr>sv_service := s', sv_now := at_replay t, sv_begun := x # sv_begun sv\<rparr>))"
| Go_on: "call_step S lang E l sv sv' \<Longrightarrow> server_step S lang E l sv sv'"
| Probed: "set_health (env_registry (sv_env sv)) name h = (nodes, r) \<Longrightarrow>
    server_step S lang E l sv (sv\<lparr>sv_env := (sv_env sv)\<lparr>env_registry := nodes\<rparr>\<rparr>)"
| Registered: "register_node (env_registry (sv_env sv)) name node overwrite = (nodes, r) \<Longrightarrow>
    wf_node k node \<Longrightarrow> active_requests node = 0 \<Longrightarrow>
    server_step S lang E l sv (sv\<lparr>sv_env := (sv_env sv)\<lparr>env_registry := nodes\<rparr>\<rparr>)"

inductive server_reach ::
  "sdk \<Rightarrow> condition_language \<Rightarrow> workflow_engine \<Rightarrow> string \<Rightarrow> server \<Rightarrow> bool" for S lang E l where
  Start: "exec_service_init n ttl m = Inr s \<Longrightarrow>
    server_reach S lang E l
      \<lparr>sv_service = s\<lparr>ex_rate := rate, ex_breaker := breaker, ex_load := load, ex_back := bp\<rparr>,
       sv_env = sys_env gate_start, sv_now = now, sv_calls = [], sv_begun = [], sv_answers = []\<rparr>"
| Step: "server_reach S lang E l sv \<Longrightarrow> server_step S lang E l sv sv' \<Longrightarrow> server_reach S lang E l sv'"

section \<open>The execute service sees a system of calls\<close>

definition service_view :: "running list \<Rightarrow> server \<Rightarrow> exec_system \<Rightarrow> bool" where
  "service_view xs sv sys \<longleftrightarrow> sy_service sys = sv_service sv \<and> sy_now sys = sv_now sv
     \<and> mset (sy_running sys) = mset xs + mset (map ca_run (sv_calls sv))
     \<and> map fst (sy_started sys) = map (\<lambda>x. packet_id (header (run_packet x))) (sv_begun sv)"

lemma calls_remove1:
  "ca \<in> set cs \<Longrightarrow> mset (map f cs) = add_mset (f ca) (mset (map f (remove1 ca cs)))"
  by (induction cs) auto

lemma call_ends_sel [simp]:
  "sv_env (call_ends S c t x r sv) = sv_env sv" "sv_calls (call_ends S c t x r sv) = sv_calls sv"
  "sv_begun (call_ends S c t x r sv) = sv_begun sv" "sv_now (call_ends S c t x r sv) = sv_now sv"
  "map fst (sv_answers (call_ends S c t x r sv)) = x # map fst (sv_answers sv)"
  by (simp_all add: call_ends_def split: prod.splits)

lemma without_call_sel [simp]:
  "sv_env (without_call ca env sv) = env" "sv_calls (without_call ca env sv) = remove1 ca (sv_calls sv)"
  "sv_begun (without_call ca env sv) = sv_begun sv" "sv_now (without_call ca env sv) = sv_now sv"
  "sv_answers (without_call ca env sv) = sv_answers sv" "sv_service (without_call ca env sv) = sv_service sv"
  by (simp_all add: without_call_def)

lemma service_ends:
  assumes "exec_reach S sys" and "service_view [x] sv sys"
  shows "\<exists>sys'. exec_reach S sys' \<and> service_view [] (call_ends S c t x r sv) sys'"
proof -
  have "x \<in># mset (sy_running sys)" using assms(2) by (simp add: service_view_def)
  then have x: "x \<in> set (sy_running sys)" by simp
  obtain s' res where s': "exec_settle S c t (sv_service sv) x r = (s', res)" by fastforce
  with assms(2) have "exec_settle S c t (sy_service sys) x r = (s', res)" by (simp add: service_view_def)
  from exec_reach.Settle[OF assms(1) x this] s' assms(2) show ?thesis
    by (intro exI conjI) (auto simp: service_view_def call_ends_def)
qed

lemma service_goes_on:
  assumes "exec_reach S sys" and "service_view [x] sv sys"
  shows "\<exists>sys'. exec_reach S sys' \<and> service_view [] (goes_on S l c t clock x turn sv) sys'"
proof (cases turn)
  case (Ends r)
  with service_ends[OF assms] show ?thesis by (simp add: goes_on_def)
next
  case (Sends q rest)
  obtain env b where b: "dispatch_begin S l (sv_env sv) q (Some (run_deadline x)) (clock 2) (clock 3) = (env, b)"
    by fastforce
  have v: "service_view [x] (sv\<lparr>sv_env := env\<rparr>) sys" using assms(2) by (simp add: service_view_def)
  show ?thesis
  proof (cases b)
    case (Inl e)
    with service_ends[OF assms(1) v] Sends b show ?thesis by (simp add: goes_on_def)
  next
    case (Inr fl)
    with assms Sends b show ?thesis by (intro exI[of _ sys]) (simp add: goes_on_def service_view_def)
  qed
qed

lemma service_loses_call:
  "service_view [] sv sys \<Longrightarrow> ca \<in> set (sv_calls sv) \<Longrightarrow> service_view [ca_run ca] (without_call ca env sv) sys"
  using calls_remove1[of ca "sv_calls sv" ca_run] by (simp add: service_view_def)

lemma service_call_step:
  assumes "call_step S lang E l sv sv'" and "exec_reach S sys" and "service_view [] sv sys"
  shows "\<exists>sys'. exec_reach S sys' \<and> service_view [] sv' sys'"
  using assms
proof (cases rule: call_step.cases)
  case (Permit ca env)
  with assms(2,3) calls_remove1[of ca "sv_calls sv" ca_run] show ?thesis
    by (intro exI[of _ sys]) (simp add: service_view_def)
qed (use assms(2,3) in \<open>auto intro: service_goes_on service_ends service_loses_call\<close>)

lemma service_refined:
  assumes "server_reach S lang E l sv"
  shows "\<exists>sys. exec_reach S sys \<and> service_view [] sv sys"
  using assms
proof (induction rule: server_reach.induct)
  case (Start n ttl m s bp load breaker rate now)
  from exec_reach.Start[OF Start, where S = S and rate = rate and breaker = breaker and load = load and bp = bp
      and now = now]
  show ?case by (intro exI conjI) (assumption, simp add: service_view_def)
next
  case (Step sv sv')
  from Step.IH obtain sys where sys: "exec_reach S sys" "service_view [] sv sys" by blast
  from Step.hyps(2) show ?case
  proof (cases rule: server_step.cases)
    case (Answer t c depth validated s' r)
    then have b: "exec_begin S c t depth (sy_service sys) validated = (s', r)" "sy_now sys \<le> at_replay t"
      using sys(2) by (simp_all add: service_view_def)
    from exec_reach.Begin[OF sys(1) b(2,1)] Answer sys(2) show ?thesis
      by (intro exI conjI) (auto simp: service_view_def split: sum.splits progress.splits)
  next
    case (Arrive t c depth validated s' x t' clock)
    then have b: "exec_begin S c t depth (sy_service sys) validated = (s', Inr (Running x))" "sy_now sys \<le> at_replay t"
      using sys(2) by (simp_all add: service_view_def)
    have "service_view [x] (sv\<lparr>sv_service := s', sv_now := at_replay t, sv_begun := x # sv_begun sv\<rparr>)
       (sys\<lparr>sy_service := s', sy_now := at_replay t, sy_running := x # sy_running sys,
          sy_started := (packet_id (header (run_packet x)), at_replay t) # sy_started sys\<rparr>)"
      using sys(2) by (simp add: service_view_def)
    with exec_reach.Begin[OF sys(1) b(2,1)] Arrive show ?thesis by (auto intro: service_goes_on)
  next
    case Go_on
    from service_call_step[OF this sys] show ?thesis .
  qed (use sys in \<open>auto simp: service_view_def\<close>)
qed

section \<open>The dispatcher sees a system of dispatches\<close>

definition flights :: "bool \<Rightarrow> call list \<Rightarrow> flight list" where
  "flights sent cs = map ca_flight (filter (\<lambda>ca. ca_sent ca = sent) cs)"

definition dispatch_view :: "server \<Rightarrow> gate_sys \<Rightarrow> bool" where
  "dispatch_view sv sys \<longleftrightarrow> sys_env sys = sv_env sv
     \<and> mset (sys_waiting sys) = mset (flights False (sv_calls sv))
     \<and> mset (sys_sending sys) = mset (flights True (sv_calls sv))"

lemma flights_simps [simp]:
  "flights b [] = []"
  "flights b (ca # cs) = (if ca_sent ca = b then ca_flight ca # flights b cs else flights b cs)"
  by (simp_all add: flights_def)

lemma flights_remove1:
  "ca \<in> set cs \<Longrightarrow> mset (flights b cs) =
     (if ca_sent ca = b then {#ca_flight ca#} else {#}) + mset (flights b (remove1 ca cs))"
  by (induction cs) auto

lemma dispatch_view_ends [simp]: "dispatch_view (call_ends S c t x r sv) sys \<longleftrightarrow> dispatch_view sv sys"
  by (simp add: dispatch_view_def)

lemma dispatch_goes_on:
  assumes "gate_reachable S l sys" and "dispatch_view sv sys"
  shows "\<exists>sys'. gate_reachable S l sys' \<and> dispatch_view (goes_on S l c t clock x turn sv) sys'"
proof (cases turn)
  case (Ends r)
  with assms show ?thesis by (auto simp: goes_on_def)
next
  case (Sends q rest)
  obtain env b where b: "dispatch_begin S l (sys_env sys) q (Some (run_deadline x)) (clock 2) (clock 3) = (env, b)"
    by fastforce
  have env: "sys_env sys = sv_env sv" using assms(2) by (simp add: dispatch_view_def)
  show ?thesis
  proof (cases b)
    case (Inl e)
    from gate_reachable.Step[OF assms(1) gate_step.Refused[OF b[unfolded Inl]]] Sends b Inl env assms(2)
    show ?thesis by (intro exI conjI) (assumption, simp add: goes_on_def dispatch_view_def)
  next
    case (Inr fl)
    from gate_reachable.Step[OF assms(1) gate_step.Begin[OF b[unfolded Inr]]] Sends b Inr env assms(2)
    show ?thesis by (intro exI conjI) (assumption, simp add: goes_on_def dispatch_view_def)
  qed
qed

lemma view_member:
  assumes "dispatch_view sv sys" and "ca \<in> set (sv_calls sv)"
  shows "ca_flight ca \<in> set (if ca_sent ca then sys_sending sys else sys_waiting sys)"
proof -
  have "ca_flight ca \<in> set (flights (ca_sent ca) (sv_calls sv))" using assms(2) by (auto simp: flights_def)
  then have "ca_flight ca \<in># mset (flights (ca_sent ca) (sv_calls sv))" by simp
  with assms(1) show ?thesis unfolding dispatch_view_def by (metis set_mset_mset)
qed

lemma dispatch_call_step:
  assumes "call_step S lang E l sv sv'" and "gate_reachable S l sys" and "dispatch_view sv sys"
  shows "\<exists>sys'. gate_reachable S l sys' \<and> dispatch_view sv' sys'"
proof -
  have env: "sys_env sys = sv_env sv" using assms(3) by (simp add: dispatch_view_def)
  note step = gate_reachable.Step[OF assms(2)]
  note view = dispatch_view_def flights_remove1
  from assms(1) show ?thesis
  proof (cases rule: call_step.cases)
    case (Permit ca env)
    note m = view_member[OF assms(3) Permit(2)]
    from step[OF gate_step.Resume[of "ca_flight ca" sys env]] Permit m env assms(3) show ?thesis
      by (intro exI conjI) (assumption?, auto simp: view)
  next
    case (Node_full ca env e c t clock)
    note m = view_member[OF assms(3) Node_full(2)]
    from step[OF gate_step.Full[of "ca_flight ca" sys env e]] Node_full m env
    obtain sys1 where "gate_reachable S l sys1" "sys1 = sys\<lparr>sys_env := env,
        sys_waiting := remove1 (ca_flight ca) (sys_waiting sys)\<rparr>" by auto
    moreover from this have "dispatch_view (without_call ca env sv) sys1"
      using assms(3) Node_full by (simp add: view)
    ultimately show ?thesis using Node_full(1) dispatch_goes_on by blast
  next
    case (Give_up ca env e c t cl)
    note m = view_member[OF assms(3) Give_up(2)]
    from step[OF gate_step.Cancel[of "ca_flight ca" sys env e]] Give_up m env assms(3) show ?thesis
      by (intro exI conjI) (assumption?, auto simp: view)
  next
    case (Reply ca outcome env r c t clock)
    note m = view_member[OF assms(3) Reply(2)]
    from step[OF gate_step.Settle[of "ca_flight ca" sys outcome env r]] Reply m env
    obtain sys1 where "gate_reachable S l sys1" "sys1 = sys\<lparr>sys_env := env,
        sys_sending := remove1 (ca_flight ca) (sys_sending sys)\<rparr>" by auto
    moreover from this have "dispatch_view (without_call ca env sv) sys1"
      using assms(3) Reply by (simp add: view)
    ultimately show ?thesis using Reply(1) dispatch_goes_on by blast
  next
    case (Cut_short ca env r c t cl)
    note m = view_member[OF assms(3) Cut_short(2)]
    from step[OF gate_step.Settle[of "ca_flight ca" sys _ env r]] Cut_short m env assms(3) show ?thesis
      by (intro exI conjI) (assumption?, auto simp: view)
  qed
qed

lemma dispatch_refined:
  assumes "server_reach S lang E l sv"
  shows "\<exists>sys. gate_reachable S l sys \<and> dispatch_view sv sys"
  using assms
proof (induction rule: server_reach.induct)
  case Start
  show ?case by (intro exI[of _ gate_start]) (simp add: gate_reachable.Start dispatch_view_def, simp add: gate_start_def)
next
  case (Step sv sv')
  from Step.IH obtain sys where sys: "gate_reachable S l sys" "dispatch_view sv sys" by blast
  then have env: "sys_env sys = sv_env sv" by (simp add: dispatch_view_def)
  from Step.hyps(2) show ?case
  proof (cases rule: server_step.cases)
    case (Answer t c depth validated s' r)
    with sys show ?thesis by (intro exI[of _ sys]) (simp add: dispatch_view_def)
  next
    case (Arrive t c depth validated s' x t' clock)
    with sys dispatch_goes_on show ?thesis by (simp add: dispatch_view_def)
  next
    case Go_on
    from dispatch_call_step[OF this sys] show ?thesis .
  next
    case (Probed name h nodes r)
    with gate_reachable.Step[OF sys(1) gate_step.Probe[of sys name h nodes r]] sys(2) env show ?thesis
      by (intro exI conjI) (assumption?, auto simp: dispatch_view_def)
  next
    case (Registered name node overwrite nodes r k)
    with gate_reachable.Step[OF sys(1) gate_step.Register[of sys name node overwrite nodes r k]] sys(2) env
    show ?thesis by (intro exI conjI) (assumption?, auto simp: dispatch_view_def)
  qed
qed

section \<open>The load is the requests\<close>

lemma going_to_mset: "mset fls = mset fls' \<Longrightarrow> going_to k fls = going_to k fls'"
  unfolding going_to_def by (metis mset_filter size_mset)

lemma going_to_total:
  assumes "distinct ks"
  shows "(\<Sum>k\<leftarrow>ks. going_to k fls) \<le> int (length fls)"
proof (induction fls)
  case Nil
  show ?case by (induction ks) (simp_all add: going_to_def)
next
  case (Cons fl fls)
  have none: "(\<Sum>k\<leftarrow>ks. if x = k then 1 else 0 :: int) = 0" if "x \<notin> set ks" for x and ks :: "string list"
    using that by (induction ks) auto
  have "(\<Sum>k\<leftarrow>ks. if node_name (fl_target fl) = k then 1 else 0 :: int) \<le> 1"
    using assms by (induction ks) (auto simp: none)
  with Cons show ?case by (simp add: going_to_Cons sum_list_addf)
qed

lemma load_bounded:
  assumes "load_account nodes fls re" and "dwf nodes"
  shows "(\<Sum>(k, r)\<leftarrow>nodes. active_requests r) \<le> int (length fls)"
proof -
  have "active_requests r \<le> going_to k fls" if "(k, r) \<in> set nodes" for k r
    using assms that by (auto simp: load_account_def dwf_def)
  then have "(\<Sum>(k, r)\<leftarrow>nodes. active_requests r) \<le> (\<Sum>(k, r)\<leftarrow>nodes. going_to k fls)"
    by (intro sum_list_mono) auto
  also have "\<dots> = (\<Sum>k\<leftarrow>dkeys nodes. going_to k fls)"
    by (simp add: case_prod_beta' comp_def)
  also have "\<dots> \<le> int (length fls)" using assms(2) by (intro going_to_total) (simp add: dwf_def)
  finally show ?thesis .
qed

lemma length_flights: "length (flights True cs) + length (flights False cs) = length cs"
  by (induction cs) auto

text \<open>What the two views say of the state of the process.\<close>

lemma server_accounts:
  assumes "server_reach S lang E l sv"
  shows "ex_in_flight (sv_service sv) = int (length (sv_calls sv))"
    and "m_in_flight (ex_metrics (sv_service sv)) = int (length (sv_calls sv))"
    and "sv_calls sv = [] \<or> int (length (sv_calls sv)) \<le> max_in_flight (ex_load (sv_service sv))"
    and "1 \<le> max_attempts (ex_retry (sv_service sv))"
    and "registry_wf (env_registry (sv_env sv))"
    and "\<exists>re. load_account (env_registry (sv_env sv)) (flights True (sv_calls sv)) re"
    and "\<exists>lims lost. env_limits (sv_env sv) = Some lims
      \<and> (\<forall>k. held lims k = going_to k (map ca_flight (sv_calls sv)) + lost_at k lost)"
    and "known_targets (env_registry (sv_env sv)) (map ca_flight (sv_calls sv))"
proof -
  obtain sys where sys: "exec_reach S sys" "service_view [] sv sys" using service_refined[OF assms] by blast
  from sys(2) have "mset (sy_running sys) = mset (map ca_run (sv_calls sv))" by (simp add: service_view_def)
  from mset_eq_length[OF this] have n: "length (sy_running sys) = length (sv_calls sv)" by simp
  from exec_counted_reach[OF sys(1)] n sys(2) show
    "ex_in_flight (sv_service sv) = int (length (sv_calls sv))"
    "m_in_flight (ex_metrics (sv_service sv)) = int (length (sv_calls sv))"
    "sv_calls sv = [] \<or> int (length (sv_calls sv)) \<le> max_in_flight (ex_load (sv_service sv))"
    "1 \<le> max_attempts (ex_retry (sv_service sv))"
    by (auto simp: exec_counted_def service_view_def)
next
  obtain sys where sys: "gate_reachable S l sys" "dispatch_view sv sys" using dispatch_refined[OF assms] by blast
  have acc: "accounted sys" using sys(1) by (rule accounted_reachable)
  have env: "sys_env sys = sv_env sv" using sys(2) by (simp add: dispatch_view_def)
  have same: "going_to k (sys_sending sys) = going_to k (flights True (sv_calls sv))"
    "going_to k (sys_waiting sys) = going_to k (flights False (sv_calls sv))" for k
    using sys(2) by (auto simp: dispatch_view_def intro: going_to_mset)
  have all: "going_to k (map ca_flight cs) = going_to k (flights False cs) + going_to k (flights True cs)" for k cs
    by (induction cs) (simp_all add: going_to_Cons, simp add: going_to_def)
  from acc env show "registry_wf (env_registry (sv_env sv))" by (simp add: accounted_def)
  from acc env same(1) show "\<exists>re. load_account (env_registry (sv_env sv)) (flights True (sv_calls sv)) re"
    by (auto simp: accounted_def load_account_def)
  from acc env same all show "\<exists>lims lost. env_limits (sv_env sv) = Some lims
      \<and> (\<forall>k. held lims k = going_to k (map ca_flight (sv_calls sv)) + lost_at k lost)"
    by (fastforce simp: accounted_def limits_account_def)
  have "ca_flight ca \<in> set (sys_waiting sys @ sys_sending sys)" if "ca \<in> set (sv_calls sv)" for ca
    using view_member[OF sys(2) that] by (cases "ca_sent ca") simp_all
  then have sub: "set (map ca_flight (sv_calls sv)) \<subseteq> set (sys_waiting sys @ sys_sending sys)" by auto
  from acc env have "known_targets (env_registry (sv_env sv)) (sys_waiting sys @ sys_sending sys)"
    by (simp add: accounted_def)
  from known_targets_mono[OF this sub]
  show "known_targets (env_registry (sv_env sv)) (map ca_flight (sv_calls sv))" .
qed

definition requests_at :: "string \<Rightarrow> server \<Rightarrow> int" where
  "requests_at k sv =
     int (length (filter (\<lambda>ca. ca_sent ca \<and> node_name (fl_target (ca_flight ca)) = k) (sv_calls sv)))"

lemma requests_at_going: "requests_at k sv = going_to k (flights True (sv_calls sv))"
  by (simp add: requests_at_def going_to_def flights_def filter_map comp_def conj_commute)

text \<open>
  C4. The counters of the process agree with each other, whatever requests arrive, go on,
  fail, time out and are cancelled in whatever order, with workflows and single
  dispatches side by side. The in-flight counter and gauge of the execute service count
  the calls under way, within the limit of load shedding; a node's load counts requests that are with
  that node, all loads together are at most the calls in flight; and the limiter holds a
  permit for every call that is on its way to a node.
\<close>

theorem load_is_the_requests:
  assumes "server_reach S lang E l sv"
  shows "ex_in_flight (sv_service sv) = int (length (sv_calls sv))
    \<and> m_in_flight (ex_metrics (sv_service sv)) = int (length (sv_calls sv))
    \<and> (sv_calls sv = [] \<or> int (length (sv_calls sv)) \<le> max_in_flight (ex_load (sv_service sv)))
    \<and> (\<forall>k r. dget (env_registry (sv_env sv)) k = Some r \<longrightarrow>
         0 \<le> active_requests r \<and> active_requests r \<le> requests_at k sv)
    \<and> (\<Sum>(k, r)\<leftarrow>env_registry (sv_env sv). active_requests r) \<le> ex_in_flight (sv_service sv)
    \<and> (\<exists>lims. env_limits (sv_env sv) = Some lims
         \<and> (\<forall>k. going_to k (map ca_flight (sv_calls sv)) \<le> held lims k))"
proof -
  note acc = server_accounts[OF assms]
  from acc(6) obtain re where re: "load_account (env_registry (sv_env sv)) (flights True (sv_calls sv)) re" ..
  have "0 \<le> active_requests r \<and> active_requests r \<le> requests_at k sv"
    if "dget (env_registry (sv_env sv)) k = Some r" for k r
    using re registry_wf_get[OF acc(5) that] that
    by (auto simp: load_account_def requests_at_going wf_node_def)
  moreover have "(\<Sum>(k, r)\<leftarrow>env_registry (sv_env sv). active_requests r) \<le> ex_in_flight (sv_service sv)"
    using load_bounded[OF re] acc(1,5) length_flights[of "sv_calls sv"] by (simp add: registry_wf_def)
  moreover have "\<exists>lims. env_limits (sv_env sv) = Some lims
      \<and> (\<forall>k. going_to k (map ca_flight (sv_calls sv)) \<le> held lims k)"
    using acc(7) by auto
  ultimately show ?thesis using acc(1-3) by blast
qed

section \<open>Every accepted request is answered once\<close>

definition conserved :: "running list \<Rightarrow> server \<Rightarrow> bool" where
  "conserved xs sv \<longleftrightarrow>
     mset (sv_begun sv) = mset (map fst (sv_answers sv)) + mset (map ca_run (sv_calls sv)) + mset xs"

lemma conserved_ends: "conserved [x] sv \<Longrightarrow> conserved [] (call_ends S c t x r sv)"
  by (simp only: conserved_def call_ends_sel) simp

lemma conserved_goes_on:
  assumes "conserved [x] sv"
  shows "conserved [] (goes_on S l c t clock x turn sv)"
proof (cases turn)
  case (Ends r)
  with assms show ?thesis by (simp add: goes_on_def conserved_ends)
next
  case (Sends q rest)
  have "conserved [x] (sv\<lparr>sv_env := env\<rparr>)" for env using assms by (simp add: conserved_def)
  with Sends assms show ?thesis
    by (auto simp: goes_on_def conserved_ends split: prod.splits sum.splits) (simp add: conserved_def)
qed

lemma conserved_without:
  "conserved [] sv \<Longrightarrow> ca \<in> set (sv_calls sv) \<Longrightarrow> conserved [ca_run ca] (without_call ca env sv)"
  using calls_remove1[of ca "sv_calls sv" ca_run] by (simp add: conserved_def)

lemma goes_on_begun [simp]: "sv_begun (goes_on S l c t clock x turn sv) = sv_begun sv"
  by (simp add: goes_on_def split: turn.splits prod.splits sum.splits)

lemma call_step_conserves:
  assumes "call_step S lang E l sv sv'" and "conserved [] sv"
  shows "conserved [] sv' \<and> sv_begun sv' = sv_begun sv"
  using assms(1)
proof (cases rule: call_step.cases)
  case (Permit ca env)
  with assms(2) calls_remove1[of ca "sv_calls sv" ca_run] show ?thesis by (simp add: conserved_def)
qed (use assms(2) in \<open>simp_all add: conserved_goes_on conserved_ends conserved_without\<close>)

lemma server_conserves:
  assumes "server_reach S lang E l sv"
  shows "conserved [] sv"
  using assms
proof (induction rule: server_reach.induct)
  case Start
  show ?case by (simp add: conserved_def)
next
  case (Step sv sv')
  from Step.hyps(2) show ?case
  proof (cases rule: server_step.cases)
    case (Arrive t c depth validated s' x t' clock)
    from Step.IH have "conserved [x] (sv\<lparr>sv_service := s', sv_now := at_replay t, sv_begun := x # sv_begun sv\<rparr>)"
      by (simp add: conserved_def)
    with Arrive(1) show ?thesis by (simp add: conserved_goes_on)
  next
    case Go_on
    from call_step_conserves[OF this Step.IH] show ?thesis by simp
  qed (use Step.IH in \<open>simp_all add: conserved_def\<close>)
qed

text \<open>How many steps a call has to go: two for a dispatch, and two for each step of its
  workflow that is left.\<close>

definition call_to_go :: "call \<Rightarrow> nat" where
  "call_to_go ca = (if ca_sent ca then 1 else 2)
     + 2 * (case ca_todo ca of None \<Rightarrow> 0 | Some (step, steps, pl) \<Rightarrow> length steps)"

definition calls_to_go :: "server \<Rightarrow> nat" where
  "calls_to_go sv = (\<Sum>ca\<leftarrow>sv_calls sv. call_to_go ca)"

lemma workflow_turn_sends:
  "workflow_turn S lang l orig dl now1 now2 steps pl response cur = Sends q (step, rest, pl') \<Longrightarrow>
     \<exists>before. steps = before @ step # rest
       \<and> rbind (step_timeout_ms (st_timeout_ms step) (timeout_ms (header cur)) dl now1 now2)
           (\<lambda>tmo. sdk_derive S cur (step_args l orig step pl' tmo)) = Inr q"
proof (induction steps)
  case (Cons x steps)
  from Cons.prems consider "workflow_turn S lang l orig dl now1 now2 steps pl response cur = Sends q (step, rest, pl')"
    | "x = step" "steps = rest" "pl = pl'"
      "rbind (step_timeout_ms (st_timeout_ms step) (timeout_ms (header cur)) dl now1 now2)
         (\<lambda>tmo. sdk_derive S cur (step_args l orig step pl' tmo)) = Inr q"
    by (auto split: sum.splits bool.splits)
  then show ?case
  proof cases
    case 1
    from Cons.IH[OF this] show ?thesis by (metis append_Cons)
  qed auto
qed simp

lemma goes_on_to_go:
  assumes "\<And>q rest. turn = Sends q rest \<Longrightarrow>
    2 + 2 * (case rest of None \<Rightarrow> 0 | Some (step, steps, pl) \<Rightarrow> length steps) \<le> n"
  shows "calls_to_go (goes_on S l c t clock x turn sv) \<le> n + calls_to_go sv"
  using assms
  by (auto simp: goes_on_def calls_to_go_def call_to_go_def split: turn.splits prod.splits sum.splits)

lemma without_call_to_go:
  "ca \<in> set (sv_calls sv) \<Longrightarrow> calls_to_go sv = call_to_go ca + calls_to_go (without_call ca env sv)"
  by (simp add: calls_to_go_def sum_list_map_remove1)

lemma call_resume_shorter:
  "call_resume S lang E x clock rest r = Sends q rest' \<Longrightarrow>
     2 + 2 * (case rest' of None \<Rightarrow> 0 | Some (step, steps, pl) \<Rightarrow> length steps)
       \<le> 2 * (case rest of None \<Rightarrow> 0 | Some (step, steps, pl) \<Rightarrow> length steps)"
  by (auto simp: call_resume_def workflow_continue_def dest!: workflow_turn_sends
      split: option.splits sum.splits turn.splits)

lemma call_step_counts:
  assumes "call_step S lang E l sv sv'"
  shows "Suc (calls_to_go sv') \<le> calls_to_go sv"
  using assms
proof (cases rule: call_step.cases)
  case (Permit ca env)
  with without_call_to_go[OF Permit(2), of env] show ?thesis by (simp add: calls_to_go_def call_to_go_def)
next
  case (Node_full ca env e c t clock)
  then have "sv' = call_ends S c t (ca_run ca) (Inl e) (without_call ca env sv)"
    by (simp add: goes_on_def call_resume_def split: option.splits)
  with without_call_to_go[OF Node_full(2), of env] show ?thesis by (simp add: calls_to_go_def call_to_go_def)
next
  case (Give_up ca env e c t cl)
  with without_call_to_go[OF Give_up(2), of env] show ?thesis by (simp add: calls_to_go_def call_to_go_def)
next
  case (Reply ca outcome env r c t clock)
  have "calls_to_go sv' \<le> 2 * (case ca_todo ca of None \<Rightarrow> 0 | Some (step, steps, pl) \<Rightarrow> length steps)
      + calls_to_go (without_call ca env sv)"
    unfolding Reply(1) by (rule goes_on_to_go) (rule call_resume_shorter)
  with without_call_to_go[OF Reply(2), of env] Reply(3) show ?thesis by (simp add: call_to_go_def)
next
  case (Cut_short ca env r c t cl)
  with without_call_to_go[OF Cut_short(2), of env] show ?thesis by (simp add: calls_to_go_def call_to_go_def)
qed

lemma call_step_enabled:
  assumes "sv_calls sv \<noteq> []"
  shows "\<exists>sv'. call_step S lang E l sv sv'"
proof -
  let ?ca = "hd (sv_calls sv)"
  have ca: "?ca \<in> set (sv_calls sv)" using assms by simp
  obtain env r where r: "dispatch_resume (sv_env sv) (ca_flight ?ca) False = (env, r)" by fastforce
  obtain env' r' where r': "dispatch_settle (sv_env sv) (ca_flight ?ca) (raise CancelledError []) = (env', r')" by fastforce
  show ?thesis
  proof (cases "ca_sent ?ca")
    case True
    from call_step.Cut_short[OF ca True r'] show ?thesis by blast
  next
    case False
    show ?thesis
    proof (cases r)
      case (Inl e)
      from call_step.Node_full[OF ca False r[unfolded Inl]] show ?thesis by blast
    next
      case (Inr u)
      then have "dispatch_resume (sv_env sv) (ca_flight ?ca) False = (env, Inr ())" using r by simp
      from call_step.Permit[OF ca False this] show ?thesis by blast
    qed
  qed
qed

lemma call_steps:
  "(call_step S lang E l ^^ n) sv sv' \<Longrightarrow> server_reach S lang E l sv \<Longrightarrow>
     server_reach S lang E l sv' \<and> n + calls_to_go sv' \<le> calls_to_go sv \<and> sv_begun sv' = sv_begun sv"
proof (induction n arbitrary: sv')
  case (Suc n)
  then obtain sv1 where "(call_step S lang E l ^^ n) sv sv1" and last: "call_step S lang E l sv1 sv'" by auto
  with Suc have ih: "server_reach S lang E l sv1" "n + calls_to_go sv1 \<le> calls_to_go sv" "sv_begun sv1 = sv_begun sv"
    by blast+
  from call_step_conserves[OF last server_conserves[OF ih(1)]] call_step_counts[OF last] ih
    server_reach.Step[OF ih(1) server_step.Go_on[OF last]]
  show ?case by simp
qed simp

text \<open>
  C6. Every request that Gate accepts is answered exactly once. From every reachable state,
  however the calls under way go on and in whatever order, after at most two steps for
  each dispatch that is still to come none is under way; until then one of them can go
  on; each accepted request has been answered once or is under way; and when none is,
  the in-flight counter and every load are zero and each accepted request has its
  answer.
\<close>

theorem requests_are_answered_once:
  assumes "server_reach S lang E l sv" and "(call_step S lang E l ^^ n) sv sv'"
  shows "n \<le> calls_to_go sv \<and> sv_begun sv' = sv_begun sv
    \<and> mset (sv_begun sv') = mset (map fst (sv_answers sv')) + mset (map ca_run (sv_calls sv'))
    \<and> ((\<exists>sv''. call_step S lang E l sv' sv'')
       \<or> sv_calls sv' = [] \<and> ex_in_flight (sv_service sv') = 0
         \<and> mset (map fst (sv_answers sv')) = mset (sv_begun sv)
         \<and> (\<forall>k r. dget (env_registry (sv_env sv')) k = Some r \<longrightarrow> active_requests r = 0))"
proof -
  from call_steps[OF assms(2,1)] have reach: "server_reach S lang E l sv'" and n: "n \<le> calls_to_go sv"
    and b: "sv_begun sv' = sv_begun sv" by auto
  have c: "mset (sv_begun sv') = mset (map fst (sv_answers sv')) + mset (map ca_run (sv_calls sv'))"
    using server_conserves[OF reach] by (simp add: conserved_def)
  show ?thesis
  proof (cases "sv_calls sv' = []")
    case True
    note acc = server_accounts[OF reach]
    have "active_requests r = 0" if "dget (env_registry (sv_env sv')) k = Some r" for k r
      using acc(6) registry_wf_get[OF acc(5) that] that True
      by (fastforce simp: load_account_def wf_node_def going_to_def)
    with True n b c acc(1) show ?thesis by simp
  next
    case False
    from call_step_enabled[OF False] n b c show ?thesis by blast
  qed
qed

section \<open>What is in flight was asked for\<close>

text \<open>The engine's definitions are those of the configuration, under their canonical names.\<close>

definition engine_ok :: "workflow_engine \<Rightarrow> string \<Rightarrow> bool" where
  "engine_ok E l \<longleftrightarrow> canon l = l \<and> l \<noteq> [] \<and> we_local_node E = l
     \<and> (\<forall>a d. dget (we_definitions E) a = Some d \<longrightarrow> list_all (\<lambda>st. st_action st \<noteq> []) (wd_steps d))"

lemma engine_ok_init:
  assumes "get_settings loads as_float getenv = Inr s" and "workflow_engine_init defs (gs_local_node s) reg = Inr E"
    and "\<forall>d \<in> snd ` set defs. \<exists>raw. workflow_definition raw = Inr d"
  shows "engine_ok E (gs_local_node s)"
proof -
  note l = settings_local_node[OF assms(1)]
  have E: "we_definitions E = canonical_definitions [] defs" "we_local_node E = gs_local_node s"
    using assms(2) l by (auto simp: workflow_engine_init_def rbind_Inr_iff Let_def)
  have "list_all (\<lambda>st. st_action st \<noteq> []) (wd_steps d)" if "dget (we_definitions E) a = Some d" for a d
    using canonical_definitions_values[of "[]" defs a d] that E(1) assms(3) workflow_definition_actions by fastforce
  with E l show ?thesis by (simp add: engine_ok_def)
qed

text \<open>The steps that are left to a call belong to the workflow of its action.\<close>

definition left_to_do :: "workflow_engine \<Rightarrow> packet \<Rightarrow> wf_step list \<Rightarrow> bool" where
  "left_to_do E p steps \<longleftrightarrow> has_workflow E (action (header p))
     \<and> (\<exists>d. dget (we_definitions E) (canon (action (header p))) = Some d \<and> set steps \<subseteq> set (wd_steps d))"

definition call_ok :: "workflow_engine \<Rightarrow> string \<Rightarrow> call \<Rightarrow> bool" where
  "call_ok E l ca \<longleftrightarrow> gate_authored l (fl_packet (ca_flight ca))
     \<and> destination_node (address (fl_packet (ca_flight ca))) = node_name (fl_target (ca_flight ca))
     \<and> on_behalf_of E l (run_packet (ca_run ca)) (ca_flight ca)
     \<and> (case ca_todo ca of None \<Rightarrow> True | Some (step, steps, pl) \<Rightarrow> left_to_do E (run_packet (ca_run ca)) steps)"

lemma call_ok_sent [simp]: "call_ok E l (ca\<lparr>ca_sent := b\<rparr>) \<longleftrightarrow> call_ok E l ca"
  by (simp add: call_ok_def split: option.splits)

definition turn_ok :: "workflow_engine \<Rightarrow> string \<Rightarrow> running \<Rightarrow> call_turn \<Rightarrow> bool" where
  "turn_ok E l x turn \<longleftrightarrow>
     (case turn of
        Ends r \<Rightarrow> True
      | Sends q None \<Rightarrow> q = run_packet x \<and> \<not> has_workflow E (action (header (run_packet x)))
      | Sends q (Some (step, steps, pl)) \<Rightarrow>
          left_to_do E (run_packet x) (step # steps) \<and> action (header q) = st_action step
          \<and> source_node (address q) = l)"

lemma continue_ok:
  assumes "derives_ok S" and "engine_ok E l" and "left_to_do E (run_packet x) steps"
  shows "turn_ok E l x (workflow_continue S lang E x clock steps pl response cur)"
proof (cases "workflow_turn S lang (we_local_node E) (run_packet x) (Some (run_deadline x)) (clock 0) (clock 1)
    steps pl response cur")
  case (Ends r)
  then show ?thesis by (simp add: workflow_continue_def turn_ok_def)
next
  case (Sends q more)
  obtain step rest pl' where more: "more = (step, rest, pl')" by (cases more)
  from workflow_turn_sends[OF Sends[unfolded more]] obtain before where steps: "steps = before @ step # rest"
    and q: "rbind (step_timeout_ms (st_timeout_ms step) (timeout_ms (header cur)) (Some (run_deadline x)) (clock 0) (clock 1))
      (\<lambda>tmo. sdk_derive S cur (step_args (we_local_node E) (run_packet x) step pl' tmo)) = Inr q" by blast
  have "st_action step \<noteq> []"
    using assms(2,3) steps by (fastforce simp: engine_ok_def left_to_do_def list_all_iff)
  from step_packet_request[OF assms(1) _ this q] assms(2)
  have "source_node (address q) = l" "action (header q) = st_action step"
    by (simp_all add: engine_ok_def step_request_def)
  with Sends more assms(3) steps show ?thesis
    by (auto simp: workflow_continue_def turn_ok_def left_to_do_def)
qed

lemma start_ok:
  assumes "derives_ok S" and "engine_ok E l"
  shows "turn_ok E l x (call_start S lang E x clock)"
proof (cases "has_workflow E (action (header (run_packet x)))")
  case True
  show ?thesis
  proof (cases "dget (we_definitions E) (canon (action (header (run_packet x))))")
    case None
    with True show ?thesis by (simp add: call_start_def turn_ok_def)
  next
    case (Some d)
    with True have "left_to_do E (run_packet x) (wd_steps d)" by (simp add: left_to_do_def)
    from continue_ok[OF assms this] True Some show ?thesis by (simp add: call_start_def Let_def)
  qed
qed (simp add: call_start_def turn_ok_def Let_def)

lemma resume_ok:
  assumes "derives_ok S" and "engine_ok E l" and "call_ok E l ca"
  shows "turn_ok E l (ca_run ca) (call_resume S lang E (ca_run ca) clock (ca_todo ca) r)"
proof (cases "\<exists>step steps pl reply. ca_todo ca = Some (step, steps, pl) \<and> r = Inr reply")
  case True
  then obtain step steps pl reply where t: "ca_todo ca = Some (step, steps, pl)" "r = Inr reply" by blast
  with assms(3) have "left_to_do E (run_packet (ca_run ca)) steps" by (simp add: call_ok_def)
  from continue_ok[OF assms(1,2) this] t show ?thesis by (simp add: call_resume_def)
next
  case False
  then have "call_resume S lang E (ca_run ca) clock (ca_todo ca) r = Ends r"
    by (auto simp: call_resume_def split: option.splits sum.splits)
  then show ?thesis by (simp add: turn_ok_def)
qed

lemma goes_on_ok:
  assumes S: "derives_ok S" "hops_ok S" and E: "engine_ok E l" and t: "turn_ok E l x turn"
    and wf: "registry_wf (env_registry (sv_env sv))" and calls: "list_all (call_ok E l) (sv_calls sv)"
  shows "list_all (call_ok E l) (sv_calls (goes_on S l c ti clock x turn sv))"
proof (cases turn)
  case (Ends r)
  with calls show ?thesis by (simp add: goes_on_def)
next
  case (Sends q rest)
  obtain env b where b: "dispatch_begin S l (sv_env sv) q (Some (run_deadline x)) (clock 2) (clock 3) = (env, b)"
    by fastforce
  show ?thesis
  proof (cases b)
    case (Inl e)
    with Sends b calls show ?thesis by (simp add: goes_on_def)
  next
    case (Inr fl)
    have l: "canon l = l" "l \<noteq> []" using E by (simp_all add: engine_ok_def)
    from dispatch_begin_Inr[OF b[unfolded Inr]]
    have "dispatch_prepare S l (env_registry (sv_env sv)) q (Some (run_deadline x)) (clock 2) (clock 3) = Inr fl" by simp
    from prepared_packet[OF S l wf this]
    have fl: "gate_authored l (fl_packet fl)" "action (header (fl_packet fl)) = action (header q)"
      "payload (fl_packet fl) = payload q" "tenant (fl_packet fl) = tenant q"
      "original_source_node (provenance (fl_packet fl)) = Some (source_node (address q))"
      and target: "dget (env_registry (sv_env sv)) (destination_node (address (fl_packet fl))) = Some (fl_target fl)"
      by simp_all
    from registry_wf_get[OF wf target]
    have "node_name (fl_target fl) = destination_node (address (fl_packet fl))" by (simp add: wf_node_def)
    with fl t Sends have "call_ok E l \<lparr>ca_run = x, ca_flight = fl, ca_sent = False, ca_todo = rest\<rparr>"
      by (auto simp: call_ok_def turn_ok_def on_behalf_of_def left_to_do_def split: option.splits)
    with Sends b Inr calls show ?thesis by (simp add: goes_on_def)
  qed
qed

lemma calls_ok_without: "list_all P cs \<Longrightarrow> list_all P (remove1 x cs)"
  using set_remove1_subset[of x cs] by (auto simp: list_all_iff)

lemma settled_wf:
  assumes "server_reach S lang E l sv" and "ca \<in> set (sv_calls sv)" and "ca_sent ca"
    and "dispatch_settle (sv_env sv) (ca_flight ca) outcome = (env, r)"
  shows "registry_wf (env_registry env)"
proof -
  obtain sys where sys: "gate_reachable S l sys" "dispatch_view sv sys" using dispatch_refined[OF assms(1)] by blast
  from view_member[OF sys(2) assms(2)] assms(3,4) sys(2)
  have "ca_flight ca \<in> set (sys_sending sys)" "dispatch_settle (sys_env sys) (ca_flight ca) outcome = (env, r)"
    by (simp_all add: dispatch_view_def)
  from accounted_reachable[OF gate_reachable.Step[OF sys(1) gate_step.Settle[OF this]]]
  show ?thesis by (simp add: accounted_def)
qed

lemma calls_ok_reach:
  assumes S: "derives_ok S" "hops_ok S" and E: "engine_ok E l" and "server_reach S lang E l sv"
  shows "list_all (call_ok E l) (sv_calls sv)"
  using assms(4)
proof (induction rule: server_reach.induct)
  case Start
  show ?case by simp
next
  case (Step sv sv')
  note ok = Step.IH and reach = Step.hyps(1)
  from Step.hyps(2) show ?case
  proof (cases rule: server_step.cases)
    case (Arrive t c depth validated s' x t' clock)
    with goes_on_ok[OF S E start_ok[OF S(1) E], of "sv\<lparr>sv_service := s', sv_now := at_replay t,
        sv_begun := x # sv_begun sv\<rparr>"] server_accounts(5)[OF reach] ok
    show ?thesis by simp
  next
    case Go_on
    then show ?thesis
    proof (cases rule: call_step.cases)
      case (Permit ca env)
      from ok Permit(2) have "call_ok E l ca" by (simp add: list_all_iff)
      with Permit(1) ok show ?thesis by (simp add: calls_ok_without)
    next
      case (Node_full ca env e c t clock)
      with ok show ?thesis
        by (simp add: goes_on_def call_resume_def calls_ok_without split: option.splits)
    next
      case (Reply ca outcome env r c t clock)
      from ok Reply(2) have "call_ok E l ca" by (simp add: list_all_iff)
      from goes_on_ok[OF S E resume_ok[OF S(1) E this], of "without_call ca env sv"] settled_wf[OF reach Reply(2-4)]
        ok Reply(1)
      show ?thesis by (simp add: calls_ok_without)
    qed (use ok in \<open>simp_all add: calls_ok_without\<close>)
  qed (use ok in simp_all)
qed

text \<open>
  C5. While any number of requests run, whatever else happens, each dispatch under way was
  asked for: it belongs to a request that was accepted and is not answered yet, its packet is
  authored by this Gate for a node that is registered, and it is either that request's own
  action, payload and tenant for its caller, or a step of the workflow its action names.
\<close>

theorem flights_have_their_request:
  assumes S: "derives_ok S" "hops_ok S" and s: "get_settings loads as_float getenv = Inr s"
    and init: "workflow_engine_init defs (gs_local_node s) reg = Inr E"
    and valid: "\<forall>d \<in> snd ` set defs. \<exists>raw. workflow_definition raw = Inr d"
    and reach: "server_reach S lang E (gs_local_node s) sv" and ca: "ca \<in> set (sv_calls sv)"
  shows "from_gate (gs_local_node s) (env_registry (sv_env sv)) (ca_flight ca)
    \<and> on_behalf_of E (gs_local_node s) (run_packet (ca_run ca)) (ca_flight ca)
    \<and> ca_run ca \<in> set (sv_begun sv)"
proof -
  from calls_ok_reach[OF S engine_ok_init[OF s init valid] reach] ca
  have ok: "call_ok E (gs_local_node s) ca" by (simp add: list_all_iff)
  have "dhas (env_registry (sv_env sv)) (node_name (fl_target (ca_flight ca)))"
    using server_accounts(8)[OF reach] ca by (simp add: known_targets_def)
  with ok have "from_gate (gs_local_node s) (env_registry (sv_env sv)) (ca_flight ca)"
    by (auto simp: call_ok_def from_gate_def dhas_def dest: dget_dkeys)
  moreover have "ca_run ca \<in># mset (sv_begun sv)"
    using server_conserves[OF reach] ca by (simp add: conserved_def)
  ultimately show ?thesis using ok by (simp add: call_ok_def)
qed

section \<open>A call that runs alone\<close>

lemma gate_dispatch_now: "gate_dispatch S l send w q dl = (w', r) \<Longrightarrow> gw_now w' = gw_now w"
  by (auto simp: gate_dispatch_def split: prod.splits sum.splits)

lemma call_resume_error [simp]: "call_resume S lang E x clock rest (Inl e) = Ends (Inl e)"
  by (simp add: call_resume_def split: option.splits)

text \<open>With nothing in between, the steps of a call do what the dispatch does in one go.\<close>

lemma alone_dispatch:
  assumes d: "gate_dispatch S l send w q (Some (run_deadline x)) = (w', r)"
    and w: "sv_env sv = gw_env w" "clock = (\<lambda>_. gw_now w)"
  shows "(call_step S lang E l)\<^sup>*\<^sup>* (goes_on S l c t clock x (Sends q rest) sv)
    (goes_on S l c t clock x (call_resume S lang E x clock rest r) (sv\<lparr>sv_env := gw_env w'\<rparr>))"
proof -
  obtain env1 b where b: "dispatch_begin S l (gw_env w) q (Some (run_deadline x)) (gw_now w) (gw_now w) = (env1, b)"
    by fastforce
  show ?thesis
  proof (cases b)
    case (Inl e)
    with b d w show ?thesis by (auto simp: gate_dispatch_def goes_on_def)
  next
    case (Inr fl)
    let ?ca = "\<lparr>ca_run = x, ca_flight = fl, ca_sent = False, ca_todo = rest\<rparr>"
    let ?sv = "sv\<lparr>sv_env := env1, sv_calls := ?ca # sv_calls sv\<rparr>"
    have start: "goes_on S l c t clock x (Sends q rest) sv = ?sv" using b Inr w by (simp add: goes_on_def)
    obtain env2 i where i: "dispatch_resume env1 fl False = (env2, i)" by fastforce
    show ?thesis
    proof (cases i)
      case (Inl e)
      with d b Inr i have r: "r = Inl e" "gw_env w' = env2" by (auto simp: gate_dispatch_def)
      have "call_step S lang E l ?sv (goes_on S l c t clock x (call_resume S lang E x clock rest (Inl e))
          (without_call ?ca env2 ?sv))"
        using call_step.Node_full[of ?ca ?sv env2 e S lang E l c t clock] i Inl by simp
      moreover have "without_call ?ca env2 ?sv = sv\<lparr>sv_env := env2\<rparr>" by (simp add: without_call_def)
      ultimately show ?thesis using start r by auto
    next
      case i': (Inr u)
      let ?cb = "?ca\<lparr>ca_sent := True\<rparr>"
      let ?sv2 = "sv\<lparr>sv_env := env2, sv_calls := ?cb # sv_calls sv\<rparr>"
      let ?out = "send (fl_packet fl) (node_name (fl_target fl)) (internal_url (fl_target fl))"
      have permit: "call_step S lang E l ?sv ?sv2"
        using call_step.Permit[of ?ca ?sv env2 S lang E l] i i' by simp
      obtain env3 y where s: "dispatch_settle env2 fl ?out = (env3, y)" by fastforce
      with d b Inr i i' have r: "r = y" "gw_env w' = env3" by (auto simp: gate_dispatch_def)
      have "call_step S lang E l ?sv2 (goes_on S l c t clock x (call_resume S lang E x clock rest y)
          (without_call ?cb env3 ?sv2))"
        using call_step.Reply[of ?cb ?sv2 ?out env3 y S lang E l c t clock] s by simp
      moreover have "without_call ?cb env3 ?sv2 = sv\<lparr>sv_env := env3\<rparr>" by (simp add: without_call_def)
      ultimately show ?thesis using start r permit by (metis (no_types) converse_rtranclp_into_rtranclp r_into_rtranclp)
    qed
  qed
qed

lemma alone_workflow:
  assumes "workflow_steps S lang (we_local_node E) (run_packet x) (Some (run_deadline x)) (\<lambda>_ w. gw_now w)
      (\<lambda>w q. gate_dispatch S l send w q (Some (run_deadline x))) steps pl response cur w = (w', r)"
    and "gw_now w = now" and "sv_env sv = gw_env w"
  shows "(call_step S lang E l)\<^sup>*\<^sup>*
    (goes_on S l c t (\<lambda>_. now) x (workflow_continue S lang E x (\<lambda>_. now) steps pl response cur) sv)
    (call_ends S c t x (rbind r (workflow_response S E (run_packet x))) (sv\<lparr>sv_env := gw_env w'\<rparr>))"
  using assms
proof (induction "length steps" arbitrary: steps pl response cur w sv rule: less_induct)
  case less
  note run = less.prems(1)[unfolded workflow_steps_turn[where steps = steps]]
  have same: "sv\<lparr>sv_env := gw_env w\<rparr> = sv" using less.prems(3) by simp
  show ?case
  proof (cases "workflow_turn S lang (we_local_node E) (run_packet x) (Some (run_deadline x)) now now
      steps pl response cur")
    case (Ends y)
    with run less.prems(2) have "w' = w" "r = y" by auto
    with Ends same show ?thesis by (simp add: workflow_continue_def goes_on_def)
  next
    case (Sends q more)
    obtain step rest pl' where more: "more = (step, rest, pl')" by (cases more)
    obtain w1 y where d: "gate_dispatch S l send w q (Some (run_deadline x)) = (w1, y)" by fastforce
    have first: "(call_step S lang E l)\<^sup>*\<^sup>*
        (goes_on S l c t (\<lambda>_. now) x (workflow_continue S lang E x (\<lambda>_. now) steps pl response cur) sv)
        (goes_on S l c t (\<lambda>_. now) x (call_resume S lang E x (\<lambda>_. now) (Some more) y) (sv\<lparr>sv_env := gw_env w1\<rparr>))"
      using alone_dispatch[OF d less.prems(3), of "\<lambda>_. now"] less.prems(2) Sends by (simp add: workflow_continue_def)
    show ?thesis
    proof (cases y)
      case (Inl e)
      with run Sends more d less.prems(2) have "w' = w1" "r = Inl e" by simp_all
      with first Inl show ?thesis by (simp add: goes_on_def)
    next
      case (Inr reply)
      with run Sends more d less.prems(2) have later: "workflow_steps S lang (we_local_node E) (run_packet x)
          (Some (run_deadline x)) (\<lambda>_ w. gw_now w) (\<lambda>w q. gate_dispatch S l send w q (Some (run_deadline x))) rest
          (merge_payload step pl' (payload reply)) (Some (payload reply)) reply w1 = (w', r)" by simp
      have "length rest < length steps" using workflow_turn_sends[OF Sends[unfolded more]] by auto
      from less.hyps[OF this later, of "sv\<lparr>sv_env := gw_env w1\<rparr>"] gate_dispatch_now[OF d] less.prems(2) first Inr more
      show ?thesis by (simp add: call_resume_def)
    qed
  qed
qed

lemma call_steps_server: "(call_step S lang E l)\<^sup>*\<^sup>* sv sv' \<Longrightarrow> (server_step S lang E l)\<^sup>*\<^sup>* sv sv'"
  by (induction rule: rtranclp_induct) (auto intro: server_step.Go_on rtranclp.rtrancl_into_rtrancl)

lemma alone_run:
  assumes "run_once (gate_collaborators S lang s E send) (run_packet x) (run_deadline x) w = (w', r)"
    and "sv_env sv = gw_env w" and "l = canon (gs_local_node s)"
  shows "(call_step S lang E l)\<^sup>*\<^sup>* (goes_on S l c t (\<lambda>_. gw_now w) x (call_start S lang E x (\<lambda>_. gw_now w)) sv)
    (call_ends S c t x r (sv\<lparr>sv_env := gw_env w'\<rparr>))"
proof (cases "has_workflow E (action (header (run_packet x)))")
  case False
  with assms(1,3) have "gate_dispatch S l send w (run_packet x) (Some (run_deadline x)) = (w', r)"
    by (simp add: run_once_gate)
  from alone_dispatch[OF this assms(2) refl, of lang E c t None] False show ?thesis
    by (simp add: call_start_def call_resume_def goes_on_def Let_def)
next
  case True
  then obtain d where d: "dget (we_definitions E) (canon (action (header (run_packet x)))) = Some d"
    by (auto simp: has_workflow_def dhas_def)
  obtain y where steps: "workflow_steps S lang (we_local_node E) (run_packet x) (Some (run_deadline x)) (\<lambda>_ w. gw_now w)
      (\<lambda>w q. gate_dispatch S l send w q (Some (run_deadline x))) (wd_steps d) (payload (run_packet x)) None
      (run_packet x) w = (w', y)" and r: "r = rbind y (workflow_response S E (run_packet x))"
    using assms(1,3) True d
    by (auto simp: run_once_gate workflow_execute_def split: prod.splits sum.splits)
  from alone_workflow[OF steps refl assms(2), of c t] True d r show ?thesis by (simp add: call_start_def Let_def)
qed

text \<open>
  C7. The pieces make the whole. A request that arrives while others are under way and whose
  call is not interleaved with anything goes, step by step, exactly as \<open>execute\<close> goes in
  one piece: the same service, the same registry and permits, the same answer, and the
  other calls as they were.
\<close>

theorem execute_is_a_run:
  assumes reach: "server_reach S lang E l sv" and l: "l = canon (gs_local_node s)"
    and run: "execute S c t depth (gate_collaborators S lang s E send) None validated (sv_service sv) w = (service', w', r)"
    and w: "sv_env sv = gw_env w" and time: "sv_now sv \<le> at_replay t"
  shows "\<exists>sv'. (server_step S lang E l)\<^sup>*\<^sup>* sv sv' \<and> sv_service sv' = service' \<and> sv_env sv' = gw_env w'
    \<and> sv_calls sv' = sv_calls sv
    \<and> (sv_answers sv' = sv_answers sv \<or> (\<exists>x. validated = Inr (run_packet x) \<and> sv_answers sv' = (x, r) # sv_answers sv))"
proof -
  obtain s1 b where b: "exec_begin S c t depth (sv_service sv) validated = (s1, b)" by fastforce
  show ?thesis
  proof (cases "\<exists>x. b = Inr (Running x)")
    case False
    with run b have "service' = s1" "w' = w" by (auto simp: execute_def split: sum.splits progress.splits)
    moreover have "server_step S lang E l sv (sv\<lparr>sv_service := s1, sv_now := at_replay t\<rparr>)"
      using server_step.Answer[OF time b] False by blast
    ultimately show ?thesis using w
      by (intro exI[of _ "sv\<lparr>sv_service := s1, sv_now := at_replay t\<rparr>"]) (auto intro: r_into_rtranclp)
  next
    case True
    then obtain x where x: "b = Inr (Running x)" ..
    have one: "max_attempts (run_policy x) = 1" by (rule exec_begin_single[OF b[unfolded x] server_accounts(4)[OF reach]])
    have p: "validated = Inr (run_packet x)" by (rule exec_begin_packet[OF b[unfolded x]])
    obtain y where y: "run_once (gate_collaborators S lang s E send) (run_packet x) (run_deadline x) w = (w', y)"
      and ends: "exec_settle S c t s1 x y = (service', r)"
      using run b x by (auto simp: execute_def exec_run_def retry_run_single[OF one] wait_for_def split: prod.splits)
    let ?sv = "sv\<lparr>sv_service := s1, sv_now := at_replay t, sv_begun := x # sv_begun sv\<rparr>"
    let ?clock = "\<lambda>_ :: nat. gw_now w"
    have "(server_step S lang E l)\<^sup>*\<^sup>* sv (goes_on S l c t ?clock x (call_start S lang E x ?clock) ?sv)"
      by (intro r_into_rtranclp server_step.Arrive[OF time b[unfolded x]])
    moreover have "(server_step S lang E l)\<^sup>*\<^sup>* (goes_on S l c t ?clock x (call_start S lang E x ?clock) ?sv)
        (call_ends S c t x y (?sv\<lparr>sv_env := gw_env w'\<rparr>))"
      using alone_run[OF y _ l, where sv = ?sv and c = c and t = t] w by (intro call_steps_server) simp
    ultimately show ?thesis using ends p
      by (intro exI[of _ "call_ends S c t x y (?sv\<lparr>sv_env := gw_env w'\<rparr>)"] conjI)
        (auto simp: call_ends_def intro: rtranclp_trans)
  qed
qed

section \<open>An example\<close>

text \<open>One worker, and one request on its way to it.\<close>

abbreviation example_sdk :: sdk where
  "example_sdk \<equiv> ref_sdk (\<lambda>_. raise ValueError [])"

definition example_engine :: workflow_engine where
  "example_engine = \<lparr>we_definitions = [], we_local_node = ''gate''\<rparr>"

definition example_start :: server where
  "example_start =
     \<lparr>sv_service = sample_exec,
      sv_env = example_env, sv_now = 0, sv_calls = [], sv_begun = [], sv_answers = []\<rparr>"

lemma example_start_reach: "server_reach example_sdk no_conditions example_engine ''gate'' example_start"
proof -
  let ?sv = "\<lparr>sv_service = sample_exec, sv_env = sys_env gate_start, sv_now = 0, sv_calls = [],
      sv_begun = [], sv_answers = []\<rparr>"
  let ?n = "sample_node ''graph'' [''match''] []"
  have "server_reach example_sdk no_conditions example_engine ''gate'' ?sv"
    using server_reach.Start[OF sample_exec_init, where rate = "ex_rate sample_exec" and now = 0
        and breaker = "ex_breaker sample_exec" and load = "ex_load sample_exec" and bp = "ex_back sample_exec"]
    by simp
  moreover have "register_node (env_registry (sv_env ?sv)) ''graph'' ?n False = ([(''graph'', ?n)], Inr ())"
    by code_simp
  moreover have "wf_node ''graph'' ?n" "active_requests ?n = 0" by code_simp+
  ultimately have "server_reach example_sdk no_conditions example_engine ''gate''
      (?sv\<lparr>sv_env := (sv_env ?sv)\<lparr>env_registry := [(''graph'', ?n)]\<rparr>\<rparr>)"
    by (blast intro: server_reach.Step server_step.Registered)
  then show ?thesis by (simp add: example_start_def example_env_def gate_start_def)
qed

definition example_serving :: server where
  "example_serving =
     (case exec_begin example_sdk None (reading_at 0) 0 sample_exec (Inr (example_packet ''match'')) of
        (s, Inr (Running x)) \<Rightarrow>
          goes_on example_sdk ''gate'' None (reading_at 0) (\<lambda>_. 0) x
            (call_start example_sdk no_conditions example_engine x (\<lambda>_. 0))
            (example_start\<lparr>sv_service := s, sv_now := 0, sv_begun := [x]\<rparr>)
      | _ \<Rightarrow> example_start)"

lemma example_serving_calls: "length (sv_calls example_serving) = 1"
  by code_simp

lemma example_serving_reach: "server_reach example_sdk no_conditions example_engine ''gate'' example_serving"
proof -
  obtain s b where b: "exec_begin example_sdk None (reading_at 0) 0 sample_exec (Inr (example_packet ''match'')) = (s, b)"
    by fastforce
  show ?thesis
  proof (cases "\<exists>x. b = Inr (Running x)")
    case True
    then obtain x where x: "b = Inr (Running x)" ..
    have "exec_begin example_sdk None (reading_at 0) 0 (sv_service example_start) (Inr (example_packet ''match''))
        = (s, Inr (Running x))" using b x by (simp add: example_start_def)
    from server_step.Arrive[OF _ this, where lang = no_conditions and E = example_engine and l = "''gate''"
        and t' = "reading_at 0" and clock = "\<lambda>_. 0"]
    have "server_step example_sdk no_conditions example_engine ''gate'' example_start example_serving"
      using b x by (simp add: example_serving_def example_start_def reading_at_def)
    with example_start_reach show ?thesis by (rule server_reach.Step)
  next
    case False
    with b have "example_serving = example_start" by (simp add: example_serving_def split: sum.splits progress.splits)
    then show ?thesis using example_start_reach by simp
  qed
qed

theorem load_is_the_requests_witness:
  "\<exists>sv. server_reach example_sdk no_conditions example_engine ''gate'' sv \<and> ex_in_flight (sv_service sv) = 1"
  using load_is_the_requests[OF example_serving_reach] example_serving_reach example_serving_calls by auto

theorem requests_are_answered_once_witness:
  "\<exists>sv'. call_step example_sdk no_conditions example_engine ''gate'' example_serving sv'
     \<and> (1 :: nat) \<le> calls_to_go example_serving \<and> sv_begun sv' = sv_begun example_serving"
proof -
  have "sv_calls example_serving \<noteq> []" using example_serving_calls by auto
  from call_step_enabled[OF this] obtain sv'
    where sv': "call_step example_sdk no_conditions example_engine ''gate'' example_serving sv'" by blast
  then have "(call_step example_sdk no_conditions example_engine ''gate'' ^^ 1) example_serving sv'"
    by (simp only: relpowp_1)
  from requests_are_answered_once[OF example_serving_reach this] sv' show ?thesis by blast
qed

theorem flights_have_their_request_witness:
  "\<exists>ca. sv_calls example_serving = [ca]
     \<and> from_gate ''gate'' (env_registry (sv_env example_serving)) (ca_flight ca)
     \<and> ca_run ca \<in> set (sv_begun example_serving)"
proof -
  from example_serving_calls obtain ca where ca: "sv_calls example_serving = [ca]" by (auto simp: length_Suc_conv)
  have l: "gs_local_node sample_gate = ''gate''" by (simp add: sample_gate_def)
  have "canon ''gate'' = ''gate''" by code_simp
  then have "workflow_engine_init [] (gs_local_node sample_gate) None = Inr example_engine"
    by (simp add: workflow_engine_init_def validate_definitions_def example_engine_def l)
  from flights_have_their_request[OF ref_sdk_derives_ok ref_sdk_hops_ok sample_settings this, where lang = no_conditions
      and sv = example_serving and ca = ca] example_serving_reach ca l
  show ?thesis by simp
qed

theorem execute_is_a_run_witness:
  "\<exists>service' w' r sv'.
     execute example_sdk None (reading_at 0) 0
       (gate_collaborators example_sdk no_conditions sample_gate example_engine (\<lambda>q n u. Inr q)) None
       (Inr (example_packet ''match'')) (sv_service example_serving)
       \<lparr>gw_env = sv_env example_serving, gw_now = 0, gw_sent = []\<rparr> = (service', w', r)
     \<and> (server_step example_sdk no_conditions example_engine ''gate'')\<^sup>*\<^sup>* example_serving sv'
     \<and> sv_service sv' = service' \<and> length (sv_calls sv') = 1"
proof -
  let ?w = "\<lparr>gw_env = sv_env example_serving, gw_now = 0, gw_sent = []\<rparr>"
  have l: "''gate'' = canon (gs_local_node sample_gate)" by code_simp
  obtain service' w' r where run: "execute example_sdk None (reading_at 0) 0
      (gate_collaborators example_sdk no_conditions sample_gate example_engine (\<lambda>q n u. Inr q)) None
      (Inr (example_packet ''match'')) (sv_service example_serving) ?w = (service', w', r)"
    by (metis prod_cases3)
  have "sv_now example_serving \<le> at_replay (reading_at 0)" by code_simp
  from execute_is_a_run[OF example_serving_reach l run _ this] run example_serving_calls show ?thesis by fastforce
qed

end
