(* ===== verification/Wiring.thy ===== *)
theory Wiring
  imports Composition
begin

text \<open>
  The composition root, \<open>api/dependencies.py\<close>, with the constructor of the dispatcher and
  its choice of a transport (\<open>routing/dispatch.py\<close>). The state is what the getters under
  \<open>lru_cache\<close> remember and the objects that they made; an object that several services
  hold is known by its number, so that holding the same object is a matter of the model.
  Over it stand the application that \<open>create_app\<close> makes (\<open>api/main.py\<close>), its start and its
  end, and the execute route.
\<close>

section \<open>The dispatcher object\<close>

text \<open>
  \<open>'r\<close>, \<open>'t\<close>, \<open>'c\<close>, \<open>'p\<close> and \<open>'l\<close> are the registry, a transport, a client, a provider of
  clients and the limiters, all held by reference.
\<close>

record ('r, 't, 'c, 'p, 'l) dispatcher =
  dp_local_node :: string
  dp_registry :: 'r
  dp_resolver :: "'r \<times> string"
  dp_dispatch_config :: dispatch_transport_config
  dp_transport :: "'t option"
  dp_client :: "'c option"
  dp_client_provider :: "'p option"
  dp_node_limits :: "'l option"

text \<open>\<open>default_config\<close> is the SDK's configuration for a node and nothing else.\<close>

definition dispatcher_init ::
  "(string \<Rightarrow> dispatch_transport_config) \<Rightarrow> string \<Rightarrow> 'r \<Rightarrow> dispatch_transport_config option \<Rightarrow> 't option \<Rightarrow>
     'c option \<Rightarrow> 'p option \<Rightarrow> 'l option \<Rightarrow> ('r, 't, 'c, 'p, 'l) dispatcher" where
  "dispatcher_init default_config local_node reg dispatch_config transport client provider limits =
     \<lparr>dp_local_node = canon local_node, dp_registry = reg,
      dp_resolver = (reg, canon (canon local_node)),
      dp_dispatch_config = opt_or dispatch_config (default_config (canon local_node)),
      dp_transport = transport, dp_client = client, dp_client_provider = provider,
      dp_node_limits = limits\<rparr>"

text \<open>A transport that was supplied, or one made around a client, which the SDK opens itself
  when there is none.\<close>

datatype ('t, 'c) transport_choice = Supplied 't | Made dispatch_transport_config "'c option"

definition resolve_client ::
  "('p \<Rightarrow> 's \<Rightarrow> 's \<times> 'c option res) \<Rightarrow> ('r, 't, 'c, 'p, 'l) dispatcher \<Rightarrow> 's \<Rightarrow> 's \<times> 'c option res" where
  "resolve_client call d s =
     (case dp_client d of
        Some c \<Rightarrow> (s, Inr (Some c))
      | None \<Rightarrow>
          (case dp_client_provider d of
             None \<Rightarrow> (s, Inr None)
           | Some p \<Rightarrow> call p s))"

definition resolve_transport ::
  "('p \<Rightarrow> 's \<Rightarrow> 's \<times> 'c option res) \<Rightarrow> ('r, 't, 'c, 'p, 'l) dispatcher \<Rightarrow> 's \<Rightarrow>
     's \<times> ('t, 'c) transport_choice res" where
  "resolve_transport call d s =
     (case dp_transport d of
        Some t \<Rightarrow> (s, Inr (Supplied t))
      | None \<Rightarrow>
          (case resolve_client call d s of
             (s', r) \<Rightarrow> (s', rbind r (\<lambda>c. Inr (Made (dp_dispatch_config d) c)))))"

section \<open>What the process remembers\<close>

text \<open>\<open>_pooled_client\<close>, the only provider that the wiring passes.\<close>

datatype provider = Pooled_client

type_synonym gate_dispatcher = "(nat, unit, nat, provider, nat) dispatcher"

record engine_object =
  eo_engine :: workflow_engine
  eo_dispatcher :: gate_dispatcher
  eo_registry :: nat

text \<open>A validator with the registry whose \<open>known_nodes\<close> it asks.\<close>

record validator_object =
  vo_validator :: ingress_validator
  vo_registry :: nat

record execute_object =
  xo_service :: exec_service
  xo_validator :: validator_object
  xo_dispatcher :: gate_dispatcher
  xo_engine :: engine_object
  xo_registry :: nat

record admission_object =
  ao_local_node :: string
  ao_validator :: validator_object
  ao_registry :: nat

text \<open>The services with the registry and the token of the admin.\<close>

record token_object =
  to_registry :: nat
  to_admin_token :: "string option"

record wiring =
  wr_registries :: "registry list"
  wr_http :: "http_client list"
  wr_limiters :: "limiter list"
  me_registry :: "nat option"
  me_http :: "nat option"
  me_limiters :: "nat option"
  me_settings :: "gate_settings option"
  me_validator :: "validator_object option"
  me_config :: "dispatch_transport_config option"
  me_dispatcher :: "gate_dispatcher option"
  me_engine :: "engine_object option"
  me_execute :: "execute_object option"
  me_admission :: "admission_object option"
  me_admin :: "token_object option"
  me_query :: "nat option"
  me_capability :: "token_object option"
  me_workflow :: "engine_object option"

definition wiring_init :: wiring where
  "wiring_init =
     \<lparr>wr_registries = [], wr_http = [], wr_limiters = [], me_registry = None, me_http = None,
      me_limiters = None, me_settings = None, me_validator = None, me_config = None,
      me_dispatcher = None, me_engine = None, me_execute = None, me_admission = None,
      me_admin = None, me_query = None, me_capability = None, me_workflow = None\<rparr>"

text \<open>What a getter finds outside the process when it is called.\<close>

record surroundings =
  su_getenv :: environ
  su_loads :: "string \<Rightarrow> pyval res"
  su_as_float :: "string \<Rightarrow> pyfloat res"
  su_read_file :: "string \<Rightarrow> pyval res option"
  su_typed :: "(pyval \<times> pyval) list \<Rightarrow> wf_definition option"
  su_default_config :: "string \<Rightarrow> dispatch_transport_config"
  su_read_yaml :: "string \<Rightarrow> pyval res"
  su_typed_node :: "string \<Rightarrow> payload \<Rightarrow> node option"

type_synonym 'a getter = "surroundings \<Rightarrow> wiring \<Rightarrow> wiring \<times> 'a res"

definition given :: "'a \<Rightarrow> 'a getter" where
  "given v x w = (w, Inr v)"

definition before :: "'a getter \<Rightarrow> ('a \<Rightarrow> 'b getter) \<Rightarrow> 'b getter" where
  "before g f x w =
     (case g x w of
        (w', Inl e) \<Rightarrow> (w', Inl e)
      | (w', Inr v) \<Rightarrow> f v x w')"

text \<open>\<open>lru_cache\<close> on a function without arguments keeps the first value that is returned; a
  call that raises keeps nothing.\<close>

definition lru_cached ::
  "(wiring \<Rightarrow> 'a option) \<Rightarrow> ('a \<Rightarrow> wiring \<Rightarrow> wiring) \<Rightarrow> 'a getter \<Rightarrow> 'a getter" where
  "lru_cached slot store build x w =
     (case slot w of
        Some v \<Rightarrow> (w, Inr v)
      | None \<Rightarrow>
          (case build x w of
             (w', Inl e) \<Rightarrow> (w', Inl e)
           | (w', Inr v) \<Rightarrow> (store v w', Inr v)))"

section \<open>The getters\<close>

definition wired_registry :: "nat getter" where
  "wired_registry = lru_cached me_registry (\<lambda>v w. w\<lparr>me_registry := Some v\<rparr>)
     (\<lambda>x w. (w\<lparr>wr_registries := wr_registries w @ [registry_init]\<rparr>, Inr (length (wr_registries w))))"

definition wired_http_client_manager :: "nat getter" where
  "wired_http_client_manager = lru_cached me_http (\<lambda>v w. w\<lparr>me_http := Some v\<rparr>)
     (\<lambda>x w. case http_client_init 256 64 30 of
        Inl e \<Rightarrow> (w, Inl e)
      | Inr m \<Rightarrow> (w\<lparr>wr_http := wr_http w @ [m]\<rparr>, Inr (length (wr_http w))))"

definition wired_node_limiter_manager :: "nat getter" where
  "wired_node_limiter_manager = lru_cached me_limiters (\<lambda>v w. w\<lparr>me_limiters := Some v\<rparr>)
     (\<lambda>x w. (w\<lparr>wr_limiters := wr_limiters w @ [limiter_init]\<rparr>, Inr (length (wr_limiters w))))"

text \<open>\<open>get_settings\<close> is under \<open>lru_cache\<close> too and is called from here only.\<close>

definition wired_settings :: "gate_settings getter" where
  "wired_settings = lru_cached me_settings (\<lambda>v w. w\<lparr>me_settings := Some v\<rparr>)
     (\<lambda>x w. (w, get_settings (su_loads x) (su_as_float x) (su_getenv x)))"

definition wired_ingress_validator :: "validator_object getter" where
  "wired_ingress_validator = lru_cached me_validator (\<lambda>v w. w\<lparr>me_validator := Some v\<rparr>)
     (before wired_settings (\<lambda>s. before wired_registry (\<lambda>r.
        given \<lparr>vo_validator = get_ingress_validator s, vo_registry = r\<rparr>)))"

definition wired_gate_dispatch_config :: "dispatch_transport_config getter" where
  "wired_gate_dispatch_config = lru_cached me_config (\<lambda>v w. w\<lparr>me_config := Some v\<rparr>)
     (before wired_settings (\<lambda>s. given (get_gate_dispatch_config s)))"

definition wired_dispatcher :: "gate_dispatcher getter" where
  "wired_dispatcher = lru_cached me_dispatcher (\<lambda>v w. w\<lparr>me_dispatcher := Some v\<rparr>)
     (before wired_settings (\<lambda>s. before wired_registry (\<lambda>r. before wired_gate_dispatch_config (\<lambda>c.
      before wired_node_limiter_manager (\<lambda>l x. given
        (dispatcher_init (su_default_config x) (gs_local_node s) r (Some c) None None
           (Some Pooled_client) (Some l)) x)))))"

definition read_workflow_definitions :: "gate_settings \<Rightarrow> (string \<times> wf_definition) list getter" where
  "read_workflow_definitions s x w =
     (w, if truthy_str (gs_workflow_config_path s)
         then load_workflow_definitions (su_typed x) (su_read_file x (the (gs_workflow_config_path s)))
         else Inr [])"

definition wired_workflow_engine :: "engine_object getter" where
  "wired_workflow_engine = lru_cached me_engine (\<lambda>v w. w\<lparr>me_engine := Some v\<rparr>)
     (before wired_settings (\<lambda>s. before (read_workflow_definitions s) (\<lambda>definitions.
      before wired_dispatcher (\<lambda>d. before wired_registry (\<lambda>r x w.
        (w, rbind (workflow_engine_init definitions (gs_local_node s) (Some (wr_registries w ! r)))
              (\<lambda>E. Inr \<lparr>eo_engine = E, eo_dispatcher = d, eo_registry = r\<rparr>)))))))"

definition wired_execute_service :: "execute_object getter" where
  "wired_execute_service = lru_cached me_execute (\<lambda>v w. w\<lparr>me_execute := Some v\<rparr>)
     (before wired_settings (\<lambda>s. before wired_ingress_validator (\<lambda>v. before wired_dispatcher (\<lambda>d.
      before wired_workflow_engine (\<lambda>E. before wired_registry (\<lambda>r x w.
        (w, rbind (exec_service_init (gs_local_node s) (gs_idempotency_ttl_seconds s) (gs_response_margin_ms s))
              (\<lambda>service. Inr \<lparr>xo_service = service, xo_validator = v, xo_dispatcher = d,
                 xo_engine = E, xo_registry = r\<rparr>))))))))"

definition wired_admission_service :: "admission_object getter" where
  "wired_admission_service = lru_cached me_admission (\<lambda>v w. w\<lparr>me_admission := Some v\<rparr>)
     (before wired_settings (\<lambda>s. before wired_ingress_validator (\<lambda>v. before wired_registry (\<lambda>r.
        given \<lparr>ao_local_node = canon (gs_local_node s), ao_validator = v, ao_registry = r\<rparr>))))"

definition wired_admin_registration_service :: "token_object getter" where
  "wired_admin_registration_service = lru_cached me_admin (\<lambda>v w. w\<lparr>me_admin := Some v\<rparr>)
     (before wired_settings (\<lambda>s. before wired_registry (\<lambda>r.
        given \<lparr>to_registry = r, to_admin_token = admin_token_init (gs_admin_token s)\<rparr>)))"

definition wired_registry_query_service :: "nat getter" where
  "wired_registry_query_service = lru_cached me_query (\<lambda>v w. w\<lparr>me_query := Some v\<rparr>)
     (before wired_registry given)"

definition wired_capability_service :: "token_object getter" where
  "wired_capability_service = lru_cached me_capability (\<lambda>v w. w\<lparr>me_capability := Some v\<rparr>)
     (before wired_settings (\<lambda>s. before wired_registry (\<lambda>r.
        given \<lparr>to_registry = r, to_admin_token = admin_token_init (gs_admin_token s)\<rparr>)))"

definition wired_workflow_service :: "engine_object getter" where
  "wired_workflow_service = lru_cached me_workflow (\<lambda>v w. w\<lparr>me_workflow := Some v\<rparr>)
     (before wired_workflow_engine given)"

text \<open>Not remembered: it is asked once per dispatch.\<close>

definition wired_pooled_client :: "nat option getter" where
  "wired_pooled_client = before wired_http_client_manager (\<lambda>i x w. (w, pooled_client (wr_http w ! i)))"

fun call_provider :: "surroundings \<Rightarrow> provider \<Rightarrow> wiring \<Rightarrow> wiring \<times> nat option res" where
  "call_provider x Pooled_client w = wired_pooled_client x w"

definition wired_sign_gate_response :: "sdk \<Rightarrow> packet \<Rightarrow> packet getter" where
  "wired_sign_gate_response S p = before wired_settings (\<lambda>s x w. (w, sign_gate_response S s p))"

text \<open>The lifespan up to its \<open>yield\<close>, over the wired objects; \<open>i\<close> is the client manager that
  \<open>create_app\<close> captured.\<close>

definition wired_load_static_registry :: "nat getter" where
  "wired_load_static_registry = before wired_settings (\<lambda>s.
     if \<not> truthy_str (gs_node_registry_path s) then given 0
     else before wired_registry (\<lambda>r x w.
       case load_static_registry (su_read_yaml x) (su_typed_node x) s (wr_registries w ! r) of
         (nodes, loaded) \<Rightarrow> (w\<lparr>wr_registries := (wr_registries w)[r := nodes]\<rparr>, loaded)))"

definition wired_health_monitor :: "(health_monitor \<times> nat) option getter" where
  "wired_health_monitor = before wired_settings (\<lambda>s.
     if gs_health_probe_interval_seconds s \<le> 0 then given None
     else before wired_registry (\<lambda>r x w.
       (w, rbind (health_monitor_init (gs_health_probe_interval_seconds s) 5) (\<lambda>m. Inr (Some (m, r))))))"

definition wired_startup :: "nat \<Rightarrow> (health_monitor \<times> nat) option getter" where
  "wired_startup i x w =
     before (\<lambda>x w. (w\<lparr>wr_http := (wr_http w)[i := http_startup (wr_http w ! i)]\<rparr>, Inr ())) (\<lambda>_.
     before wired_load_static_registry (\<lambda>_.
     before (\<lambda>x w. (w, http_get_client (wr_http w ! i))) (\<lambda>_.
     before wired_health_monitor (\<lambda>monitor.
       given (map_option (\<lambda>(m, r). (health_monitor_start m, r)) monitor))))) x w"

text \<open>
  \<open>create_app\<close> at the import of the module: the application keeps the two managers it was
  given and puts them into its state. The whole start of the lifespan registers the monitor
  there; its end, whatever happened in between, stops the monitor and closes the client.
\<close>

datatype managed = Client_manager nat | Limiter_manager nat | Monitor_service health_monitor nat

record gate_app =
  ga_client :: nat
  ga_limiters :: nat
  ga_state :: "managed app_state"

definition create_app :: "gate_app getter" where
  "create_app = before wired_http_client_manager (\<lambda>i. before wired_node_limiter_manager (\<lambda>l.
     given \<lparr>ga_client = i, ga_limiters = l,
            ga_state = attach_runtime app_state_init (Some (Client_manager i)) (Some (Limiter_manager l)) None\<rparr>))"

definition app_startup :: "gate_app \<Rightarrow> (gate_app \<times> (health_monitor \<times> nat) option) getter" where
  "app_startup a = before (wired_startup (ga_client a)) (\<lambda>monitor. given
     (case monitor of
        None \<Rightarrow> (a, None)
      | Some (m, r) \<Rightarrow>
          (a\<lparr>ga_state := app_register (ga_state a) ''health_monitor'' (Monitor_service m r)\<rparr>, monitor)))"

definition app_shutdown ::
  "gate_app \<Rightarrow> (health_monitor \<times> nat) option \<Rightarrow> wiring \<Rightarrow> wiring \<times> (health_monitor \<times> nat) option" where
  "app_shutdown a monitor w =
     (w\<lparr>wr_http := (wr_http w)[ga_client a := http_shutdown (wr_http w ! ga_client a)]\<rparr>,
      map_option (\<lambda>(m, r). (health_monitor_stop m, r)) monitor)"

text \<open>The execute route; \<open>C\<close> are the collaborators of the service for the world \<open>u\<close>.\<close>

definition wired_execute_route ::
  "sdk \<Rightarrow> transport_validator \<Rightarrow> log_context \<Rightarrow> readings \<Rightarrow>
     (gate_dispatcher \<Rightarrow> workflow_engine \<Rightarrow> 'w collaborators) \<Rightarrow> pyclass option \<Rightarrow> pyval res \<Rightarrow>
     surroundings \<Rightarrow> wiring \<Rightarrow> 'w \<Rightarrow> wiring \<times> 'w \<times> pyval http_outcome" where
  "wired_execute_route S V c t C ended body x w u =
     (case rbind body require_object of
        Inl e \<Rightarrow> (w, u, http_outcome (Inl e))
      | Inr b \<Rightarrow>
          (case wired_execute_service x w of
             (w1, Inl e) \<Rightarrow> (w1, u, http_outcome (Inl e))
           | (w1, Inr X) \<Rightarrow>
               (let v = xo_validator X;
                    (service', u', r) =
                      execute S c t 0 (C (xo_dispatcher X) (eo_engine (xo_engine X))) ended
                        (ingress_validate S V (vo_validator v) (dkeys (wr_registries w1 ! vo_registry v)) b)
                        (xo_service X) u;
                    w2 = w1\<lparr>me_execute := Some (X\<lparr>xo_service := service'\<rparr>)\<rparr>;
                    (w3, signed) = before (\<lambda>x w. (w, r)) (wired_sign_gate_response S) x w2
                in (w3, u', http_outcome (rbind signed (\<lambda>q. Inr (sdk_dump S q)))))))"

section \<open>A getter and what it leaves\<close>

text \<open>
  The slots in an order in which a getter asks only for slots before its own. From one
  state to the other only slots up to \<open>n\<close> were filled and nothing was forgotten.
\<close>

definition kept :: "'a option \<Rightarrow> 'a option \<Rightarrow> bool" where
  "kept a b \<longleftrightarrow> (a \<noteq> None \<longrightarrow> b = a)"

definition extends :: "nat \<Rightarrow> wiring \<Rightarrow> wiring \<Rightarrow> bool" where
  "extends n w w' \<longleftrightarrow>
     kept (me_registry w) (me_registry w') \<and> (me_registry w \<noteq> None \<longrightarrow> wr_registries w' = wr_registries w)
   \<and> kept (me_http w) (me_http w') \<and> (me_http w \<noteq> None \<longrightarrow> wr_http w' = wr_http w)
   \<and> kept (me_limiters w) (me_limiters w') \<and> (me_limiters w \<noteq> None \<longrightarrow> wr_limiters w' = wr_limiters w)
   \<and> kept (me_settings w) (me_settings w')
   \<and> kept (me_validator w) (me_validator w') \<and> (n < 1 \<longrightarrow> me_validator w' = me_validator w)
   \<and> kept (me_config w) (me_config w') \<and> (n < 1 \<longrightarrow> me_config w' = me_config w)
   \<and> kept (me_dispatcher w) (me_dispatcher w') \<and> (n < 2 \<longrightarrow> me_dispatcher w' = me_dispatcher w)
   \<and> kept (me_engine w) (me_engine w') \<and> (n < 3 \<longrightarrow> me_engine w' = me_engine w)
   \<and> kept (me_execute w) (me_execute w') \<and> (n < 4 \<longrightarrow> me_execute w' = me_execute w)
   \<and> kept (me_admission w) (me_admission w') \<and> (n < 4 \<longrightarrow> me_admission w' = me_admission w)
   \<and> kept (me_admin w) (me_admin w') \<and> (n < 4 \<longrightarrow> me_admin w' = me_admin w)
   \<and> kept (me_query w) (me_query w') \<and> (n < 4 \<longrightarrow> me_query w' = me_query w)
   \<and> kept (me_capability w) (me_capability w') \<and> (n < 4 \<longrightarrow> me_capability w' = me_capability w)
   \<and> kept (me_workflow w) (me_workflow w') \<and> (n < 4 \<longrightarrow> me_workflow w' = me_workflow w)"

lemma kept_refl [simp]: "kept a a"
  by (simp add: kept_def)

lemma kept_None [simp]: "kept None b"
  by (simp add: kept_def)

lemma kept_trans: "kept a b \<Longrightarrow> kept b c \<Longrightarrow> kept a c"
  by (auto simp: kept_def)

lemma kept_Some: "kept a b \<Longrightarrow> a = Some v \<Longrightarrow> b = Some v"
  by (simp add: kept_def)

lemma extends_refl [simp]: "extends n w w"
  by (simp add: extends_def)

lemma extends_trans: "extends n w w' \<Longrightarrow> extends n w' w'' \<Longrightarrow> extends n w w''"
  unfolding extends_def by (intro conjI) (auto elim: kept_trans simp: kept_def)

lemma extends_mono: "extends m w w' \<Longrightarrow> m \<le> n \<Longrightarrow> extends n w w'"
  unfolding extends_def by (elim conjE, intro conjI) auto

text \<open>Every slot that is filled holds what the settings and the shared objects determine.\<close>

definition only_one :: "nat option \<Rightarrow> 'a list \<Rightarrow> bool" where
  "only_one memo objects \<longleftrightarrow> (case memo of None \<Rightarrow> objects = [] | Some i \<Rightarrow> i = 0 \<and> length objects = 1)"

definition the_validator :: "gate_settings \<Rightarrow> validator_object" where
  "the_validator s = \<lparr>vo_validator = get_ingress_validator s, vo_registry = 0\<rparr>"

definition the_dispatcher :: "gate_settings \<Rightarrow> gate_dispatcher" where
  "the_dispatcher s =
     \<lparr>dp_local_node = canon (gs_local_node s), dp_registry = 0,
      dp_resolver = (0, canon (gs_local_node s)), dp_dispatch_config = get_gate_dispatch_config s,
      dp_transport = None, dp_client = None, dp_client_provider = Some Pooled_client,
      dp_node_limits = Some 0\<rparr>"

definition the_tokens :: "gate_settings \<Rightarrow> token_object" where
  "the_tokens s = \<lparr>to_registry = 0, to_admin_token = admin_token_init (gs_admin_token s)\<rparr>"

definition wired_for :: "gate_settings \<Rightarrow> wiring \<Rightarrow> bool" where
  "wired_for s w \<longleftrightarrow>
     (me_validator w \<noteq> None \<longrightarrow> me_validator w = Some (the_validator s) \<and> me_registry w = Some 0)
   \<and> (me_config w \<noteq> None \<longrightarrow> me_config w = Some (get_gate_dispatch_config s))
   \<and> (me_dispatcher w \<noteq> None \<longrightarrow> me_dispatcher w = Some (the_dispatcher s)
        \<and> me_registry w = Some 0 \<and> me_limiters w = Some 0)
   \<and> (\<forall>E. me_engine w = Some E \<longrightarrow> eo_dispatcher E = the_dispatcher s \<and> eo_registry E = 0
        \<and> we_local_node (eo_engine E) = canon (gs_local_node s) \<and> me_dispatcher w \<noteq> None)
   \<and> (\<forall>X. me_execute w = Some X \<longrightarrow> xo_validator X = the_validator s \<and> xo_dispatcher X = the_dispatcher s
        \<and> me_engine w = Some (xo_engine X) \<and> xo_registry X = 0 \<and> me_validator w \<noteq> None)
   \<and> (\<forall>A. me_admission w = Some A \<longrightarrow> ao_local_node A = canon (gs_local_node s)
        \<and> ao_validator A = the_validator s \<and> ao_registry A = 0 \<and> me_validator w \<noteq> None)
   \<and> (me_admin w \<noteq> None \<longrightarrow> me_admin w = Some (the_tokens s) \<and> me_registry w = Some 0)
   \<and> (me_capability w \<noteq> None \<longrightarrow> me_capability w = Some (the_tokens s) \<and> me_registry w = Some 0)
   \<and> (me_workflow w \<noteq> None \<longrightarrow> me_workflow w = me_engine w)"

definition nothing_wired :: "wiring \<Rightarrow> bool" where
  "nothing_wired w \<longleftrightarrow> me_validator w = None \<and> me_config w = None \<and> me_dispatcher w = None
     \<and> me_engine w = None \<and> me_execute w = None \<and> me_admission w = None \<and> me_admin w = None
     \<and> me_capability w = None \<and> me_workflow w = None"

definition wired :: "wiring \<Rightarrow> bool" where
  "wired w \<longleftrightarrow> only_one (me_registry w) (wr_registries w) \<and> only_one (me_http w) (wr_http w)
     \<and> only_one (me_limiters w) (wr_limiters w) \<and> list_all client_inv (wr_http w)
     \<and> (me_query w \<noteq> None \<longrightarrow> me_query w = Some 0 \<and> me_registry w = Some 0)
     \<and> (case me_settings w of
          None \<Rightarrow> nothing_wired w
        | Some s \<Rightarrow> (\<exists>loads as_float getenv. get_settings loads as_float getenv = Inr s) \<and> wired_for s w)"

text \<open>Under \<open>P\<close> a getter keeps the process wired, fills slots up to \<open>n\<close> only, and establishes
  \<open>Q\<close> for the value that it returns.\<close>

definition good :: "nat \<Rightarrow> (wiring \<Rightarrow> bool) \<Rightarrow> 'a getter \<Rightarrow> ('a \<Rightarrow> wiring \<Rightarrow> bool) \<Rightarrow> bool" where
  "good n P g Q \<longleftrightarrow> (\<forall>x w w' r. wired w \<longrightarrow> P w \<longrightarrow> g x w = (w', r) \<longrightarrow>
     wired w' \<and> extends n w w' \<and> (\<forall>v. r = Inr v \<longrightarrow> Q v w'))"

definition lasting :: "(wiring \<Rightarrow> bool) \<Rightarrow> bool" where
  "lasting P \<longleftrightarrow> (\<forall>n w w'. P w \<longrightarrow> extends n w w' \<longrightarrow> P w')"

lemma good_before:
  assumes "good n P g Q" and "lasting P" and "\<And>v. good n (\<lambda>w. P w \<and> Q v w) (f v) R"
  shows "good n P (before g f) R"
  unfolding good_def
proof (intro allI impI)
  fix x w w' r
  assume w: "wired w" "P w" and call: "before g f x w = (w', r)"
  obtain w1 r1 where g: "g x w = (w1, r1)" by fastforce
  with w assms(1) have w1: "wired w1" "extends n w w1" "\<And>v. r1 = Inr v \<Longrightarrow> Q v w1" by (auto simp: good_def)
  show "wired w' \<and> extends n w w' \<and> (\<forall>v. r = Inr v \<longrightarrow> R v w')"
  proof (cases r1)
    case (Inl e)
    with call g w1 show ?thesis by (auto simp: before_def)
  next
    case (Inr v)
    have "P w1" using assms(2) w(2) w1(2) unfolding lasting_def by blast
    moreover have "f v x w1 = (w', r)" using call g Inr by (simp add: before_def)
    ultimately show ?thesis
      using assms(3)[of v] w1 Inr extends_trans[OF w1(2), of w'] unfolding good_def by blast
  qed
qed

lemma good_mono: "good m P g Q \<Longrightarrow> m \<le> n \<Longrightarrow> (\<And>w. P' w \<Longrightarrow> P w) \<Longrightarrow> good n P' g Q"
  unfolding good_def using extends_mono by blast

lemma good_pure: "(\<And>x w v. wired w \<Longrightarrow> P w \<Longrightarrow> h x w = Inr v \<Longrightarrow> Q v w) \<Longrightarrow> good n P (\<lambda>x w. (w, h x w)) Q"
  by (auto simp: good_def)

lemma good_given: "(\<And>w. wired w \<Longrightarrow> P w \<Longrightarrow> Q v w) \<Longrightarrow> good n P (given v) Q"
  by (auto simp: good_def given_def)

lemma good_lru_cached:
  assumes "good m (\<lambda>_. True) build Q" and "m \<le> n"
    and "\<And>v w. wired w \<Longrightarrow> slot w = None \<Longrightarrow> Q v w \<Longrightarrow> wired (store v w) \<and> extends n w (store v w)"
    and "\<And>w w'. extends m w w' \<Longrightarrow> slot w = None \<Longrightarrow> slot w' = None"
    and "\<And>v w. slot (store v w) = Some v"
  shows "good n (\<lambda>_. True) (lru_cached slot store build) (\<lambda>v w. slot w = Some v)"
  unfolding good_def
proof (intro allI impI)
  fix x w w' r
  assume w: "wired w" and call: "lru_cached slot store build x w = (w', r)"
  show "wired w' \<and> extends n w w' \<and> (\<forall>v. r = Inr v \<longrightarrow> slot w' = Some v)"
  proof (cases "slot w")
    case None
    obtain w1 r1 where mk: "build x w = (w1, r1)" by fastforce
    with w assms(1) have w1: "wired w1" "extends m w w1" "\<And>v. r1 = Inr v \<Longrightarrow> Q v w1" by (auto simp: good_def)
    with assms(3)[OF w1(1)] assms(4)[OF w1(2) None] extends_mono[OF w1(2) assms(2)] assms(5) None mk call
    show ?thesis by (cases r1) (auto simp: lru_cached_def intro: extends_trans)
  qed (use w call in \<open>auto simp: lru_cached_def\<close>)
qed

section \<open>Every getter keeps the process wired\<close>

lemma lasting_slots [simp]:
  "lasting (\<lambda>_. True)"
  "lasting (\<lambda>w. me_registry w = Some i)" "lasting (\<lambda>w. me_http w = Some i)"
  "lasting (\<lambda>w. me_limiters w = Some i)" "lasting (\<lambda>w. me_settings w = Some s)"
  "lasting (\<lambda>w. me_validator w = Some v)" "lasting (\<lambda>w. me_config w = Some c)"
  "lasting (\<lambda>w. me_dispatcher w = Some d)" "lasting (\<lambda>w. me_engine w = Some E)"
  "lasting (\<lambda>w. me_execute w = Some X)"
  by (simp_all add: lasting_def extends_def kept_def)

lemma lasting_conj [simp]: "lasting P \<Longrightarrow> lasting Q \<Longrightarrow> lasting (\<lambda>w. P w \<and> Q w)"
  unfolding lasting_def by blast

lemma wired_slot_zero:
  "wired w \<Longrightarrow> me_registry w = Some i \<Longrightarrow> i = 0"
  "wired w \<Longrightarrow> me_limiters w = Some i \<Longrightarrow> i = 0"
  "wired w \<Longrightarrow> me_http w = Some i \<Longrightarrow> i = 0"
  by (auto simp: wired_def only_one_def)

lemma good_registry: "good 0 (\<lambda>_. True) wired_registry (\<lambda>v w. me_registry w = Some v)"
  by (auto simp: good_def wired_registry_def lru_cached_def extends_def wired_def only_one_def wired_for_def
      nothing_wired_def split: option.splits)

lemma good_limiters: "good 0 (\<lambda>_. True) wired_node_limiter_manager (\<lambda>v w. me_limiters w = Some v)"
  by (auto simp: good_def wired_node_limiter_manager_def lru_cached_def extends_def wired_def only_one_def
      wired_for_def nothing_wired_def split: option.splits)

lemma good_http: "good 0 (\<lambda>_. True) wired_http_client_manager (\<lambda>v w. me_http w = Some v)"
  by (auto simp: good_def wired_http_client_manager_def lru_cached_def extends_def wired_def only_one_def
      wired_for_def nothing_wired_def http_client_init_def client_inv_def split: option.splits sum.splits)

lemma good_settings: "good 0 (\<lambda>_. True) wired_settings (\<lambda>v w. me_settings w = Some v)"
  unfolding good_def
proof (intro allI impI)
  fix x w w' r
  assume w: "wired w" and call: "wired_settings x w = (w', r)"
  show "wired w' \<and> extends 0 w w' \<and> (\<forall>v. r = Inr v \<longrightarrow> me_settings w' = Some v)"
  proof (cases "me_settings w = None \<and> (\<exists>s. get_settings (su_loads x) (su_as_float x) (su_getenv x) = Inr s)")
    case True
    then obtain s where s: "me_settings w = None" "get_settings (su_loads x) (su_as_float x) (su_getenv x) = Inr s"
      by blast
    with call have "w' = w\<lparr>me_settings := Some s\<rparr>" "r = Inr s"
      by (auto simp: wired_settings_def lru_cached_def)
    moreover have "nothing_wired w" using w s(1) by (simp add: wired_def)
    ultimately show ?thesis using w s
      by (auto simp: wired_def wired_for_def nothing_wired_def extends_def)
  next
    case False
    with w call show ?thesis
      by (auto simp: wired_settings_def lru_cached_def split: option.splits sum.splits)
  qed
qed

lemma good_shared:
  "good n P wired_registry (\<lambda>v w. me_registry w = Some v)"
  "good n P wired_node_limiter_manager (\<lambda>v w. me_limiters w = Some v)"
  "good n P wired_http_client_manager (\<lambda>v w. me_http w = Some v)"
  "good n P wired_settings (\<lambda>v w. me_settings w = Some v)"
  by (rule good_mono[OF good_registry] good_mono[OF good_limiters] good_mono[OF good_http]
      good_mono[OF good_settings]; simp)+

lemmas good_steps = good_before lasting_slots lasting_conj good_shared

lemma good_validator: "good 1 (\<lambda>_. True) wired_ingress_validator (\<lambda>v w. me_validator w = Some v)"
  unfolding wired_ingress_validator_def
proof (rule good_lru_cached[where m = 0 and Q = "\<lambda>v w. \<exists>s. me_settings w = Some s \<and> me_registry w = Some 0 \<and> v = the_validator s"])
  show "good 0 (\<lambda>_. True) (before wired_settings (\<lambda>s. before wired_registry (\<lambda>r.
        given \<lparr>vo_validator = get_ingress_validator s, vo_registry = r\<rparr>)))
     (\<lambda>v w. \<exists>s. me_settings w = Some s \<and> me_registry w = Some 0 \<and> v = the_validator s)"
    by (rule good_steps | rule good_given)+
      (auto simp: the_validator_def dest: wired_slot_zero)
qed (auto simp: wired_def wired_for_def extends_def)

lemma good_config: "good 1 (\<lambda>_. True) wired_gate_dispatch_config (\<lambda>v w. me_config w = Some v)"
  unfolding wired_gate_dispatch_config_def
proof (rule good_lru_cached[where m = 0 and Q = "\<lambda>v w. \<exists>s. me_settings w = Some s \<and> v = get_gate_dispatch_config s"])
  show "good 0 (\<lambda>_. True) (before wired_settings (\<lambda>s. given (get_gate_dispatch_config s)))
     (\<lambda>v w. \<exists>s. me_settings w = Some s \<and> v = get_gate_dispatch_config s)"
    by (rule good_steps | rule good_given)+ auto
qed (auto simp: wired_def wired_for_def extends_def)

lemma good_from_1:
  "1 \<le> n \<Longrightarrow> good n P wired_ingress_validator (\<lambda>v w. me_validator w = Some v)"
  "1 \<le> n \<Longrightarrow> good n P wired_gate_dispatch_config (\<lambda>v w. me_config w = Some v)"
  by (rule good_mono[OF good_validator] good_mono[OF good_config]; simp)+

lemma wired_for_settings: "wired w \<Longrightarrow> me_settings w = Some s \<Longrightarrow> wired_for s w"
  by (simp add: wired_def)

lemma wired_config: "wired w \<Longrightarrow> me_settings w = Some s \<Longrightarrow> me_config w = Some c \<Longrightarrow> c = get_gate_dispatch_config s"
  by (drule (1) wired_for_settings) (simp add: wired_for_def)

lemma good_dispatcher: "good 2 (\<lambda>_. True) wired_dispatcher (\<lambda>v w. me_dispatcher w = Some v)"
  unfolding wired_dispatcher_def
proof (rule good_lru_cached[where m = 1 and Q = "\<lambda>v w. \<exists>s. me_settings w = Some s \<and> me_registry w = Some 0
      \<and> me_limiters w = Some 0 \<and> v = the_dispatcher s"])
  let ?body = "\<lambda>s r c l x. given (dispatcher_init (su_default_config x) (gs_local_node s) r (Some c) None None
           (Some Pooled_client) (Some l)) x"
  have last: "good 1 (\<lambda>w. (((True \<and> me_settings w = Some s) \<and> me_registry w = Some r) \<and> me_config w = Some c)
      \<and> me_limiters w = Some l) (?body s r c l)
      (\<lambda>v w. \<exists>s. me_settings w = Some s \<and> me_registry w = Some 0 \<and> me_limiters w = Some 0 \<and> v = the_dispatcher s)"
    for s r c l
    unfolding given_def
    by (rule good_pure) (auto simp: dispatcher_init_def the_dispatcher_def dest: wired_slot_zero wired_config)
  show "good 1 (\<lambda>_. True) (before wired_settings (\<lambda>s. before wired_registry (\<lambda>r.
        before wired_gate_dispatch_config (\<lambda>c. before wired_node_limiter_manager (?body s r c)))))
     (\<lambda>v w. \<exists>s. me_settings w = Some s \<and> me_registry w = Some 0 \<and> me_limiters w = Some 0 \<and> v = the_dispatcher s)"
    by (rule good_steps last | rule good_from_1, simp)+
qed (auto simp: wired_def wired_for_def extends_def)

lemma good_from_2: "2 \<le> n \<Longrightarrow> good n P wired_dispatcher (\<lambda>v w. me_dispatcher w = Some v)"
  by (rule good_mono[OF good_dispatcher]; simp)

lemma wired_dispatcher_slot: "wired w \<Longrightarrow> me_settings w = Some s \<Longrightarrow> me_dispatcher w = Some d \<Longrightarrow> d = the_dispatcher s"
  by (drule (1) wired_for_settings) (simp add: wired_for_def)

lemma engine_local_node: "workflow_engine_init defs l reg = Inr E \<Longrightarrow> we_local_node E = canon l"
  by (auto simp: workflow_engine_init_def rbind_Inr_iff Let_def)

definition the_engine :: "gate_settings \<Rightarrow> engine_object \<Rightarrow> bool" where
  "the_engine s E \<longleftrightarrow> eo_dispatcher E = the_dispatcher s \<and> eo_registry E = 0
     \<and> we_local_node (eo_engine E) = canon (gs_local_node s)"

lemma good_engine: "good 3 (\<lambda>_. True) wired_workflow_engine (\<lambda>v w. me_engine w = Some v)"
  unfolding wired_workflow_engine_def
proof (rule good_lru_cached[where m = 2 and Q = "\<lambda>v w. \<exists>s. me_settings w = Some s \<and> me_dispatcher w \<noteq> None \<and> the_engine s v"])
  let ?body = "\<lambda>s definitions d r x w. (w, rbind (workflow_engine_init definitions (gs_local_node s)
      (Some (wr_registries w ! r))) (\<lambda>E. Inr \<lparr>eo_engine = E, eo_dispatcher = d, eo_registry = r\<rparr>))"
  have last: "good 2 (\<lambda>w. (((True \<and> me_settings w = Some s) \<and> True) \<and> me_dispatcher w = Some d)
      \<and> me_registry w = Some r) (?body s definitions d r)
      (\<lambda>v w. \<exists>s. me_settings w = Some s \<and> me_dispatcher w \<noteq> None \<and> the_engine s v)" for s definitions d r
    by (rule good_pure, elim conjE, frule (1) wired_slot_zero(1), frule (2) wired_dispatcher_slot)
      (auto simp: the_engine_def rbind_Inr_iff dest: engine_local_node)
  have read: "good 2 P (read_workflow_definitions s) (\<lambda>_ _. True)" for P s
    unfolding read_workflow_definitions_def by (rule good_pure) simp
  show "good 2 (\<lambda>_. True) (before wired_settings (\<lambda>s. before (read_workflow_definitions s) (\<lambda>definitions.
      before wired_dispatcher (\<lambda>d. before wired_registry (?body s definitions d)))))
     (\<lambda>v w. \<exists>s. me_settings w = Some s \<and> me_dispatcher w \<noteq> None \<and> the_engine s v)"
    by (rule good_steps last read | rule good_from_2, simp)+
qed (auto simp: wired_def wired_for_def extends_def the_engine_def)

lemma good_from_3: "3 \<le> n \<Longrightarrow> good n P wired_workflow_engine (\<lambda>v w. me_engine w = Some v)"
  by (rule good_mono[OF good_engine]; simp)

lemma wired_validator_slot: "wired w \<Longrightarrow> me_settings w = Some s \<Longrightarrow> me_validator w = Some v \<Longrightarrow> v = the_validator s"
  by (drule (1) wired_for_settings) (simp add: wired_for_def)

definition the_execute :: "gate_settings \<Rightarrow> wiring \<Rightarrow> execute_object \<Rightarrow> bool" where
  "the_execute s w X \<longleftrightarrow> xo_validator X = the_validator s \<and> xo_dispatcher X = the_dispatcher s
     \<and> me_engine w = Some (xo_engine X) \<and> xo_registry X = 0 \<and> me_validator w \<noteq> None"

lemma good_execute: "good 4 (\<lambda>_. True) wired_execute_service (\<lambda>v w. me_execute w = Some v)"
  unfolding wired_execute_service_def
proof (rule good_lru_cached[where m = 3 and Q = "\<lambda>v w. \<exists>s. me_settings w = Some s \<and> the_execute s w v"])
  let ?body = "\<lambda>s v d E r x w. (w, rbind (exec_service_init (gs_local_node s) (gs_idempotency_ttl_seconds s)
      (gs_response_margin_ms s)) (\<lambda>service. Inr \<lparr>xo_service = service, xo_validator = v, xo_dispatcher = d,
          xo_engine = E, xo_registry = r\<rparr>))"
  have last: "good 3 (\<lambda>w. ((((True \<and> me_settings w = Some s) \<and> me_validator w = Some v) \<and> me_dispatcher w = Some d)
      \<and> me_engine w = Some E) \<and> me_registry w = Some r) (?body s v d E r)
      (\<lambda>v w. \<exists>s. me_settings w = Some s \<and> the_execute s w v)" for s v d E r
    by (rule good_pure, elim conjE, frule (1) wired_slot_zero(1), frule (2) wired_dispatcher_slot,
        frule (2) wired_validator_slot) (auto simp: the_execute_def rbind_Inr_iff)
  show "good 3 (\<lambda>_. True) (before wired_settings (\<lambda>s. before wired_ingress_validator (\<lambda>v.
      before wired_dispatcher (\<lambda>d. before wired_workflow_engine (\<lambda>E. before wired_registry (?body s v d E))))))
     (\<lambda>v w. \<exists>s. me_settings w = Some s \<and> the_execute s w v)"
    by (rule good_steps last | rule good_from_1 good_from_2 good_from_3, simp)+
qed (auto simp: wired_def wired_for_def extends_def the_execute_def)

lemma good_admission: "good 4 (\<lambda>_. True) wired_admission_service (\<lambda>v w. me_admission w = Some v)"
  unfolding wired_admission_service_def
proof (rule good_lru_cached[where m = 1 and Q = "\<lambda>v w. \<exists>s. me_settings w = Some s \<and> me_validator w \<noteq> None
    \<and> v = \<lparr>ao_local_node = canon (gs_local_node s), ao_validator = the_validator s, ao_registry = 0\<rparr>"])
  have last: "good 1 (\<lambda>w. ((True \<and> me_settings w = Some s) \<and> me_validator w = Some v) \<and> me_registry w = Some r)
      (given \<lparr>ao_local_node = canon (gs_local_node s), ao_validator = v, ao_registry = r\<rparr>)
      (\<lambda>v w. \<exists>s. me_settings w = Some s \<and> me_validator w \<noteq> None
         \<and> v = \<lparr>ao_local_node = canon (gs_local_node s), ao_validator = the_validator s, ao_registry = 0\<rparr>)" for s v r
    by (rule good_given) (auto dest: wired_slot_zero wired_validator_slot)
  show "good 1 (\<lambda>_. True) (before wired_settings (\<lambda>s. before wired_ingress_validator (\<lambda>v. before wired_registry (\<lambda>r.
        given \<lparr>ao_local_node = canon (gs_local_node s), ao_validator = v, ao_registry = r\<rparr>))))
      (\<lambda>v w. \<exists>s. me_settings w = Some s \<and> me_validator w \<noteq> None
         \<and> v = \<lparr>ao_local_node = canon (gs_local_node s), ao_validator = the_validator s, ao_registry = 0\<rparr>)"
    by (rule good_steps last | rule good_from_1, simp)+
qed (auto simp: wired_def wired_for_def extends_def)

lemma good_tokens:
  "good 0 (\<lambda>_. True) (before wired_settings (\<lambda>s. before wired_registry (\<lambda>r.
        given \<lparr>to_registry = r, to_admin_token = admin_token_init (gs_admin_token s)\<rparr>)))
     (\<lambda>v w. \<exists>s. me_settings w = Some s \<and> me_registry w = Some 0 \<and> v = the_tokens s)"
  by (rule good_steps | rule good_given)+ (auto simp: the_tokens_def dest: wired_slot_zero)

lemma good_admin: "good 4 (\<lambda>_. True) wired_admin_registration_service (\<lambda>v w. me_admin w = Some v)"
  unfolding wired_admin_registration_service_def
  by (rule good_lru_cached[OF good_tokens]) (auto simp: wired_def wired_for_def extends_def)

lemma good_capability: "good 4 (\<lambda>_. True) wired_capability_service (\<lambda>v w. me_capability w = Some v)"
  unfolding wired_capability_service_def
  by (rule good_lru_cached[OF good_tokens]) (auto simp: wired_def wired_for_def extends_def)

lemma good_query: "good 4 (\<lambda>_. True) wired_registry_query_service (\<lambda>v w. me_query w = Some v)"
  unfolding wired_registry_query_service_def
proof (rule good_lru_cached[where m = 0 and Q = "\<lambda>v w. v = 0 \<and> me_registry w = Some 0"])
  show "good 0 (\<lambda>_. True) (before wired_registry given) (\<lambda>v w. v = 0 \<and> me_registry w = Some 0)"
    by (rule good_steps | rule good_given)+ (auto dest: wired_slot_zero)
qed (auto simp: wired_def wired_for_def nothing_wired_def extends_def split: option.splits)

lemma good_workflow: "good 4 (\<lambda>_. True) wired_workflow_service (\<lambda>v w. me_workflow w = Some v)"
  unfolding wired_workflow_service_def
proof (rule good_lru_cached[where m = 3 and Q = "\<lambda>v w. me_engine w = Some v"])
  show "good 3 (\<lambda>_. True) (before wired_workflow_engine given) (\<lambda>v w. me_engine w = Some v)"
    by (rule good_steps | rule good_from_3, simp | rule good_given)+ auto
qed (auto simp: wired_def wired_for_def nothing_wired_def extends_def split: option.splits)

section \<open>What lru_cache promises\<close>

locale lru_getter =
  fixes slot :: "wiring \<Rightarrow> 'a option" and get :: "'a getter" and n :: nat
  assumes fills: "good n (\<lambda>_. True) get (\<lambda>v w. slot w = Some v)"
    and hit: "slot w = Some v \<Longrightarrow> get x w = (w, Inr v)"
    and lasts: "lasting (\<lambda>w. slot w = Some v)"
begin

lemma stays_wired: "wired w \<Longrightarrow> get x w = (w', r) \<Longrightarrow> wired w' \<and> extends n w w'"
  using fills by (auto simp: good_def)

lemma stays_wired_fst: "wired w \<Longrightarrow> wired (fst (get x w))"
  using stays_wired by (metis prod.collapse)

lemma answer_is_slot: "wired w \<Longrightarrow> get x w = (w', Inr v) \<Longrightarrow> slot w' = Some v"
  using fills by (auto simp: good_def)

lemma first_answer_stays:
  assumes "wired w" and "get x w = (w1, Inr v)" and "extends m w1 w2"
  shows "get y w2 = (w2, Inr v)"
proof (rule hit)
  from assms(1,2) have "slot w1 = Some v" by (rule answer_is_slot)
  with lasts assms(3) show "slot w2 = Some v" unfolding lasting_def by blast
qed

lemma failure_is_not_kept: "get x w = (w1, Inl e) \<Longrightarrow> slot w = None"
  using hit by (cases "slot w") auto

end

lemma lru_getterI:
  assumes "good n (\<lambda>_. True) get (\<lambda>v w. slot w = Some v)" and "get = lru_cached slot store build"
    and "\<And>v. lasting (\<lambda>w. slot w = Some v)"
  shows "lru_getter slot get n"
  using assms(1,3) by unfold_locales (simp_all add: assms(2) lru_cached_def)

lemma lasting_slots_4 [simp]:
  "lasting (\<lambda>w. me_admission w = Some a)" "lasting (\<lambda>w. me_admin w = Some t)"
  "lasting (\<lambda>w. me_query w = Some i)" "lasting (\<lambda>w. me_capability w = Some t)"
  "lasting (\<lambda>w. me_workflow w = Some E)"
  by (simp_all add: lasting_def extends_def kept_def)

interpretation the_registry: lru_getter me_registry wired_registry 0
  by (rule lru_getterI[OF good_registry wired_registry_def]) simp

interpretation the_http: lru_getter me_http wired_http_client_manager 0
  by (rule lru_getterI[OF good_http wired_http_client_manager_def]) simp

interpretation the_limiters: lru_getter me_limiters wired_node_limiter_manager 0
  by (rule lru_getterI[OF good_limiters wired_node_limiter_manager_def]) simp

interpretation the_settings: lru_getter me_settings wired_settings 0
  by (rule lru_getterI[OF good_settings wired_settings_def]) simp

interpretation validators: lru_getter me_validator wired_ingress_validator 1
  by (rule lru_getterI[OF good_validator wired_ingress_validator_def]) simp

interpretation configs: lru_getter me_config wired_gate_dispatch_config 1
  by (rule lru_getterI[OF good_config wired_gate_dispatch_config_def]) simp

interpretation dispatchers: lru_getter me_dispatcher wired_dispatcher 2
  by (rule lru_getterI[OF good_dispatcher wired_dispatcher_def]) simp

interpretation engines: lru_getter me_engine wired_workflow_engine 3
  by (rule lru_getterI[OF good_engine wired_workflow_engine_def]) simp

interpretation executes: lru_getter me_execute wired_execute_service 4
  by (rule lru_getterI[OF good_execute wired_execute_service_def]) simp

interpretation admissions: lru_getter me_admission wired_admission_service 4
  by (rule lru_getterI[OF good_admission wired_admission_service_def]) simp

interpretation admins: lru_getter me_admin wired_admin_registration_service 4
  by (rule lru_getterI[OF good_admin wired_admin_registration_service_def]) simp

interpretation queries: lru_getter me_query wired_registry_query_service 4
  by (rule lru_getterI[OF good_query wired_registry_query_service_def]) simp

interpretation capabilities: lru_getter me_capability wired_capability_service 4
  by (rule lru_getterI[OF good_capability wired_capability_service_def]) simp

interpretation workflows: lru_getter me_workflow wired_workflow_service 4
  by (rule lru_getterI[OF good_workflow wired_workflow_service_def]) simp

section \<open>Whatever is asked for, in whatever order\<close>

datatype component =
  Get_registry | Get_http_client | Get_node_limits | Get_settings | Get_validator | Get_config |
  Get_dispatcher | Get_engine | Get_execute | Get_admission | Get_admin | Get_query | Get_capability |
  Get_workflow

fun ask :: "component \<Rightarrow> surroundings \<Rightarrow> wiring \<Rightarrow> wiring" where
  "ask Get_registry x w = fst (wired_registry x w)"
| "ask Get_http_client x w = fst (wired_http_client_manager x w)"
| "ask Get_node_limits x w = fst (wired_node_limiter_manager x w)"
| "ask Get_settings x w = fst (wired_settings x w)"
| "ask Get_validator x w = fst (wired_ingress_validator x w)"
| "ask Get_config x w = fst (wired_gate_dispatch_config x w)"
| "ask Get_dispatcher x w = fst (wired_dispatcher x w)"
| "ask Get_engine x w = fst (wired_workflow_engine x w)"
| "ask Get_execute x w = fst (wired_execute_service x w)"
| "ask Get_admission x w = fst (wired_admission_service x w)"
| "ask Get_admin x w = fst (wired_admin_registration_service x w)"
| "ask Get_query x w = fst (wired_registry_query_service x w)"
| "ask Get_capability x w = fst (wired_capability_service x w)"
| "ask Get_workflow x w = fst (wired_workflow_service x w)"

text \<open>Between the calls the shared objects change.\<close>

datatype wiring_event =
  Ask component surroundings | Registry_becomes registry | Client_event client_event |
  Service_becomes exec_service

fun wiring_step :: "wiring \<Rightarrow> wiring_event \<Rightarrow> wiring" where
  "wiring_step w (Ask c x) = ask c x w"
| "wiring_step w (Registry_becomes nodes) = w\<lparr>wr_registries := (wr_registries w)[0 := nodes]\<rparr>"
| "wiring_step w (Client_event e) = w\<lparr>wr_http := map (\<lambda>m. client_step m e) (wr_http w)\<rparr>"
| "wiring_step w (Service_becomes service) =
     (case me_execute w of None \<Rightarrow> w | Some X \<Rightarrow> w\<lparr>me_execute := Some (X\<lparr>xo_service := service\<rparr>)\<rparr>)"

lemma wired_ask: "wired w \<Longrightarrow> wired (ask c x w)"
  by (cases c) (simp_all add: the_registry.stays_wired_fst the_http.stays_wired_fst
      the_limiters.stays_wired_fst the_settings.stays_wired_fst validators.stays_wired_fst
      configs.stays_wired_fst dispatchers.stays_wired_fst engines.stays_wired_fst
      executes.stays_wired_fst admissions.stays_wired_fst admins.stays_wired_fst
      queries.stays_wired_fst capabilities.stays_wired_fst workflows.stays_wired_fst)

lemma wired_init: "wired wiring_init"
  by (simp add: wired_def wiring_init_def only_one_def nothing_wired_def)

lemma only_one_changed [simp]:
  "only_one i (xs[k := v]) \<longleftrightarrow> only_one i xs" "only_one i (map f xs) \<longleftrightarrow> only_one i xs"
  by (simp_all add: only_one_def split: option.splits)

lemma wired_for_frame [simp]:
  "wired_for s (w\<lparr>wr_registries := rs\<rparr>) \<longleftrightarrow> wired_for s w" "wired_for s (w\<lparr>wr_http := hs\<rparr>) \<longleftrightarrow> wired_for s w"
  "nothing_wired (w\<lparr>wr_registries := rs\<rparr>) \<longleftrightarrow> nothing_wired w" "nothing_wired (w\<lparr>wr_http := hs\<rparr>) \<longleftrightarrow> nothing_wired w"
  by (simp_all add: wired_for_def nothing_wired_def)

lemma wired_service:
  assumes "wired w" and "me_execute w = Some X"
  shows "wired (w\<lparr>me_execute := Some (X\<lparr>xo_service := service\<rparr>)\<rparr>)"
proof -
  obtain s where "me_settings w = Some s" "wired_for s w"
    using assms by (auto simp: wired_def nothing_wired_def split: option.splits)
  moreover from this(2) assms(2) have "wired_for s (w\<lparr>me_execute := Some (X\<lparr>xo_service := service\<rparr>)\<rparr>)"
    by (auto simp: wired_for_def)
  ultimately show ?thesis using assms(1) by (simp add: wired_def)
qed

lemma wired_step: "wired w \<Longrightarrow> wired (wiring_step w e)"
proof (induction w e rule: wiring_step.induct)
  case (2 w nodes)
  then show ?case by (simp add: wired_def split: option.splits)
next
  case (3 w e)
  then show ?case by (simp add: wired_def list_all_iff client_inv_step split: option.splits)
next
  case (4 w service)
  then show ?case by (cases "me_execute w") (simp_all add: wired_service)
qed (simp add: wired_ask)

lemma wired_history: "wired (foldl wiring_step wiring_init events)"
  by (induction events rule: rev_induct) (simp_all add: wired_init wired_step)

text \<open>Every reference that some service holds.\<close>

definition held_engines :: "wiring \<Rightarrow> engine_object set" where
  "held_engines w = set_option (me_engine w) \<union> set_option (me_workflow w) \<union> xo_engine ` set_option (me_execute w)"

definition held_dispatchers :: "wiring \<Rightarrow> gate_dispatcher set" where
  "held_dispatchers w = set_option (me_dispatcher w) \<union> eo_dispatcher ` held_engines w
     \<union> xo_dispatcher ` set_option (me_execute w)"

definition held_validators :: "wiring \<Rightarrow> validator_object set" where
  "held_validators w = set_option (me_validator w) \<union> xo_validator ` set_option (me_execute w)
     \<union> ao_validator ` set_option (me_admission w)"

definition registry_refs :: "wiring \<Rightarrow> nat set" where
  "registry_refs w = dp_registry ` held_dispatchers w \<union> (fst \<circ> dp_resolver) ` held_dispatchers w
     \<union> vo_registry ` held_validators w \<union> eo_registry ` held_engines w
     \<union> xo_registry ` set_option (me_execute w) \<union> ao_registry ` set_option (me_admission w)
     \<union> to_registry ` set_option (me_admin w) \<union> to_registry ` set_option (me_capability w)
     \<union> set_option (me_query w)"

lemma wired_nothing: "wired w \<Longrightarrow> me_settings w = None \<Longrightarrow> nothing_wired w"
  by (simp add: wired_def)

lemma held_nothing:
  "nothing_wired w \<Longrightarrow> held_engines w = {} \<and> held_dispatchers w = {} \<and> held_validators w = {}"
  by (simp add: nothing_wired_def held_engines_def held_dispatchers_def held_validators_def)

lemma held_when_wired:
  assumes "wired w" and "me_settings w = Some s"
  shows "held_engines w \<subseteq> set_option (me_engine w)"
    and "held_dispatchers w \<subseteq> {the_dispatcher s} \<inter> set_option (me_dispatcher w)"
    and "held_validators w \<subseteq> {the_validator s} \<inter> set_option (me_validator w)"
proof -
  note w = wired_for_settings[OF assms, unfolded wired_for_def]
  show e: "held_engines w \<subseteq> set_option (me_engine w)"
    using w by (auto simp: held_engines_def elem_set)
  have d: "me_dispatcher w = Some (the_dispatcher s)" if "me_dispatcher w \<noteq> None" using w that by blast
  have v: "me_validator w = Some (the_validator s)" if "me_validator w \<noteq> None" using w that by blast
  have E: "eo_dispatcher E = the_dispatcher s \<and> me_dispatcher w \<noteq> None" if "E \<in> held_engines w" for E
  proof -
    from e that have "me_engine w = Some E" by (auto simp: elem_set)
    with w show ?thesis by blast
  qed
  have X: "xo_dispatcher X = the_dispatcher s \<and> xo_validator X = the_validator s \<and> xo_engine X \<in> held_engines w
      \<and> me_validator w \<noteq> None" if "me_execute w = Some X" for X
    using w that by (simp add: held_engines_def)
  have A: "ao_validator A = the_validator s \<and> me_validator w \<noteq> None" if "me_admission w = Some A" for A
    using w that by blast
  show "held_dispatchers w \<subseteq> {the_dispatcher s} \<inter> set_option (me_dispatcher w)"
    unfolding held_dispatchers_def using d E X by (fastforce simp: elem_set)
  show "held_validators w \<subseteq> {the_validator s} \<inter> set_option (me_validator w)"
    unfolding held_validators_def using v X A by (fastforce simp: elem_set)
qed

lemma registry_refs_wired:
  assumes "wired w" and "r \<in> registry_refs w"
  shows "me_registry w = Some 0 \<and> r = 0"
proof (cases "me_settings w")
  case None
  with assms(1) have "nothing_wired w" by (rule wired_nothing)
  moreover from this have "r \<in> set_option (me_query w)"
    using assms(2) held_nothing by (auto simp: registry_refs_def nothing_wired_def)
  ultimately show ?thesis using assms(1) by (auto simp: wired_def)
next
  case (Some s)
  note w = wired_for_settings[OF assms(1) Some, unfolded wired_for_def]
  note held = held_when_wired[OF assms(1) Some]
  have e: "eo_registry E = 0 \<and> me_registry w = Some 0" if "E \<in> held_engines w" for E
    using subsetD[OF held(1) that] w by (auto simp: elem_set)
  have d: "dp_registry d = 0 \<and> fst (dp_resolver d) = 0 \<and> me_registry w = Some 0" if "d \<in> held_dispatchers w" for d
    using subsetD[OF held(2) that] w by (auto simp: elem_set the_dispatcher_def)
  have v: "vo_registry v = 0 \<and> me_registry w = Some 0" if "v \<in> held_validators w" for v
    using subsetD[OF held(3) that] w by (auto simp: elem_set the_validator_def)
  have x: "xo_registry X = 0 \<and> me_registry w = Some 0" if "me_execute w = Some X" for X
    using w that by auto
  have a: "ao_registry A = 0 \<and> me_registry w = Some 0" if "me_admission w = Some A" for A
    using w that by auto
  have t: "to_registry T = 0 \<and> me_registry w = Some 0" if "me_admin w = Some T" for T
    using w that by (auto simp: the_tokens_def)
  have p: "to_registry T = 0 \<and> me_registry w = Some 0" if "me_capability w = Some T" for T
    using w that by (auto simp: the_tokens_def)
  have q: "i = 0 \<and> me_registry w = Some 0" if "me_query w = Some i" for i
    using assms(1) that by (simp add: wired_def)
  show ?thesis using assms(2) unfolding registry_refs_def
    by (elim UnE imageE) (auto dest: e d v x a t p q)
qed

text \<open>
  C26. Services share what they should. Whichever getters are called, in whatever order, in
  whatever surroundings and however the shared objects change in between: the process
  makes one registry at most, and every dispatcher, resolver, validator, engine and
  service refers to it; every dispatcher, validator and engine that something holds is
  the one that its getter remembers, and dispatchers and validators are those of the
  settings that were read first.
\<close>

theorem services_share_one_registry:
  assumes "w = foldl wiring_step wiring_init events"
  shows "length (wr_registries w) \<le> 1
    \<and> (\<forall>r \<in> registry_refs w. me_registry w = Some r \<and> r < length (wr_registries w))
    \<and> held_engines w \<subseteq> set_option (me_engine w)
    \<and> held_dispatchers w \<subseteq> the_dispatcher ` set_option (me_settings w) \<inter> set_option (me_dispatcher w)
    \<and> held_validators w \<subseteq> the_validator ` set_option (me_settings w) \<inter> set_option (me_validator w)"
proof -
  have w: "wired w" unfolding assms by (rule wired_history)
  then have one: "length (wr_registries w) \<le> 1" "\<And>i. me_registry w = Some i \<Longrightarrow> i < length (wr_registries w)"
    by (auto simp: wired_def only_one_def split: option.splits)
  have "me_registry w = Some r \<and> r < length (wr_registries w)" if "r \<in> registry_refs w" for r
    using registry_refs_wired[OF w that] one(2) by simp
  moreover have "held_engines w \<subseteq> set_option (me_engine w)
    \<and> held_dispatchers w \<subseteq> the_dispatcher ` set_option (me_settings w) \<inter> set_option (me_dispatcher w)
    \<and> held_validators w \<subseteq> the_validator ` set_option (me_settings w) \<inter> set_option (me_validator w)"
  proof (cases "me_settings w")
    case None
    with wired_nothing[OF w] held_nothing show ?thesis by auto
  next
    case (Some s)
    with held_when_wired[OF w Some] show ?thesis by auto
  qed
  ultimately show ?thesis using one(1) by blast
qed

definition sample_surroundings :: surroundings where
  "sample_surroundings =
     \<lparr>su_getenv = signing_env ''s3cret'', su_loads = sample_loads, su_as_float = sample_float,
      su_read_file = (\<lambda>_. None), su_typed = (\<lambda>_. None),
      su_default_config = (\<lambda>n. \<lparr>dc_local_gate_node = n, dc_require_signature = False, dc_signing_key = None,
        dc_signing_key_id = None, dc_signing_algorithm = None, dc_verify_response_signatures = False,
        dc_verifying_keys = [], dc_verify_hop_signatures = False\<rparr>),
      su_read_yaml = (\<lambda>_. raise ValueError []), su_typed_node = (\<lambda>_ _. None)\<rparr>"

definition sample_events :: "wiring_event list" where
  "sample_events = [Ask Get_http_client sample_surroundings, Client_event Startup, Ask Get_settings sample_surroundings,
     Ask Get_dispatcher sample_surroundings, Registry_becomes [], Ask Get_admin sample_surroundings]"

lemma sample_process:
  "\<exists>d m. me_dispatcher (foldl wiring_step wiring_init sample_events) = Some d
     \<and> wr_http (foldl wiring_step wiring_init sample_events) = [m] \<and> hc_client m = Some 0"
  by (simp add: sample_events_def sample_surroundings_def wiring_init_def lru_cached_def before_def given_def
      wired_http_client_manager_def http_client_init_def http_startup_def wired_settings_def signing_settings
      wired_dispatcher_def wired_registry_def wired_gate_dispatch_config_def wired_node_limiter_manager_def
      wired_admin_registration_service_def)

theorem services_share_one_registry_witness:
  "\<exists>w d. w = foldl wiring_step wiring_init sample_events \<and> me_dispatcher w = Some d
     \<and> me_registry w = Some (dp_registry d)"
proof -
  let ?w = "foldl wiring_step wiring_init sample_events"
  from sample_process obtain d where d: "me_dispatcher ?w = Some d" by blast
  then have "dp_registry d \<in> registry_refs ?w" by (simp add: registry_refs_def held_dispatchers_def)
  with services_share_one_registry[OF refl, of sample_events] have "me_registry ?w = Some (dp_registry d)" by blast
  with d show ?thesis by blast
qed

section \<open>The transport of a dispatch\<close>

lemma call_provider_any [simp]: "call_provider y p = wired_pooled_client y"
  by (cases p) (simp add: fun_eq_iff)

lemma good_pooled_client: "good 0 (\<lambda>_. True) wired_pooled_client (\<lambda>_ _. True)"
  unfolding wired_pooled_client_def by (rule good_steps | rule good_pure)+ simp

lemma client_keeps:
  "wired w \<Longrightarrow> resolve_transport (call_provider y) d w = (w', r) \<Longrightarrow> wired w' \<and> extends 0 w w'"
  using good_pooled_client
  by (auto simp: resolve_transport_def resolve_client_def good_def split: option.splits prod.splits)

lemma dispatch_transport:
  assumes w: "wired w" and d1: "wired_dispatcher x w = (w1, Inr d)"
    and t: "resolve_transport (call_provider y) d w1 = (w2, r)"
  obtains s m where "me_settings w2 = Some s" "wr_http w2 = [m]" "client_inv m"
    "r = Inr (Made (get_gate_dispatch_config s) (hc_client m))" "me_http w \<noteq> None \<longrightarrow> wr_http w = [m]"
proof -
  have w1: "wired w1" "extends 2 w w1" "me_dispatcher w1 = Some d"
    using dispatchers.stays_wired[OF w d1] dispatchers.answer_is_slot[OF w d1] by simp_all
  then obtain s where s: "me_settings w1 = Some s"
    using wired_nothing[OF w1(1)] by (cases "me_settings w1") (auto simp: nothing_wired_def)
  have d: "d = the_dispatcher s" using wired_dispatcher_slot[OF w1(1) s w1(3)] .
  obtain w3 h where h: "wired_http_client_manager y w1 = (w3, h)" by fastforce
  have w3: "wired w3" "extends 0 w1 w3" using the_http.stays_wired[OF w1(1) h] by simp_all
  obtain i where i: "h = Inr i"
    using h by (auto simp: wired_http_client_manager_def lru_cached_def http_client_init_def split: option.splits)
  have "me_http w3 = Some i" using the_http.answer_is_slot[OF w1(1) h[unfolded i]] .
  with w3(1) obtain m where m: "wr_http w3 = [m]" "i = 0" "client_inv m"
    by (auto simp: wired_def only_one_def length_Suc_conv)
  have "w2 = w3 \<and> r = Inr (Made (get_gate_dispatch_config s) (hc_client m))"
    using t h i m
    by (auto simp: resolve_transport_def resolve_client_def d the_dispatcher_def wired_pooled_client_def before_def
        pooled_client_def http_started_def http_get_client_def split: option.splits)
  moreover have "me_settings w3 = Some s" using w3(2) s by (simp add: extends_def kept_def)
  moreover have "me_http w \<noteq> None \<longrightarrow> wr_http w = [m]"
    using w1(2) w3(2) m(1) by (simp add: extends_def kept_def)
  ultimately show ?thesis using that m by blast
qed



section \<open>The application over the wiring\<close>

text \<open>
  The application and the dispatcher share both managers, whenever the module was imported
  and whatever was asked for before; so the shutdown of the application closes the client
  that the dispatches use, and hands out none afterwards.
\<close>

lemma create_app_holds:
  assumes "wired w" and "create_app x w = (w1, r)"
  obtains a where "r = Inr a" "wired w1" "ga_client a = 0" "ga_limiters a = 0"
    "me_http w1 = Some 0" "me_limiters w1 = Some 0" "as_services (ga_state a) = []"
proof -
  obtain w2 h where h: "wired_http_client_manager x w = (w2, h)" by fastforce
  obtain i where i: "h = Inr i"
    using h by (auto simp: wired_http_client_manager_def lru_cached_def http_client_init_def split: option.splits)
  have w2: "wired w2" "me_http w2 = Some i"
    using the_http.stays_wired[OF assms(1) h] the_http.answer_is_slot[OF assms(1) h[unfolded i]] by simp_all
  obtain w3 g where g: "wired_node_limiter_manager x w2 = (w3, g)" by fastforce
  obtain l where l: "g = Inr l"
    using g by (auto simp: wired_node_limiter_manager_def lru_cached_def split: option.splits)
  have w3: "wired w3" "me_limiters w3 = Some l" "extends 0 w2 w3"
    using the_limiters.stays_wired[OF w2(1) g] the_limiters.answer_is_slot[OF w2(1) g[unfolded l]] by simp_all
  then have "me_http w3 = Some i" using w2(2) by (simp add: extends_def kept_def)
  moreover from this w3 have "i = 0" "l = 0" by (auto simp: wired_def only_one_def)
  ultimately show ?thesis
    using that assms(2) h i g l w3
    by (auto simp: create_app_def before_def given_def attach_runtime_def app_state_init_def)
qed

lemma shutdown_closes_the_dispatch_client:
  assumes "wired w" and "me_http w \<noteq> None" and "ga_client a = 0"
    and "app_shutdown a monitor w = (w1, monitor')"
    and "wired_dispatcher x w1 = (w2, Inr d)" and "resolve_transport (call_provider y) d w2 = (w3, r)"
  shows "\<exists>s. r = Inr (Made (get_gate_dispatch_config s) None)"
proof -
  from assms(1,2) obtain m where m: "wr_http w = [m]" "client_inv m"
    by (auto simp: wired_def only_one_def length_Suc_conv)
  have w1: "w1 = w\<lparr>wr_http := [http_shutdown m]\<rparr>" using assms(3,4) m(1) by (simp add: app_shutdown_def)
  have inv: "client_inv (http_shutdown m)" using client_inv_step[OF m(2), of Shutdown] by simp
  have "wired w1" using assms(1) inv m(1)
    by (simp add: w1 wired_def only_one_def split: option.splits)
  from dispatch_transport[OF this assms(5,6)] obtain s m' where
    "r = Inr (Made (get_gate_dispatch_config s) (hc_client m'))" "me_http w1 \<noteq> None \<longrightarrow> wr_http w1 = [m']"
    by blast
  moreover from this(2) assms(2) have "hc_client m' = None"
    by (auto simp: w1 http_shutdown_def split: option.splits)
  ultimately show ?thesis by auto
qed

section \<open>The route over the wiring\<close>

text \<open>Once the service is there, the wired route does what \<open>execute_route\<close> does with the
  settings and the registry of the process.\<close>

lemma wired_route_is_route:
  assumes "wired w" and "wired_execute_service x w = (w1, Inr X)" and "require_object b = Inr b"
  shows "\<exists>s. me_settings w1 = Some s \<and>
    (case execute_route S V s (wr_registries w1 ! 0) c t (C (the_dispatcher s) (eo_engine (xo_engine X))) ended
            (Inr b) (xo_service X) u of
       (service', u', reply) \<Rightarrow> wired_execute_route S V c t C ended (Inr b) x w u
         = (w1\<lparr>me_execute := Some (X\<lparr>xo_service := service'\<rparr>)\<rparr>, u', reply))"
proof -
  have w1: "wired w1" "me_execute w1 = Some X"
    using executes.stays_wired[OF assms(1,2)] executes.answer_is_slot[OF assms(1,2)] by simp_all
  then obtain s where s: "me_settings w1 = Some s"
    using wired_nothing[OF w1(1)] by (cases "me_settings w1") (auto simp: nothing_wired_def)
  with w1 have X: "xo_validator X = the_validator s" "xo_dispatcher X = the_dispatcher s"
    using wired_for_settings by (auto simp: wired_for_def)
  have sign: "wired_sign_gate_response S p x (w1\<lparr>me_execute := E\<rparr>)
      = (w1\<lparr>me_execute := E\<rparr>, sign_gate_response S s p)" for p E
    using s the_settings.hit[of "w1\<lparr>me_execute := E\<rparr>" s]
    by (simp add: wired_sign_gate_response_def before_def)
  show ?thesis
    using assms(2,3) s X sign
    by (auto simp: wired_execute_route_def execute_route_def the_validator_def before_def Let_def
        split: prod.splits sum.splits)
qed

text \<open>
  The workflow configuration is read by the first request and not at startup. The lifespan
  does not look at it; with a configuration that does not load, every execute request is
  refused and no collaborator is called, and the next request tries again.
\<close>

lemma before_cong: "(\<And>w. g x w = g' x' w) \<Longrightarrow> (\<And>v w. f v x w = f' v x' w) \<Longrightarrow> before g f x w = before g' f' x' w"
  by (simp add: before_def split: prod.splits sum.splits)

lemma startup_skips_workflow_config:
  "wired_startup i (x\<lparr>su_read_file := file\<rparr>) w = wired_startup i x w"
proof -
  have s: "wired_settings (x\<lparr>su_read_file := file\<rparr>) w = wired_settings x w" for w
    by (cases "me_settings w") (simp_all add: wired_settings_def lru_cached_def)
  have r: "wired_registry (x\<lparr>su_read_file := file\<rparr>) w = wired_registry x w" for w
    by (cases "me_registry w") (simp_all add: wired_registry_def lru_cached_def)
  show ?thesis
    unfolding wired_startup_def wired_load_static_registry_def wired_health_monitor_def
    by (intro before_cong) (auto simp: s r given_def intro!: before_cong)
qed

lemma wiring_cannot_fail:
  assumes "me_settings w = Some s"
  shows "\<exists>w' v. wired_ingress_validator x w = (w', Inr v)"
    and "\<exists>w' d. wired_dispatcher x w = (w', Inr d)"
  using assms
  by (auto simp: wired_ingress_validator_def wired_dispatcher_def wired_settings_def wired_registry_def
      wired_gate_dispatch_config_def wired_node_limiter_manager_def lru_cached_def before_def given_def
      split: option.splits)

lemma engine_needs_workflow_config:
  assumes "wired w" and "me_settings w = Some s" and "me_engine w = None"
    and "snd (read_workflow_definitions s x w) = Inl e"
  shows "wired_workflow_engine x w = (w, Inl e)"
  using assms(2-4) the_settings.hit[OF assms(2), of x]
  by (simp add: wired_workflow_engine_def lru_cached_def before_def read_workflow_definitions_def)

lemma bad_workflow_config_fails_requests:
  assumes "wired w" and "me_settings w = Some s" and "me_engine w = None"
    and "snd (read_workflow_definitions s x w) = Inl e" and "require_object b = Inr b"
    and "wired_execute_route S V c t C ended (Inr b) x w u = (w', u', reply)"
  shows "u' = u \<and> reply = http_outcome (Inl e) \<and> me_engine w' = None \<and> me_execute w' = None"
proof -
  have none: "me_execute w = None"
    using wired_for_settings[OF assms(1,2)] assms(3) by (cases "me_execute w") (auto simp: wired_for_def)
  obtain w1 v where w1: "wired_ingress_validator x w = (w1, Inr v)"
    using wiring_cannot_fail(1)[OF assms(2)] by blast
  with validators.stays_wired[OF assms(1) w1] assms(2,3) none
  have v: "wired w1" "me_settings w1 = Some s" "me_engine w1 = None" "me_execute w1 = None"
    by (simp_all add: extends_def kept_def)
  obtain w2 d where w2: "wired_dispatcher x w1 = (w2, Inr d)"
    using wiring_cannot_fail(2)[OF v(2)] by blast
  with dispatchers.stays_wired[OF v(1) w2] v
  have d: "wired w2" "me_settings w2 = Some s" "me_engine w2 = None" "me_execute w2 = None"
    by (simp_all add: extends_def kept_def)
  have "snd (read_workflow_definitions s x w2) = Inl e"
    using assms(4) by (simp add: read_workflow_definitions_def)
  from engine_needs_workflow_config[OF d(1-3) this] w1 w2 none the_settings.hit[OF assms(2), of x]
  have "wired_execute_service x w = (w2, Inl e)"
    by (simp add: wired_execute_service_def lru_cached_def before_def)
  with assms(5,6) d show ?thesis by (auto simp: wired_execute_route_def)
qed

end
