(* ===== verification/Maintenance.thy ===== *)
theory Maintenance
  imports Api
begin

text \<open>
  The maintenance scripts: the check of the declared SDK channel
  (\<open>src/scripts/validate_sdk_pin.py\<close>), the export of a registry file
  (\<open>scripts/migrate_registry.py\<close>), the check before a deployment
  (\<open>scripts/predeploy_check.py\<close>) and the check of the packet schema
  (\<open>scripts/validate_contracts.py\<close>). Files are given by their content, \<open>None\<close> for a
  missing one; \<open>git\<close>, the file system and the import of a module are arguments. A
  message is kept without the values it interpolates.
\<close>

section \<open>The declared SDK channel\<close>

definition MAJOR_TAG :: string where
  "MAJOR_TAG = ''v1''"

definition CANONICAL_REPO :: string where
  "CANONICAL_REPO = ''Quantum-L9/Gate_SDK''"

definition CANONICAL_REMOTE :: string where
  "CANONICAL_REMOTE = ''https://github.com/'' @ CANONICAL_REPO @ ''.git''"

definition FORBIDDEN_FORK :: string where
  "FORBIDDEN_FORK = ''cryptoxdog/Gate_SDK''"

definition FORBIDDEN_BRANCHES :: "string list" where
  "FORBIDDEN_BRANCHES = [''main'', ''master'']"

definition MANIFESTS :: "string list" where
  "MANIFESTS = [''constellation-gate/pyproject.toml'', ''constellation-gate/.pre-commit-config.yaml'']"

definition LOCK :: string where
  "LOCK = ''constellation-gate/requirements.lock''"

definition code_in :: "nat \<Rightarrow> nat \<Rightarrow> char \<Rightarrow> bool" where
  "code_in a b c = (let n = (of_char c :: nat) in a \<le> n \<and> n \<le> b)"

definition is_hex :: "char \<Rightarrow> bool" where
  "is_hex c = (code_in 48 57 c \<or> code_in 97 102 c)"

text \<open>\<open>SHA_RE.fullmatch\<close>; the word boundaries hold at the ends of the whole string.\<close>

definition sha_fullmatch :: "string \<Rightarrow> bool" where
  "sha_fullmatch s = (length s = 40 \<and> list_all is_hex s)"

definition ref_char :: "char \<Rightarrow> bool" where
  "ref_char c = (code_in 48 57 c \<or> code_in 65 90 c \<or> code_in 97 122 c \<or> c \<in> set ''._/-'')"

text \<open>
  \<open>MANIFEST_REF_RE\<close> at the head of a string: the ref it captures, and what follows. The
  expression is deterministic: after the name comes a dot or an at sign.
\<close>

definition manifest_ref_at :: "string \<Rightarrow> (string \<times> string) option" where
  "manifest_ref_at s =
     (if \<not> startswith s ''Gate_SDK'' then None
      else
        (let t = drop 8 s; u = (if startswith t ''.git'' then drop 4 t else t)
         in if \<not> startswith u ''@'' \<or> takeWhile ref_char (tl u) = [] then None
            else Some (takeWhile ref_char (tl u), dropWhile ref_char (tl u))))"

lemma manifest_ref_shorter:
  assumes "manifest_ref_at s = Some (r, rest)"
  shows "length rest < length s"
proof -
  define u where "u = (if startswith (drop 8 s) ''.git'' then drop 4 (drop 8 s) else drop 8 s)"
  from assms have u: "startswith u ''@''" and rest: "rest = dropWhile ref_char (tl u)"
    by (auto simp: manifest_ref_at_def Let_def u_def[symmetric] split: if_splits)
  from u have "length (tl u) < length u" by (cases u) auto
  moreover have "length u \<le> length s" by (simp add: u_def)
  ultimately show ?thesis using length_dropWhile_le[of ref_char "tl u"] unfolding rest by linarith
qed

function manifest_refs :: "string \<Rightarrow> string list" where
  "manifest_refs s =
     (case s of
        [] \<Rightarrow> []
      | c # cs \<Rightarrow>
          (case manifest_ref_at s of
             Some (r, rest) \<Rightarrow> r # manifest_refs rest
           | None \<Rightarrow> manifest_refs cs))"
  by pat_completeness auto
termination
  by (relation "measure length") (auto dest: manifest_ref_shorter)

declare manifest_refs.simps [simp del]

text \<open>\<open>LOCK_ARCHIVE_RE\<close> at the head of a string: the object it names.\<close>

definition lock_archive_at :: "string \<Rightarrow> string option" where
  "lock_archive_at s =
     (let p = ''constellation-node-sdk @ https://github.com/'' @ CANONICAL_REPO @ ''/archive/'';
          t = drop (length p) s; u = drop 40 t; v = drop 7 u; w = dropWhile is_space v; d = take 64 (drop 14 w)
      in if startswith s p \<and> sha_fullmatch (take 40 t) \<and> startswith u ''.tar.gz''
            \<and> v \<noteq> w \<and> startswith w ''--hash=sha256:'' \<and> length d = 64 \<and> list_all is_hex d
         then Some (take 40 t) else None)"

fun lock_resolution :: "string \<Rightarrow> string option" where
  "lock_resolution [] = None"
| "lock_resolution (c # s) =
     (case lock_archive_at (c # s) of Some sha \<Rightarrow> Some sha | None \<Rightarrow> lock_resolution s)"

datatype pin_error =
    Forbidden_fork string
  | No_declaration string
  | Declared_by_sha string string
  | Floats_on_branch string string
  | Wrong_ref string string
  | Missing_repo string
  | No_archive string
  | Missing_file string
  | Unresolved_tag
  | Nothing_to_compare
  | Stale_lock string string
  | Refused_remote

definition ref_errors :: "string \<Rightarrow> string \<Rightarrow> pin_error list" where
  "ref_errors rel r =
     (if r = MAJOR_TAG then []
      else if sha_fullmatch r then [Declared_by_sha rel r]
      else if r \<in> set FORBIDDEN_BRANCHES then [Floats_on_branch rel r]
      else [Wrong_ref rel r])"

definition check_manifest :: "string \<Rightarrow> string \<Rightarrow> pin_error list" where
  "check_manifest rel text =
     (let fork = (if substr_in FORBIDDEN_FORK text then [Forbidden_fork rel] else []);
          refs = manifest_refs text
      in if refs = [] then fork @ [No_declaration rel]
         else fork @ concat (map (ref_errors rel) refs)
           @ (if \<not> substr_in CANONICAL_REPO text then [Missing_repo rel] else []))"

definition check_lock :: "string \<Rightarrow> string \<Rightarrow> pin_error list" where
  "check_lock rel text =
     (if substr_in FORBIDDEN_FORK text then [Forbidden_fork rel]
      else if lock_resolution text = None then [No_archive rel] else [])"

definition check_tree :: "(string \<Rightarrow> string option) \<Rightarrow> pin_error list" where
  "check_tree files =
     concat (map (\<lambda>rel. case files rel of
        None \<Rightarrow> [Missing_file rel] | Some text \<Rightarrow> check_manifest rel text) MANIFESTS)
     @ (case files LOCK of None \<Rightarrow> [Missing_file LOCK] | Some text \<Rightarrow> check_lock LOCK text)"

text \<open>\<open>dirs\<close> is the resolved path of a directory, \<open>None\<close> for anything else.\<close>

definition safe_remote :: "(string \<Rightarrow> string option) \<Rightarrow> string \<Rightarrow> string res" where
  "safe_remote dirs remote =
     (if remote = CANONICAL_REMOTE then Inr CANONICAL_REMOTE
      else if remote = [] \<or> startswith remote ''-'' then raise ValueError ''a remote must not begin with -''
      else case dirs remote of
             None \<Rightarrow> raise ValueError ''not canonical and not a local repository''
           | Some path \<Rightarrow> Inr path)"

text \<open>\<open>str.splitlines\<close>; carriage return and line feed together are one boundary.\<close>

definition line_break :: "char \<Rightarrow> bool" where
  "line_break c = (code_in 10 13 c \<or> code_in 28 30 c \<or> c = char_of (133 :: nat))"

fun splitlines_from :: "string \<Rightarrow> string \<Rightarrow> string list" where
  "splitlines_from acc [] = (if acc = [] then [] else [rev acc])"
| "splitlines_from acc [c] = (if line_break c then [rev acc] else [rev (c # acc)])"
| "splitlines_from acc (c # d # s) =
     (if c = CHR 0x0D \<and> d = CHR 0x0A then rev acc # splitlines_from [] s
      else if line_break c then rev acc # splitlines_from [] (d # s)
      else splitlines_from (c # acc) (d # s))"

definition splitlines :: "string \<Rightarrow> string list" where
  "splitlines s = splitlines_from [] s"

text \<open>\<open>line.partition(tab)\<close> without its middle.\<close>

definition partition_tab :: "string \<Rightarrow> string \<times> string" where
  "partition_tab line =
     (takeWhile (\<lambda>c. c \<noteq> CHR 0x09) line, tl (dropWhile (\<lambda>c. c \<noteq> CHR 0x09) line))"

definition peeled_name :: "string \<Rightarrow> string" where
  "peeled_name tag = ''refs/tags/'' @ tag @ [CHR 0x5E, CHR 0x7B, CHR 0x7D]"

fun scan_refs :: "string \<Rightarrow> string option \<Rightarrow> string option \<Rightarrow> string list \<Rightarrow> string option \<times> string option" where
  "scan_refs tag peeled direct [] = (peeled, direct)"
| "scan_refs tag peeled direct (line # ls) =
     (let (sha, name) = partition_tab line
      in if name = peeled_name tag then scan_refs tag (Some (strip sha)) direct ls
         else if name = ''refs/tags/'' @ tag then scan_refs tag peeled (Some (strip sha)) ls
         else scan_refs tag peeled direct ls)"

text \<open>\<open>git args\<close> is the stripped output of the program, or the \<open>RuntimeError\<close> of a failure.\<close>

definition ls_remote_args :: "string \<Rightarrow> string \<Rightarrow> string list" where
  "ls_remote_args remote tag =
     [''ls-remote'', ''--tags'', ''--end-of-options'', remote, ''refs/tags/'' @ tag]"

definition resolve_remote_tag ::
  "(string list \<Rightarrow> string res) \<Rightarrow> (string \<Rightarrow> string option) \<Rightarrow> string \<Rightarrow> string \<Rightarrow> string option res" where
  "resolve_remote_tag git dirs remote tag =
     (case rbind (safe_remote dirs remote) (\<lambda>r. git (ls_remote_args r tag)) of
        Inl e \<Rightarrow> if isinstance e RuntimeError then Inr None else Inl e
      | Inr output \<Rightarrow>
          (let (peeled, direct) = scan_refs tag None None (splitlines output)
           in Inr (if str_or peeled [] \<noteq> [] then peeled else direct)))"

definition compare_lock_to_tag :: "string option \<Rightarrow> string option \<Rightarrow> pin_error list" where
  "compare_lock_to_tag resolved tag_sha =
     (case tag_sha of
        None \<Rightarrow> [Unresolved_tag]
      | Some t \<Rightarrow>
          (case resolved of
             None \<Rightarrow> [Nothing_to_compare]
           | Some r \<Rightarrow> if r \<noteq> t then [Stale_lock r t] else []))"

text \<open>\<open>main\<close>: what it reports; the exit code is 1 when it reports anything.\<close>

definition pin_errors ::
  "bool \<Rightarrow> (string \<Rightarrow> string option) \<Rightarrow> (string list \<Rightarrow> string res) \<Rightarrow> (string \<Rightarrow> string option) \<Rightarrow>
     pin_error list res" where
  "pin_errors verify_tag files git dirs =
     (let errors = check_tree files
      in if \<not> verify_tag then Inr errors
         else
           (let resolved = (case files LOCK of None \<Rightarrow> None | Some text \<Rightarrow> lock_resolution text)
            in case resolve_remote_tag git dirs CANONICAL_REMOTE MAJOR_TAG of
                 Inl e \<Rightarrow> if isinstance e ValueError then Inr (errors @ [Refused_remote]) else Inl e
               | Inr tag_sha \<Rightarrow> Inr (errors @ compare_lock_to_tag resolved tag_sha)))"

definition pin_exit_code ::
  "bool \<Rightarrow> (string \<Rightarrow> string option) \<Rightarrow> (string list \<Rightarrow> string res) \<Rightarrow> (string \<Rightarrow> string option) \<Rightarrow> int res" where
  "pin_exit_code verify_tag files git dirs =
     rbind (pin_errors verify_tag files git dirs) (\<lambda>errors. Inr (if errors = [] then 0 else 1))"

section \<open>The export of a registry file\<close>

text \<open>\<open>d[k]\<close> and \<open>d.get(k, default)\<close> with a string key, and \<open>tuple(v)\<close>.\<close>

definition pd_item :: "(pyval \<times> pyval) list \<Rightarrow> string \<Rightarrow> pyval res" where
  "pd_item d k = (case pd_get d (PyStr k) of None \<Rightarrow> raise KeyError k | Some v \<Rightarrow> Inr v)"

definition pd_or :: "(pyval \<times> pyval) list \<Rightarrow> string \<Rightarrow> pyval \<Rightarrow> pyval" where
  "pd_or d k v = opt_or (pd_get d (PyStr k)) v"

definition py_iter :: "pyval \<Rightarrow> pyval list res" where
  "py_iter v =
     (case v of
        PyList vs \<Rightarrow> Inr vs
      | PyTuple vs \<Rightarrow> Inr vs
      | PyStr s \<Rightarrow> Inr (map (\<lambda>c. PyStr [c]) s)
      | PyDict d \<Rightarrow> Inr (map fst d)
      | _ \<Rightarrow> raise TypeError ''object is not iterable'')"

definition load_registry_yaml :: "pyval res \<Rightarrow> (pyval \<times> pyval) list res" where
  "load_registry_yaml document =
     rbind document (\<lambda>v. case v of
        PyDict d \<Rightarrow> Inr d | _ \<Rightarrow> raise ValueError ''registry yaml must be a mapping'')"

text \<open>The keyword arguments of one registration; \<open>typed\<close> is pydantic's conversion of them.\<close>

definition export_fields :: "(pyval \<times> pyval) list \<Rightarrow> payload res" where
  "export_fields config =
     rbind (pd_item config ''internal_url'') (\<lambda>url.
     rbind (pd_item config ''supported_actions'') (\<lambda>actions.
     rbind (py_iter actions) (\<lambda>acts.
       Inr [(''internal_url'', url), (''supported_actions'', PyTuple acts),
            (''priority_class'', pd_or config ''priority_class'' (PyStr ''P2'')),
            (''max_concurrent'', pd_or config ''max_concurrent'' (PyInt 50)),
            (''health_endpoint'', pd_or config ''health_endpoint'' (PyStr ''/v1/health'')),
            (''timeout_ms'', pd_or config ''timeout_ms'' (PyInt 30000)),
            (''metadata'', pd_or config ''metadata'' (PyDict []))])))"

definition export_registration ::
  "(string \<Rightarrow> payload \<Rightarrow> node option) \<Rightarrow> pyval \<Rightarrow> pyval \<Rightarrow> (string \<times> node) res" where
  "export_registration typed name config =
     (case config of
        PyDict d \<Rightarrow>
          rbind (export_fields d) (\<lambda>fields.
            case name of
              PyStr n \<Rightarrow>
                (case typed n fields of
                   None \<Rightarrow> raise ValidationError ''NodeRegistration''
                 | Some r \<Rightarrow> rbind (node_registration r) (\<lambda>r'. Inr (n, r')))
            | _ \<Rightarrow> raise ValidationError ''NodeRegistration'')
      | _ \<Rightarrow> raise ValueError ''node config must be a mapping'')"

fun export_nodes ::
  "(string \<Rightarrow> payload \<Rightarrow> node option) \<Rightarrow> registry \<Rightarrow> (pyval \<times> pyval) list \<Rightarrow> registry res" where
  "export_nodes typed nodes [] = Inr nodes"
| "export_nodes typed nodes ((name, config) # rest) =
     rbind (export_registration typed name config) (\<lambda>(n, r).
       case register_node nodes n r False of
         (nodes', Inl e) \<Rightarrow> Inl e
       | (nodes', Inr u) \<Rightarrow> export_nodes typed nodes' rest)"

definition build_registry ::
  "(string \<Rightarrow> payload \<Rightarrow> node option) \<Rightarrow> (pyval \<times> pyval) list \<Rightarrow> registry res" where
  "build_registry typed pl =
     (case pd_or pl ''nodes'' (PyDict []) of
        PyDict nodes \<Rightarrow> export_nodes typed registry_init nodes
      | _ \<Rightarrow> raise ValueError ''nodes must be a mapping'')"

text \<open>\<open>main\<close>: the snapshot that is written, its keys sorted.\<close>

definition exported_snapshot ::
  "(string \<Rightarrow> payload \<Rightarrow> node option) \<Rightarrow> pyval res \<Rightarrow> registry res" where
  "exported_snapshot typed document =
     rbind (load_registry_yaml document) (\<lambda>pl.
     rbind (build_registry typed pl) (\<lambda>nodes. Inr (sort_key fst (registry_snapshot nodes))))"

section \<open>The check before a deployment\<close>

definition REQUIRED_ENV :: "string list" where
  "REQUIRED_ENV = [''GATE_LOCAL_NODE'']"

definition REQUIRED_FILES :: "string list" where
  "REQUIRED_FILES = [''pyproject.toml'', ''src/constellation_gate/api/main.py'',
     ''src/constellation_gate/config/node_registry.yaml'',
     ''src/constellation_gate/config/priorities.yaml'',
     ''src/constellation_gate/config/workflows.yaml'']"

definition REQUIRED_MODULES :: "string list" where
  "REQUIRED_MODULES = [''constellation_gate.api.main'', ''constellation_gate.services.execute_service'',
     ''constellation_gate.routing.dispatch'']"

definition validate_env :: "environ \<Rightarrow> string list" where
  "validate_env getenv =
     map (\<lambda>name. ''missing env var: '' @ name) (filter (\<lambda>name. \<not> truthy_str (getenv name)) REQUIRED_ENV)"

definition validate_files :: "(string \<Rightarrow> bool) \<Rightarrow> string list" where
  "validate_files exists =
     map (\<lambda>name. ''missing required file: '' @ name) (filter (\<lambda>name. \<not> exists name) REQUIRED_FILES)"

text \<open>\<open>imported\<close> is the outcome of importing a module; what is not an \<open>Exception\<close> passes through.\<close>

fun import_problems :: "(string \<Rightarrow> unit res) \<Rightarrow> string list \<Rightarrow> string list res" where
  "import_problems imported [] = Inr []"
| "import_problems imported (m # ms) =
     (case imported m of
        Inr u \<Rightarrow> import_problems imported ms
      | Inl e \<Rightarrow>
          if is_exception e
          then rbind (import_problems imported ms) (\<lambda>ps. Inr ((''failed to import '' @ m) # ps))
          else Inl e)"

definition validate_imports :: "(string \<Rightarrow> unit res) \<Rightarrow> string list res" where
  "validate_imports imported = import_problems imported REQUIRED_MODULES"

definition predeploy_problems ::
  "environ \<Rightarrow> (string \<Rightarrow> bool) \<Rightarrow> (string \<Rightarrow> unit res) \<Rightarrow> string list res" where
  "predeploy_problems getenv exists imported =
     rbind (validate_imports imported) (\<lambda>imports.
       Inr (validate_env getenv @ validate_files exists @ imports))"

definition predeploy_exit_code ::
  "environ \<Rightarrow> (string \<Rightarrow> bool) \<Rightarrow> (string \<Rightarrow> unit res) \<Rightarrow> int res" where
  "predeploy_exit_code getenv exists imported =
     rbind (predeploy_problems getenv exists imported) (\<lambda>ps. Inr (if ps = [] then 0 else 1))"

section \<open>The packet schema\<close>

definition CANONICAL_ID :: string where
  "CANONICAL_ID = ''https://constellation.local/contracts/transport-packet.schema.json''"

definition REQUIRED_TOP_LEVEL_FIELDS :: "string list" where
  "REQUIRED_TOP_LEVEL_FIELDS = [''header'', ''address'', ''tenant'', ''payload'', ''security'', ''governance'',
     ''provenance'', ''delegation_chain'', ''hop_trace'', ''lineage'', ''attachments'']"

definition ACTION_PATTERN :: string where
  "ACTION_PATTERN = [CHR 0x5E] @ ''[a-z0-9][a-z0-9-]'' @ [CHR 0x7B] @ ''0,63'' @ [CHR 0x7D, CHR 0x24]"

text \<open>\<open>v.get(k, default)\<close> on a JSON value; only an object has \<open>get\<close>. Other classes than Gate's
  are \<open>OtherException\<close>.\<close>

definition py_get :: "pyval \<Rightarrow> string \<Rightarrow> pyval \<Rightarrow> pyval res" where
  "py_get v k dflt =
     (case v of PyDict d \<Rightarrow> Inr (pd_or d k dflt) | _ \<Rightarrow> raise OtherException ''AttributeError'')"

fun py_path :: "pyval \<Rightarrow> string list \<Rightarrow> pyval res" where
  "py_path v [] = Inr v"
| "py_path v (k # ks) = rbind (py_get v k (PyDict [])) (\<lambda>w. py_path w ks)"

definition py_item :: "pyval \<Rightarrow> string \<Rightarrow> pyval res" where
  "py_item v k =
     (case v of PyDict d \<Rightarrow> pd_item d k | _ \<Rightarrow> raise TypeError ''indices must be integers'')"

definition has_enum :: "pyval \<Rightarrow> bool res" where
  "has_enum v = py_in (PyStr ''enum'') v"

fun str_members :: "pyval list \<Rightarrow> string list" where
  "str_members [] = []"
| "str_members (PyStr s # vs) = s # str_members vs"
| "str_members (v # vs) = str_members vs"

definition enum_members :: "pyval \<Rightarrow> string list res" where
  "enum_members v = rbind (py_item v ''enum'') (\<lambda>e. rbind (py_iter e) (\<lambda>vs. Inr (str_members vs)))"

fun with_enum :: "pyval list \<Rightarrow> pyval list res" where
  "with_enum [] = Inr []"
| "with_enum (b # bs) =
     rbind (has_enum b) (\<lambda>h. rbind (with_enum bs) (\<lambda>rest. Inr (if h then b # rest else rest)))"

text \<open>\<open>_enum_values\<close>: the members in the order they are met; the code collects them in a set.\<close>

definition enum_values :: "pyval \<Rightarrow> string list option res" where
  "enum_values dfn =
     rbind (has_enum dfn) (\<lambda>h.
       if h then rbind (enum_members dfn) (\<lambda>ms. Inr (Some ms))
       else rbind (py_get dfn ''anyOf'' (PyList [])) (\<lambda>any_of.
            rbind (py_iter any_of) (\<lambda>bs.
            rbind (with_enum bs) (\<lambda>branches.
              if branches = [] then Inr None
              else rbind (rmap enum_members branches) (\<lambda>mss. Inr (Some (concat mss)))))))"

definition check_enum :: "string \<Rightarrow> pyval \<Rightarrow> string list \<Rightarrow> string list res" where
  "check_enum label dfn expected =
     rbind (enum_values dfn) (\<lambda>values.
       case values of
         None \<Rightarrow> Inr [label @ '' must have enum constraint'']
       | Some vs \<Rightarrow> if set vs \<noteq> set expected then Inr [label @ '' enum drift''] else Inr [])"

text \<open>
  \<open>set(schema.get("required", []))\<close>, and \<open>sorted\<close> on what is not expected, which raises
  when it meets two values that have no order.
\<close>

definition sortable :: "pyval list \<Rightarrow> bool" where
  "sortable vs =
     (length (remdups vs) \<le> 1 \<or> list_all (\<lambda>v. case v of PyStr s \<Rightarrow> True | _ \<Rightarrow> False) vs
      \<or> list_all (\<lambda>v. as_num v \<noteq> None) vs)"

definition check_required :: "pyval \<Rightarrow> string list res" where
  "check_required schema =
     rbind (py_get schema ''required'' (PyList [])) (\<lambda>v.
     rbind (py_iter v) (\<lambda>required.
       if \<not> list_all hashable required then unhashable
       else
         (let missing = filter (\<lambda>f. \<not> list_ex (py_eq (PyStr f)) required) REQUIRED_TOP_LEVEL_FIELDS;
              extra = filter (\<lambda>r. \<not> list_ex (\<lambda>f. py_eq (PyStr f) r) REQUIRED_TOP_LEVEL_FIELDS) required
          in if \<not> sortable extra then raise TypeError ''not supported between instances''
             else Inr ((if missing \<noteq> [] then [''missing required top-level fields''] else [])
                    @ (if extra \<noteq> [] then [''unexpected required top-level fields''] else [])))))"

definition SIGNATURE_ALGORITHMS :: "string list" where
  "SIGNATURE_ALGORITHMS = [''hmac-sha256'', ''ed25519'']"

definition check_status :: "pyval \<Rightarrow> string list res" where
  "check_status dfn =
     rbind (enum_values dfn) (\<lambda>values.
       case values of
         None \<Rightarrow> Inr [''hop_trace.items.status must have enum constraint'']
       | Some vs \<Rightarrow> if vs = [] then Inr [''hop_trace.items.status enum must not be empty''] else Inr [])"

text \<open>The body of the script after the schema was read: what fails, in order.\<close>

definition contract_failures :: "pyval \<Rightarrow> string list res" where
  "contract_failures schema =
     rbind (py_get schema [CHR 0x24, CHR ''i'', CHR ''d''] PyNone) (\<lambda>ident.
     rbind (py_get schema ''additionalProperties'' PyNone) (\<lambda>additional.
     rbind (check_required schema) (\<lambda>required.
     rbind (py_path schema [''properties'', ''header'', ''properties'', ''action'']) (\<lambda>action_def.
     rbind (py_get action_def ''pattern'' PyNone) (\<lambda>pattern.
     rbind (py_path schema [''properties'', ''security'', ''properties'', ''signature_algorithm'']) (\<lambda>sig_alg.
     rbind (check_enum ''security.signature_algorithm'' sig_alg SIGNATURE_ALGORITHMS) (\<lambda>algorithm.
     rbind (py_path schema [''properties'', ''hop_trace'', ''items'', ''properties'', ''status'']) (\<lambda>status_def.
     rbind (check_status status_def) (\<lambda>hop_status.
     rbind (py_path schema
         [''properties'', ''hop_trace'', ''items'', ''properties'', ''hop_signature_algorithm'']) (\<lambda>hop_sig_alg.
     rbind (check_enum ''hop_trace.items.hop_signature_algorithm'' hop_sig_alg SIGNATURE_ALGORITHMS) (\<lambda>hop_algorithm.
       Inr ((if py_eq ident (PyStr CANONICAL_ID) then [] else [''id mismatch''])
          @ (if additional = PyBool False then [] else [''top-level additionalProperties must be false''])
          @ required
          @ (if py_eq pattern (PyStr ACTION_PATTERN) then [] else [''header.action missing pattern constraint''])
          @ algorithm @ hop_status @ hop_algorithm))))))))))))"

text \<open>The whole script: \<open>None\<close> is a file that does not exist, \<open>Some None\<close> one that is not JSON.\<close>

definition contract_exit_code :: "pyval option option \<Rightarrow> int res" where
  "contract_exit_code file =
     (case file of
        Some (Some schema) \<Rightarrow>
          rbind (contract_failures schema) (\<lambda>failures. Inr (if failures = [] then 0 else 1))
      | _ \<Rightarrow> Inr 1)"

section \<open>What the checks establish\<close>

text \<open>What a manifest declares when nothing is reported of it.\<close>

definition declares_channel :: "string \<Rightarrow> bool" where
  "declares_channel text \<longleftrightarrow> set (manifest_refs text) = {MAJOR_TAG} \<and> substr_in CANONICAL_REPO text
     \<and> \<not> substr_in FORBIDDEN_FORK text"

definition locks_archive :: "string \<Rightarrow> bool" where
  "locks_archive text \<longleftrightarrow> \<not> substr_in FORBIDDEN_FORK text \<and> (\<exists>sha. lock_resolution text = Some sha)"

lemma ref_errors_Nil: "ref_errors rel r = [] \<longleftrightarrow> r = MAJOR_TAG"
  by (simp add: ref_errors_def)

lemma set_is_singleton: "set xs = {v} \<longleftrightarrow> xs \<noteq> [] \<and> (\<forall>x \<in> set xs. x = v)"
  by (cases xs) auto

lemma check_manifest_Nil: "check_manifest rel text = [] \<longleftrightarrow> declares_channel text"
  by (auto simp: check_manifest_def declares_channel_def set_is_singleton ref_errors_Nil Let_def)

lemma check_lock_Nil: "check_lock rel text = [] \<longleftrightarrow> locks_archive text"
  by (auto simp: check_lock_def locks_archive_def)

lemma check_tree_Nil:
  "check_tree files = [] \<longleftrightarrow>
     (\<forall>rel \<in> set MANIFESTS. \<exists>text. files rel = Some text \<and> declares_channel text)
     \<and> (\<exists>text. files LOCK = Some text \<and> locks_archive text)"
  by (auto simp: check_tree_def check_manifest_Nil check_lock_Nil split: option.splits)

text \<open>A line of the output of \<open>git\<close> that names a tag, peeled or not.\<close>

definition names_tag :: "string \<Rightarrow> string \<Rightarrow> string \<Rightarrow> bool" where
  "names_tag tag line sha \<longleftrightarrow> strip (fst (partition_tab line)) = sha
     \<and> snd (partition_tab line) \<in> {peeled_name tag, ''refs/tags/'' @ tag}"

lemma scan_refs_named:
  assumes "scan_refs tag p d ls = (p', d')"
  shows "(p' = p \<or> (\<exists>sha. p' = Some sha \<and> (\<exists>line \<in> set ls. names_tag tag line sha)))
    \<and> (d' = d \<or> (\<exists>sha. d' = Some sha \<and> (\<exists>line \<in> set ls. names_tag tag line sha)))"
  using assms
proof (induction ls arbitrary: p d)
  case (Cons line ls)
  obtain sha name where pt: "partition_tab line = (sha, name)" by fastforce
  let ?p = "if name = peeled_name tag then Some (strip sha) else p"
  let ?d = "if name \<noteq> peeled_name tag \<and> name = ''refs/tags/'' @ tag then Some (strip sha) else d"
  have "scan_refs tag ?p ?d ls = (p', d')" using Cons.prems pt by (auto split: if_splits)
  note IH = Cons.IH[OF this]
  have new: "?p = p \<or> ?p = Some (strip sha) \<and> names_tag tag line (strip sha)"
    "?d = d \<or> ?d = Some (strip sha) \<and> names_tag tag line (strip sha)"
    by (simp_all add: names_tag_def pt)
  show ?case
  proof (intro conjI)
    show "p' = p \<or> (\<exists>sha. p' = Some sha \<and> (\<exists>line \<in> set (line # ls). names_tag tag line sha))"
      using conjunct1[OF IH] new(1) by (metis list.set_intros(1) list.set_intros(2))
    show "d' = d \<or> (\<exists>sha. d' = Some sha \<and> (\<exists>line \<in> set (line # ls). names_tag tag line sha))"
      using conjunct2[OF IH] new(2) by (metis list.set_intros(1) list.set_intros(2))
  qed
qed simp

lemma resolved_tag_named:
  assumes "resolve_remote_tag git dirs CANONICAL_REMOTE tag = Inr (Some sha)"
  shows "\<exists>out. git (ls_remote_args CANONICAL_REMOTE tag) = Inr out
    \<and> (\<exists>line \<in> set (splitlines out). names_tag tag line sha)"
proof (cases "git (ls_remote_args CANONICAL_REMOTE tag)")
  case (Inl e)
  with assms show ?thesis by (auto simp: resolve_remote_tag_def safe_remote_def split: if_splits)
next
  case (Inr out)
  obtain p d where pd: "scan_refs tag None None (splitlines out) = (p, d)" by fastforce
  with assms Inr have "p = Some sha \<or> d = Some sha"
    by (auto simp: resolve_remote_tag_def safe_remote_def split: if_splits)
  with scan_refs_named[OF pd] Inr show ?thesis by auto
qed


text \<open>A repository that passes, for the examples.\<close>

definition sample_lock :: string where
  "sample_lock = ''constellation-node-sdk @ https://github.com/Quantum-L9/Gate_SDK/archive/''
     @ replicate 40 CHR ''a'' @ ''.tar.gz --hash=sha256:'' @ replicate 64 CHR ''0''"

definition sample_files :: "string \<Rightarrow> string option" where
  "sample_files rel =
     Some (if rel = LOCK then sample_lock else ''git+https://github.com/Quantum-L9/Gate_SDK.git@v1'')"

definition sample_git :: "string list \<Rightarrow> string res" where
  "sample_git args = Inr (replicate 40 CHR ''a'' @ [CHR 0x09] @ ''refs/tags/v1'')"

lemma sample_files_pass:
  "declares_channel ''git+https://github.com/Quantum-L9/Gate_SDK.git@v1''"
  "lock_resolution sample_lock = Some (replicate 40 CHR ''a'')" "\<not> substr_in FORBIDDEN_FORK sample_lock"
proof -
  have "manifest_refs ''git+https://github.com/Quantum-L9/Gate_SDK.git@v1'' = [MAJOR_TAG]" by code_simp
  moreover have "substr_in CANONICAL_REPO ''git+https://github.com/Quantum-L9/Gate_SDK.git@v1''
      \<and> \<not> substr_in FORBIDDEN_FORK ''git+https://github.com/Quantum-L9/Gate_SDK.git@v1''" by code_simp
  ultimately show "declares_channel ''git+https://github.com/Quantum-L9/Gate_SDK.git@v1''"
    by (simp add: declares_channel_def)
  show "lock_resolution sample_lock = Some (replicate 40 CHR ''a'')" by code_simp
  show "\<not> substr_in FORBIDDEN_FORK sample_lock" by code_simp
qed


lemma lock_archive_object: "lock_archive_at s = Some sha \<Longrightarrow> sha_fullmatch sha"
  by (auto simp: lock_archive_at_def Let_def split: if_splits)

lemma lock_resolution_object: "lock_resolution s = Some sha \<Longrightarrow> sha_fullmatch sha"
  by (induction s) (auto dest: lock_archive_object split: option.splits)

text \<open>
  The expression for a declaration does not look at what precedes the name: a manifest
  that installs the SDK from any other account passes, if a comment names the canonical
  repository.
\<close>

lemma other_account_passes:
  "check_manifest rel ''# Quantum-L9/Gate_SDK: sdk @ git+https://github.com/somebody/Gate_SDK.git@v1'' = []"
  unfolding check_manifest_Nil declares_channel_def by code_simp

subsection \<open>The export\<close>

text \<open>
  The registry loader reads a mapping from names to nodes; the export looks for them
  under a key \<open>nodes\<close>. A document that Gate loads is exported as an empty registry.
\<close>

lemma export_loses_loadable_registry:
  assumes "load_from_yaml typed nodes (PyDict raw) = (loaded, Inr ())" and "pd_get raw (PyStr ''nodes'') = None"
  shows "exported_snapshot typed' (Inr (PyDict raw)) = Inr []"
  using assms(2)
  by (simp add: exported_snapshot_def load_registry_yaml_def build_registry_def pd_or_def registry_init_def
      registry_snapshot_def)

text \<open>What it does export went through the validators and the ownership check.\<close>

lemma export_nodes_keeps:
  assumes "export_nodes typed nodes entries = Inr nodes'" and "registry_wf nodes" and "registry_owned nodes"
  shows "registry_wf nodes' \<and> registry_owned nodes'"
  using assms
proof (induction entries arbitrary: nodes)
  case (Cons entry rest)
  obtain name config where entry: "entry = (name, config)" by fastforce
  with Cons.prems(1) obtain n r where e: "export_registration typed name config = Inr (n, r)"
    by (auto simp: rbind_Inr_iff)
  obtain nodes1 x where reg: "register_node nodes n r False = (nodes1, x)" by fastforce
  with Cons.prems(1) entry e have x: "x = Inr ()" and more: "export_nodes typed nodes1 rest = Inr nodes'"
    by (auto split: sum.splits)
  from e obtain t where "node_registration t = Inr r"
    by (cases config; cases name) (auto simp: export_registration_def rbind_Inr_iff split: option.splits)
  from node_registration_wf[OF this] have wf: "wf_node (canon (node_name t)) r" .
  have "registry_wf nodes1" using register_node_wf[OF Cons.prems(2) wf, of n False] reg by simp
  moreover have "registry_owned nodes1" by (rule register_node_owned[OF Cons.prems(2,3) wf reg[unfolded x]])
  ultimately show ?case using Cons.IH[OF more] by simp
qed simp

lemma export_is_owned:
  assumes "build_registry typed pl = Inr nodes"
  shows "registry_wf nodes \<and> registry_owned nodes"
proof -
  have "registry_owned registry_init" by (simp add: registry_owned_def registry_init_def)
  with assms export_nodes_keeps show ?thesis
    by (auto simp: build_registry_def split: pyval.splits)
qed

subsection \<open>The schema\<close>

lemma py_get_path: "py_get v k (PyDict []) = Inr w \<Longrightarrow> py_path v [k] = Inr w"
  by simp

definition exact_enum :: "pyval \<Rightarrow> string list \<Rightarrow> string list \<Rightarrow> bool" where
  "exact_enum schema path members \<longleftrightarrow>
     (\<exists>d vs. py_path schema path = Inr d \<and> enum_values d = Inr (Some vs) \<and> set vs = set members)"

lemma check_enum_Nil: "check_enum label d expected = Inr [] \<longleftrightarrow>
    (\<exists>vs. enum_values d = Inr (Some vs) \<and> set vs = set expected)"
  by (auto simp: check_enum_def rbind_Inr_iff split: option.splits if_splits)

lemma check_status_Nil: "check_status d = Inr [] \<longleftrightarrow> (\<exists>vs. enum_values d = Inr (Some vs) \<and> vs \<noteq> [])"
proof (cases "enum_values d")
  case (Inr x)
  then show ?thesis by (cases x) (simp_all add: check_status_def)
qed (simp add: check_status_def)

lemma py_eq_str: "py_eq (PyStr f) v \<longleftrightarrow> v = PyStr f"
  by (cases v) auto

lemma py_eq_str_right: "py_eq v (PyStr f) \<longleftrightarrow> v = PyStr f"
  by (cases v) (auto simp: num_eq_def)

lemma check_required_Nil:
  "check_required schema = Inr [] \<longleftrightarrow>
     (\<exists>v rs. py_get schema ''required'' (PyList []) = Inr v \<and> py_iter v = Inr rs
        \<and> set rs = PyStr ` set REQUIRED_TOP_LEVEL_FIELDS)"
proof -
  have "list_all hashable rs" if "set rs = PyStr ` set REQUIRED_TOP_LEVEL_FIELDS" for rs
    using that by (auto simp: list_all_iff)
  moreover have "filter (\<lambda>f. \<not> list_ex (py_eq (PyStr f)) rs) REQUIRED_TOP_LEVEL_FIELDS = []
      \<and> filter (\<lambda>r. \<not> list_ex (\<lambda>f. py_eq (PyStr f) r) REQUIRED_TOP_LEVEL_FIELDS) rs = []
      \<longleftrightarrow> set rs = PyStr ` set REQUIRED_TOP_LEVEL_FIELDS" for rs
    by (auto simp: filter_empty_conv list_ex_iff py_eq_str simp del: py_eq.simps)
  moreover have "sortable []" by (simp add: sortable_def)
  moreover have "check_required schema = Inr [] \<longleftrightarrow>
     (\<exists>v rs. py_get schema ''required'' (PyList []) = Inr v \<and> py_iter v = Inr rs \<and> list_all hashable rs
        \<and> filter (\<lambda>f. \<not> list_ex (py_eq (PyStr f)) rs) REQUIRED_TOP_LEVEL_FIELDS = []
        \<and> filter (\<lambda>r. \<not> list_ex (\<lambda>f. py_eq (PyStr f) r) REQUIRED_TOP_LEVEL_FIELDS) rs = [])"
    using \<open>sortable []\<close>
    by (auto simp: check_required_def rbind_Inr_iff Let_def unhashable_def simp del: py_eq.simps split: if_splits)
  ultimately show ?thesis by blast
qed

text \<open>
  The check of the packet schema passes exactly if the schema has the canonical id, is
  closed, requires exactly the eleven parts of a packet, fixes the pattern of an action,
  and lists exactly the two algorithms of packet and hop signatures; of the hop status
  it asks only for some enumeration.
\<close>

theorem schema_check_exact:
  "contract_exit_code (Some (Some schema)) = Inr 0 \<longleftrightarrow>
     py_get schema [CHR 0x24, CHR ''i'', CHR ''d''] PyNone = Inr (PyStr CANONICAL_ID)
     \<and> py_get schema ''additionalProperties'' PyNone = Inr (PyBool False)
     \<and> (\<exists>v rs. py_get schema ''required'' (PyList []) = Inr v \<and> py_iter v = Inr rs
          \<and> set rs = PyStr ` set REQUIRED_TOP_LEVEL_FIELDS)
     \<and> (\<exists>d. py_path schema [''properties'', ''header'', ''properties'', ''action''] = Inr d
          \<and> py_get d ''pattern'' PyNone = Inr (PyStr ACTION_PATTERN))
     \<and> exact_enum schema [''properties'', ''security'', ''properties'', ''signature_algorithm''] SIGNATURE_ALGORITHMS
     \<and> (\<exists>d vs. py_path schema [''properties'', ''hop_trace'', ''items'', ''properties'', ''status''] = Inr d
          \<and> enum_values d = Inr (Some vs) \<and> vs \<noteq> [])
     \<and> exact_enum schema [''properties'', ''hop_trace'', ''items'', ''properties'', ''hop_signature_algorithm'']
         SIGNATURE_ALGORITHMS"
proof -
  have "contract_exit_code (Some (Some schema)) = Inr 0 \<longleftrightarrow> contract_failures schema = Inr []"
    by (auto simp: contract_exit_code_def rbind_Inr_iff)
  also have "\<dots> \<longleftrightarrow>
     py_get schema [CHR 0x24, CHR ''i'', CHR ''d''] PyNone = Inr (PyStr CANONICAL_ID)
     \<and> py_get schema ''additionalProperties'' PyNone = Inr (PyBool False)
     \<and> check_required schema = Inr []
     \<and> (\<exists>d. py_path schema [''properties'', ''header'', ''properties'', ''action''] = Inr d
          \<and> py_get d ''pattern'' PyNone = Inr (PyStr ACTION_PATTERN))
     \<and> (\<exists>d. py_path schema [''properties'', ''security'', ''properties'', ''signature_algorithm''] = Inr d
          \<and> check_enum ''security.signature_algorithm'' d SIGNATURE_ALGORITHMS = Inr [])
     \<and> (\<exists>d. py_path schema [''properties'', ''hop_trace'', ''items'', ''properties'', ''status''] = Inr d
          \<and> check_status d = Inr [])
     \<and> (\<exists>d. py_path schema [''properties'', ''hop_trace'', ''items'', ''properties'', ''hop_signature_algorithm''] = Inr d
          \<and> check_enum ''hop_trace.items.hop_signature_algorithm'' d SIGNATURE_ALGORITHMS = Inr [])"
    unfolding contract_failures_def
    by (simp only: rbind_Inr_iff) (auto simp: py_eq_str_right simp del: py_eq.simps py_path.simps split: if_splits)
  finally show ?thesis
    unfolding check_required_Nil check_enum_Nil check_status_Nil exact_enum_def by blast
qed

text \<open>The status of a hop may be enumerated by any names.\<close>

definition one_entry :: "string \<Rightarrow> pyval \<Rightarrow> pyval" where
  "one_entry k v = PyDict [(PyStr k, v)]"

definition enum_of :: "string list \<Rightarrow> pyval" where
  "enum_of names = one_entry ''enum'' (PyList (map PyStr names))"

definition sample_schema :: "string list \<Rightarrow> pyval" where
  "sample_schema statuses = PyDict
     [(PyStr [CHR 0x24, CHR ''i'', CHR ''d''], PyStr CANONICAL_ID), (PyStr ''additionalProperties'', PyBool False),
      (PyStr ''required'', PyList (map PyStr REQUIRED_TOP_LEVEL_FIELDS)),
      (PyStr ''properties'', PyDict
        [(PyStr ''header'', one_entry ''properties'' (one_entry ''action'' (one_entry ''pattern'' (PyStr ACTION_PATTERN)))),
         (PyStr ''security'', one_entry ''properties'' (one_entry ''signature_algorithm'' (enum_of SIGNATURE_ALGORITHMS))),
         (PyStr ''hop_trace'', one_entry ''items'' (one_entry ''properties'' (PyDict
            [(PyStr ''status'', enum_of statuses),
             (PyStr ''hop_signature_algorithm'', enum_of SIGNATURE_ALGORITHMS)])))])]"

lemma any_status_passes: "contract_exit_code (Some (Some (sample_schema [''anything'']))) = Inr 0"
  by code_simp

end
