(* ===== verification/Spec2Isabelle.thy ===== *)
theory Spec2Isabelle
  imports Composition Py_Float Exceptions Http_Errors Packet Boundary Admission Circuit_Breaker
    Deadlines Expiring_Store Caches Ownership Concurrency_Limit Registry Node_Limits
    Priority_Queue Routing Runtime Dispatch Condition_Eval Workflow
    Settings Ingress Services Observability Execute_Service Api Progress Serving Wiring Maintenance Prelude
begin

text \<open>
  The Constellation Gate, verified in part: the Python service under
  \<open>src/constellation-gate/src/constellation_gate\<close> that validates transport packets,
  routes each to the worker node that serves its action or runs it as a workflow,
  and answers under its own identity. File names below are relative to that directory.

  \<^bold>\<open>How the program works.\<close> An HTTP route hands the decoded body to a service. For
  \<open>POST /v1/execute\<close> the execute service validates the packet (codec, transport checks,
  origin policy, caller policy), passes it through admission control (rate limiter, load
  shedding, backpressure, circuit breaker), answers from the idempotency store if it can,
  refuses replays, and then runs either the workflow engine or the dispatcher under one
  deadline and one timeout. The dispatcher resolves the action in the node registry,
  computes the budget, derives a Gate-authored packet, takes a permit, counts the load,
  makes one transport call and gives everything back. The registry is filled from a YAML
  file or by admin registration, and a health monitor probes its nodes.

  \<^bold>\<open>Theories and sources.\<close>
  \<^item> \<open>Prelude\<close>: results (\<open>Inl\<close> an exception, \<open>Inr\<close> a value), Python's strings, values
    and dictionaries as ordered association lists. \<open>Py_Float\<close>: \<open>float\<close> as the rational it
    denotes, each operation rounded to binary64. \<open>Exceptions\<close>: the classes and their order.
    \<open>Packet\<close>: the packet and the SDK operations on it.
  \<^item> \<open>Registry\<close>, \<open>Ownership\<close>, \<open>Routing\<close>: \<open>routing/node_registry.py\<close>,
    \<open>schemas/registry.py\<close>, \<open>routing/action_ownership.py\<close>, \<open>routing/resolver.py\<close>,
    \<open>routing/health_monitor.py\<close>, \<open>runtime/routing_readiness.py\<close>,
    \<open>runtime/registry_status.py\<close>. A registry is the list of its nodes by name.
  \<^item> \<open>Node_Limits\<close>, \<open>Dispatch\<close>, \<open>Priority_Queue\<close>: \<open>runtime/node_limits.py\<close>,
    \<open>routing/dispatch.py\<close>, \<open>routing/priority_queue.py\<close>, the latter over the standard
    library's heap in \<open>Binary_Heap\<close>. A coroutine is cut at the places
    where it suspends, so that calls can interleave.
  \<^item> \<open>Admission\<close>, \<open>Circuit_Breaker\<close>, \<open>Deadlines\<close>, \<open>Caches\<close>: \<open>resilience\<close>, one group of
    definitions per class.
  \<^item> \<open>Boundary\<close>, \<open>Ingress\<close>: \<open>boundary\<close>, the factories, the codec, the routing policy and
    the ingress validator. \<open>Settings\<close>: \<open>config/settings.py\<close>, from the environment to
    the validated settings.
  \<^item> \<open>Condition_Eval\<close>, \<open>Workflow\<close>: \<open>orchestration\<close>, \<open>schemas/workflow.py\<close>,
    \<open>services/workflow_service.py\<close>.
  \<^item> \<open>Execute_Service\<close>, \<open>Services\<close>: \<open>services\<close> and \<open>schemas/capabilities.py\<close>.
    \<open>Observability\<close>: \<open>observability\<close>, log records and handlers, traces and metrics as data.
  \<^item> \<open>Http_Errors\<close>, \<open>Api\<close>, \<open>Runtime\<close>: \<open>api\<close>, and \<open>runtime\<close> but for the above.
  \<^item> \<open>Composition\<close>: the execute service with the dispatcher and the workflow engine of
    the same process, as \<open>api/dependencies.py\<close> wires them.
  \<^item> \<open>Wiring\<close>: the getters of \<open>api/dependencies.py\<close> under \<open>lru_cache\<close> and the objects that
    they make, and the dispatcher's choice of a transport. What a getter promises is a locale.
  \<^item> \<open>Progress\<close>: the dispatches, and the calls of the execute service, can always come to an
    end. \<open>Serving\<close>: the process with all its requests at once, \<open>ExecuteService.execute\<close> over
    \<open>WorkflowEngine.execute\<close> and \<open>Dispatcher.dispatch\<close>. A call runs from one of its
    awaits to the next; a state of the process is the service, the registry with the
    limiter, and for each call the dispatch it waits in and what it does afterwards.
  \<^item> \<open>Maintenance\<close>: the scripts \<open>src/scripts/validate_sdk_pin.py\<close> and, under
    \<open>src/constellation-gate/scripts\<close>, \<open>migrate_registry.py\<close>, \<open>predeploy_check.py\<close> and
    \<open>validate_contracts.py\<close>.
  \<^item> The threshold guards (in \<open>Admission\<close>), \<open>Expiring_Store\<close>, \<open>Concurrency_Limit\<close>, the
    least-first queue (in \<open>Binary_Heap\<close>) and the cached getter (in \<open>Wiring\<close>) state
    the interfaces that several components provide, as locales; each is interpreted on
    the components' own definitions, in their theories.

  \<^bold>\<open>What is proved.\<close>
  \<^item> Invariants of interleaved calls: the account of loads and permits over every
    interleaving of dispatches, probes, registrations and re-registrations (\<open>Dispatch\<close>), the in-flight
    count, the replay window and the cache over every interleaving of execute calls
    (\<open>Execute_Service\<close>), well-formedness and ownership over every history of the registry.
  \<^item> All requests together (\<open>Serving\<close>): each step of the process is a step of the system of
    execute calls and of the system of dispatches, so that the invariants of both hold at once and
    meet: the loads add up to at most the calls in flight, each dispatch under way
    belongs to an accepted request and is what that request asked for, and each accepted
    request is answered once. A call that is not interleaved goes as \<open>execute\<close> does.
  \<^item> The whole path (below): what leaves for workers is Gate's, is about the request, and
    the counters are restored; with a caller policy only scoped packets get that far.
  \<^item> Refinements: the circuit breaker implements its documented machine, the queue is
    first in, first out within a priority, the caches answer as their interface says.
  \<^item> Exact accounts of resolution, readiness, capability listing, admission and probing;
    error behaviour on every branch of the dispatcher, the conditions and the routes.
  \<^item> The wiring: the services of the process share one registry, and no dispatch leaves
    through a closed client; the wired execute route is the route of \<open>Api\<close>.
  \<^item> Bounds of budgets, timeouts and retries, with the rounding of floats; progress: from
    every reachable state the calls under way come to an end in a bounded number of steps.
  \<^item> What the model showed to be otherwise than intended is stated as theorems too: a
    network boundary admits nobody, admission ignores the allowlist, a step that names a
    workflow fails, later steps take their tenant from the replies, a cancelled
    \<open>acquire\<close> loses its permit, loading from YAML bypasses ownership, a replay packet
    keeps a stale hash, a broken workflow configuration is found by the first request and
    not at startup, a worker that registers anew in flight is counted as idle, a key id with an empty secret disables signing, the registry
    export loses every registry that Gate can load.

  \<^bold>\<open>Bounds.\<close> No definition carries fuel: loops are structural recursions or functions with
  a termination proof. The budget lemmas take node caps up to \<open>2 ^ 50\<close> milliseconds, above
  which the product of two rounded floats may be off by more than one. Python's integers
  are \<open>int\<close>. Clock readings are arguments; a statement that needs them to be ordered says so.

  \<^bold>\<open>Parameters and what is assumed of them.\<close> The node SDK is the record \<open>sdk\<close>. Its
  documented behaviour is stated as \<open>derives_ok\<close> (a derived packet inherits what is not
  replaced), \<open>hops_ok\<close> (a hop changes the journal only), \<open>constructs_ok\<close>,
  \<open>hash_covers_replay_mode\<close>, \<open>codec_ok\<close> (decoding a dump gives back type and journal),
  \<open>signs_ok\<close>, and for the transport checks \<open>verifies_signatures\<close> and
  \<open>enforces_allowlist\<close>; \<open>ref_sdk\<close>, \<open>codec_sdk\<close> and \<open>ref_transport\<close> satisfy them. Further
  parameters are the transport call, \<open>json.loads\<close> and \<open>float\<close> on text, the parsed YAML
  documents, pydantic's conversion of a mapping to typed fields, the parser and string
  formatting of the condition language, the digest behind an ETag, the text of a JSON log
  line and that of \<open>prometheus_client\<close>. Messages of
  exceptions are kept without the values they interpolate.

  \<^bold>\<open>Not modelled.\<close> FastAPI, uvicorn and the reading of requests; sockets and the HTTP client;
  \<open>resilience/execution_state.py\<close>, which nothing constructs; the command lines of the maintenance scripts; the package files that only
  re-export names.
\<close>

section \<open>Properties of the whole execution path\<close>


text \<open>A world with one worker, for the examples.\<close>

definition sample_world :: gate_world where
  "sample_world = \<lparr>gw_env = \<lparr>env_registry = [(''graph'', sample_node ''graph'' [''match''] [])],
     env_limits = Some limiter_init\<rparr>, gw_now = 0, gw_sent = []\<rparr>"

lemma sample_world_ok: "env_ok (gw_env sample_world)"
proof -
  have "wf_node ''graph'' (sample_node ''graph'' [''match''] [])" by code_simp
  then show ?thesis
    by (simp add: env_ok_def sample_world_def registry_wf_def dwf_def env_held_def held_def permits_def limiter_init_def
        opt_or_def)
qed



text \<open>A worker that counts its requests and answers with what it is asked.\<close>

definition echo_worker :: "nat collaborator" where
  "echo_worker = as_collaborator (\<lambda>p dl w. (w + 1, Inr p))"

definition echo_collaborators :: "nat collaborators" where
  "echo_collaborators = \<lparr>cs_has_workflow = (\<lambda>_. False), cs_engine = echo_worker,
     cs_dispatcher = echo_worker, cs_clock = (\<lambda>_. 0), cs_sleep = (\<lambda>_ w. w)\<rparr>"


text \<open>
  C32. A workflow speaks for its caller's tenant in its first step only: from the second
  step on the tenant of what it sends is the one the previous reply named.
\<close>

theorem later_steps_trust_the_replies:
  assumes "derives_ok S" and "\<And>w q w' a. disp w q = (w', Inr a) \<Longrightarrow> tenant a = X"
    and "workflow_execute S lang E dl clock (logged disp) p (w, []) = ((w', sent), r)"
  shows "sent = [] \<or> tenant (hd sent) = tenant p \<and> list_all (\<lambda>q. tenant q = X) (tl sent)"
proof (cases "dget (we_definitions E) (canon (action (header p)))")
  case None
  with assms(3) show ?thesis by (simp add: workflow_execute_def)
next
  case (Some d)
  obtain s' x where steps: "workflow_steps S lang (we_local_node E) p dl clock (logged disp) (wd_steps d)
      (payload p) None p (w, []) = (s', x)" by fastforce
  with assms(3) Some have "s' = (w', sent)" by (auto simp: workflow_execute_def Let_def split: sum.splits)
  with workflow_steps_tenant[OF assms(1,2) steps] show ?thesis by simp
qed

theorem later_steps_trust_the_replies_witness:
  "\<exists>E sent r. workflow_engine_init [(''Flow'', sample_workflow ''flow'' [''match'', ''enrich''])] ''gate'' None = Inr E
     \<and> workflow_execute (ref_sdk (\<lambda>_. raise ValueError [])) no_conditions E None (\<lambda>_ _. 0)
         (logged (\<lambda>w q. (w, Inr (q\<lparr>tenant := \<lparr>org_id = ''other'', tenant_rest = PyNone\<rparr>\<rparr>)))) (example_packet ''flow'') (0 :: nat, [])
         = ((0, sent), r)
     \<and> org_id (tenant (example_packet ''flow'')) = ''acme'' \<and> (\<exists>q \<in> set sent. org_id (tenant q) = ''other'')"
proof -
  let ?S = "ref_sdk (\<lambda>_. raise ValueError [])"
  let ?T = "\<lparr>org_id = ''other'', tenant_rest = PyNone\<rparr>"
  let ?disp = "\<lambda>(w :: nat) q. (w, Inr (q\<lparr>tenant := ?T\<rparr>) :: packet res)"
  let ?defs = "[(''Flow'', sample_workflow ''flow'' [''match'', ''enrich''])]"
  obtain E where E: "workflow_engine_init ?defs ''gate'' None = Inr E"
    by (simp add: workflow_engine_init_def validate_definitions_def Let_def)
  have "case workflow_engine_init ?defs ''gate'' None of Inl e \<Rightarrow> False
    | Inr E \<Rightarrow> (case workflow_execute ?S no_conditions E None (\<lambda>_ _. 0) (logged ?disp)
        (example_packet ''flow'') (0, []) of (s, r) \<Rightarrow> fst s = 0 \<and> length (snd s) = 2)"
    by code_simp
  with E obtain sent r where run: "workflow_execute ?S no_conditions E None (\<lambda>_ _. 0) (logged ?disp)
      (example_packet ''flow'') (0, []) = ((0, sent), r)" "length sent = 2"
    by (auto split: prod.splits)
  from later_steps_trust_the_replies[OF ref_sdk_derives_ok _ run(1), of ?T] run(2)
  obtain q where q: "q \<in> set sent" "tenant q = ?T" by (cases sent; cases "tl sent"; auto)
  then have "\<exists>q \<in> set sent. org_id (tenant q) = ''other''" by force
  moreover have "org_id (tenant (example_packet ''flow'')) = ''acme''" by (simp add: example_packet_def)
  ultimately show ?thesis using E run(1) by blast
qed



end
